(* ===== verification/Cat_Prelude.thy ===== *)
theory Cat_Prelude
  imports Main "HOL-Library.Word" "HOL-Library.Sublist"
begin

text \<open>
  Shared vocabulary of the development: the machine types of the Rust sources, byte strings,
  the pieces of the Rust standard library the sources call (big-endian integers, UTF-8
  validation, slice prefixes and suffixes), and the collections of simplification rules the
  component theories add to.

  A Rust \<^verbatim>\<open>Result<T, E>\<close> is the sum \<open>'e + 't\<close> with \<^term>\<open>Inl\<close> for \<^verbatim>\<open>Err\<close>; an \<^verbatim>\<open>Option\<close> is
  an option. A Rust \<^verbatim>\<open>String\<close> or \<^verbatim>\<open>&str\<close> is the list of its UTF-8 bytes, so that
  \<^verbatim>\<open>as_bytes\<close> is the identity.
\<close>

unbundle bit_operations_syntax

type_synonym u8 = "8 word"
type_synonym u32 = "32 word"
type_synonym u64 = "64 word"
type_synonym bytes = "u8 list"

named_theorems wire_defs \<open>definitions of encoders and decoders, for evaluation on closed bytes\<close>
named_theorems model_defs \<open>definitions of operations of the components\<close>

section \<open>Definitions\<close>

subsection \<open>Byte strings\<close>

text \<open>The bytes of an ASCII literal such as \<^verbatim>\<open>b"ERR "\<close>.\<close>

definition lit :: "string \<Rightarrow> bytes" where
  "lit s = map of_char s"

text \<open>\<open>decimal\<close> prints a number, \<^verbatim>\<open>format!\<close>'s rendering of an unsigned integer.\<close>

fun decimal :: "nat \<Rightarrow> bytes" where
  "decimal n = (if n < 10 then [of_nat (48 + n)] else decimal (n div 10) @ [of_nat (48 + n mod 10)])"

declare decimal.simps [simp del]

text \<open>\<^verbatim>\<open>slice::strip_suffix\<close> for a one-byte suffix, and \<^verbatim>\<open>slice::strip_prefix\<close>.\<close>

definition strip_suffix :: "u8 \<Rightarrow> bytes \<Rightarrow> bytes option" where
  "strip_suffix b xs = (if xs \<noteq> [] \<and> last xs = b then Some (butlast xs) else None)"

definition strip_prefix :: "bytes \<Rightarrow> bytes \<Rightarrow> bytes option" where
  "strip_prefix p xs = (if take (length p) xs = p then Some (drop (length p) xs) else None)"

subsection \<open>Big-endian integers\<close>

text \<open>
  \<open>be_bytes is v\<close> is the bytes of \<open>v\<close> at the places \<open>is\<close>, most significant place first;
  \<open>be_value\<close> reads a byte string back.
\<close>

definition be_bytes :: "nat list \<Rightarrow> nat \<Rightarrow> bytes" where
  "be_bytes is v = map (\<lambda>i. of_nat (v div 256 ^ i)) is"

definition be_value :: "bytes \<Rightarrow> nat" where
  "be_value = foldl (\<lambda>a b. a * 256 + unat b) 0"

definition u32_to_be_bytes :: "u32 \<Rightarrow> bytes" where
  "u32_to_be_bytes w = be_bytes [3, 2, 1, 0] (unat w)"

definition u32_from_be_bytes :: "bytes \<Rightarrow> u32" where
  "u32_from_be_bytes bs = of_nat (be_value bs)"

definition u64_to_be_bytes :: "u64 \<Rightarrow> bytes" where
  "u64_to_be_bytes w = be_bytes [7, 6, 5, 4, 3, 2, 1, 0] (unat w)"

definition u64_from_be_bytes :: "bytes \<Rightarrow> u64" where
  "u64_from_be_bytes bs = of_nat (be_value bs)"

subsection \<open>UTF-8 validation\<close>

text \<open>
  \<^verbatim>\<open>core::str::from_utf8\<close> succeeds exactly on well-formed UTF-8 (Unicode, table 3-7): no
  overlong forms, no surrogates, nothing above U+10FFFF.
\<close>

definition utf8_cont :: "u8 \<Rightarrow> bool" where
  "utf8_cont b \<longleftrightarrow> 0x80 \<le> b \<and> b \<le> 0xBF"

definition utf8_second3 :: "u8 \<Rightarrow> u8 \<Rightarrow> bool" where
  "utf8_second3 a b \<longleftrightarrow>
     (if a = 0xE0 then 0xA0 \<le> b \<and> b \<le> 0xBF
      else if a = 0xED then 0x80 \<le> b \<and> b \<le> 0x9F
      else utf8_cont b)"

definition utf8_second4 :: "u8 \<Rightarrow> u8 \<Rightarrow> bool" where
  "utf8_second4 a b \<longleftrightarrow>
     (if a = 0xF0 then 0x90 \<le> b \<and> b \<le> 0xBF
      else if a = 0xF4 then 0x80 \<le> b \<and> b \<le> 0x8F
      else utf8_cont b)"

text \<open>The width of the first character of a byte string, 0 where it is ill-formed.\<close>

definition utf8_width :: "bytes \<Rightarrow> nat" where
  "utf8_width bs =
     (case bs of
        [] \<Rightarrow> 0
      | a # r \<Rightarrow>
          if a < 0x80 then 1
          else if 0xC2 \<le> a \<and> a \<le> 0xDF then
            (case r of b # _ \<Rightarrow> if utf8_cont b then 2 else 0 | _ \<Rightarrow> 0)
          else if 0xE0 \<le> a \<and> a \<le> 0xEF then
            (case r of b # c # _ \<Rightarrow> if utf8_second3 a b \<and> utf8_cont c then 3 else 0 | _ \<Rightarrow> 0)
          else if 0xF0 \<le> a \<and> a \<le> 0xF4 then
            (case r of b # c # d # _ \<Rightarrow>
               if utf8_second4 a b \<and> utf8_cont c \<and> utf8_cont d then 4 else 0 | _ \<Rightarrow> 0)
          else 0)"

function utf8_valid :: "bytes \<Rightarrow> bool" where
  "utf8_valid bs =
     (if bs = [] then True
      else if utf8_width bs = 0 then False
      else utf8_valid (drop (utf8_width bs) bs))"
  by pat_completeness auto
termination
  by (relation "measure length") auto

declare utf8_valid.simps [simp del]

section \<open>Lemmas\<close>

declare lit_def [wire_defs] strip_suffix_def [wire_defs] strip_prefix_def [wire_defs]
  be_bytes_def [wire_defs] be_value_def [wire_defs]
  u32_to_be_bytes_def [wire_defs] u32_from_be_bytes_def [wire_defs]
  u64_to_be_bytes_def [wire_defs] u64_from_be_bytes_def [wire_defs]
  utf8_cont_def [wire_defs] utf8_second3_def [wire_defs] utf8_second4_def [wire_defs] utf8_width_def [wire_defs]

lemma strip_suffix_snoc [simp]: "strip_suffix b (xs @ [b]) = Some xs"
  by (simp add: strip_suffix_def)

lemma strip_suffix_Some_iff: "strip_suffix b xs = Some ys \<longleftrightarrow> xs = ys @ [b]"
  by (auto simp: strip_suffix_def) (metis butlast_snoc)

lemma strip_suffix_None_iff: "strip_suffix b xs = None \<longleftrightarrow> xs = [] \<or> last xs \<noteq> b"
  by (auto simp: strip_suffix_def)

lemma strip_prefix_append [simp]: "strip_prefix p (p @ xs) = Some xs"
  by (simp add: strip_prefix_def)

lemma strip_prefix_Some_iff: "strip_prefix p xs = Some ys \<longleftrightarrow> xs = p @ ys"
  by (auto simp: strip_prefix_def) (metis append_take_drop_id)

lemma lit_append [simp]: "lit (s @ t) = lit s @ lit t"
  by (simp add: lit_def)

lemma length_lit [simp]: "length (lit s) = length s"
  by (simp add: lit_def)

lemma length_be_bytes [simp]: "length (be_bytes is v) = length is"
  by (simp add: be_bytes_def)

lemma be_value_step:
  "foldl (\<lambda>a b. a * 256 + unat b) a (be_bytes (rev [0..<n]) v) = a * 256 ^ n + v mod 256 ^ n"
proof (induction n arbitrary: a)
  case 0
  show ?case by (simp add: be_bytes_def)
next
  case (Suc n)
  have "v mod 256 ^ Suc n = (v div 256 ^ n mod 256) * 256 ^ n + v mod 256 ^ n"
    by (simp add: mod_mult2_eq mult.commute [of 256])
  moreover have "be_bytes (rev [0..<Suc n]) v = of_nat (v div 256 ^ n) # be_bytes (rev [0..<n]) v"
    by (simp add: be_bytes_def)
  ultimately show ?case
    using Suc.IH by (simp add: unat_of_nat algebra_simps)
qed

lemma be_value_be_bytes: "be_value (be_bytes (rev [0..<n]) v) = v mod 256 ^ n"
  by (simp add: be_value_def be_value_step)

lemma u32_to_be_bytes_alt: "u32_to_be_bytes w = be_bytes (rev [0..<4]) (unat w)"
  by (simp add: u32_to_be_bytes_def upt_rec numeral_eq_Suc)

lemma u64_to_be_bytes_alt: "u64_to_be_bytes w = be_bytes (rev [0..<8]) (unat w)"
  by (simp add: u64_to_be_bytes_def upt_rec numeral_eq_Suc)

lemma length_u32_to_be_bytes [simp]: "length (u32_to_be_bytes w) = 4"
  by (simp add: u32_to_be_bytes_def)

lemma length_u64_to_be_bytes [simp]: "length (u64_to_be_bytes w) = 8"
  by (simp add: u64_to_be_bytes_def)

lemma u32_be_roundtrip [simp]: "u32_from_be_bytes (u32_to_be_bytes w) = w"
proof -
  have "unat w < 256 ^ 4" using unsigned_less [of w] by simp
  then show ?thesis
    by (simp add: u32_from_be_bytes_def u32_to_be_bytes_alt be_value_be_bytes)
qed

lemma u64_be_roundtrip [simp]: "u64_from_be_bytes (u64_to_be_bytes w) = w"
proof -
  have "unat w < 256 ^ 8" using unsigned_less [of w] by simp
  then show ?thesis
    by (simp add: u64_from_be_bytes_def u64_to_be_bytes_alt be_value_be_bytes)
qed

text \<open>The other direction: the bytes of a value read from eight bytes are those bytes.\<close>

lemma be_bytes_value_step:
  "be_bytes (rev [0..<length bs]) (foldl (\<lambda>a b. a * 256 + unat b) a bs) = bs"
proof (induction bs rule: rev_induct)
  case Nil
  show ?case by (simp add: be_bytes_def)
next
  case (snoc b bs)
  let ?v = "foldl (\<lambda>a b. a * 256 + unat b) a bs"
  have b: "unat b < 256" using unsigned_less [of b] by simp
  have upt: "[0..<Suc (length bs)] = 0 # map Suc [0..<length bs]"
    by (simp add: map_Suc_upt upt_conv_Cons del: upt_Suc)
  have "(?v * 256 + unat b) div 256 ^ Suc i = ?v div 256 ^ i" for i
    using b by (simp add: div_mult2_eq)
  then have "be_bytes (rev [0..<Suc (length bs)]) (?v * 256 + unat b) =
      be_bytes (rev [0..<length bs]) ?v @ [of_nat (?v * 256 + unat b)]"
    by (simp add: be_bytes_def upt rev_map o_def del: upt_Suc)
  moreover have "(of_nat (?v * 256 + unat b) :: u8) = b"
  proof -
    have "(256 :: u8) = 0" by simp
    then show ?thesis by (simp only: of_nat_add of_nat_mult of_nat_numeral) simp
  qed
  ultimately show ?case using snoc.IH by simp
qed

lemma be_value_lt: "be_value bs < 256 ^ length bs"
proof (induction bs rule: rev_induct)
  case Nil
  show ?case by (simp add: be_value_def)
next
  case (snoc b bs)
  have "unat b < 256" using unsigned_less [of b] by simp
  with snoc show ?case by (simp add: be_value_def)
qed

lemma u32_from_to_be_bytes:
  assumes "length bs = 4"
  shows "u32_to_be_bytes (u32_from_be_bytes bs) = bs"
proof -
  have "be_value bs < 2 ^ 32" using be_value_lt [of bs] assms by simp
  then have "unat (u32_from_be_bytes bs) = be_value bs"
    by (simp add: u32_from_be_bytes_def unat_of_nat)
  with be_bytes_value_step [of bs 0] assms show ?thesis
    by (simp add: u32_to_be_bytes_alt be_value_def)
qed

lemma u64_from_to_be_bytes:
  assumes "length bs = 8"
  shows "u64_to_be_bytes (u64_from_be_bytes bs) = bs"
proof -
  have "be_value bs < 2 ^ 64" using be_value_lt [of bs] assms by simp
  then have "unat (u64_from_be_bytes bs) = be_value bs"
    by (simp add: u64_from_be_bytes_def unat_of_nat)
  with be_bytes_value_step [of bs 0] assms show ?thesis
    by (simp add: u64_to_be_bytes_alt be_value_def)
qed

lemma utf8_valid_Nil [simp]: "utf8_valid []"
  by (subst utf8_valid.simps) simp

lemma utf8_valid_nonempty:
  "bs \<noteq> [] \<Longrightarrow> utf8_valid bs \<longleftrightarrow> utf8_width bs \<noteq> 0 \<and> utf8_valid (drop (utf8_width bs) bs)"
  by (subst utf8_valid.simps) simp

lemma utf8_valid_ascii_Cons [simp]: "a < 0x80 \<Longrightarrow> utf8_valid (a # bs) = utf8_valid bs"
  by (subst utf8_valid.simps) (simp add: utf8_width_def)

lemma utf8_valid_ascii: "\<forall>b \<in> set bs. b < 0x80 \<Longrightarrow> utf8_valid bs"
  by (induction bs) auto

lemma list_upto3_cases:
  obtains "xs = []" | a where "xs = [a]" | a b where "xs = [a, b]" | a b c r where "xs = a # b # c # r"
  by (metis list.exhaust)

lemma utf8_width_append:
  assumes "utf8_width a \<noteq> 0"
  shows "utf8_width (a @ b) = utf8_width a \<and> utf8_width a \<le> length a \<and> a \<noteq> []"
proof (cases a)
  case Nil
  with assms show ?thesis by (simp add: utf8_width_def)
next
  case (Cons x r)
  show ?thesis using assms unfolding Cons
    by (cases r rule: list_upto3_cases) (simp_all add: utf8_width_def split: if_split_asm)
qed

lemma utf8_valid_append: "utf8_valid a \<Longrightarrow> utf8_valid (a @ b) = utf8_valid b"
proof (induction a rule: utf8_valid.induct)
  case (1 a)
  show ?case
  proof (cases "a = []")
    case False
    with "1.prems" have w: "utf8_width a \<noteq> 0" "utf8_valid (drop (utf8_width a) a)"
      by (simp_all add: utf8_valid_nonempty)
    from utf8_width_append [OF w(1)] have "drop (utf8_width (a @ b)) (a @ b) = drop (utf8_width a) a @ b"
      by simp
    with w False "1.IH" utf8_width_append [OF w(1)] show ?thesis
      by (simp add: utf8_valid_nonempty [of "a @ b"])
  qed simp
qed

text \<open>An ASCII byte never continues a character.\<close>

lemma utf8_width_snoc:
  assumes "utf8_width (a @ [c]) \<noteq> 0" and "c < 0x80" and "a \<noteq> []"
  shows "utf8_width a = utf8_width (a @ [c])"
proof -
  obtain x r where a: "a = x # r" using assms(3) by (cases a) auto
  have c: "\<not> utf8_cont c" "\<not> utf8_second3 x c" "\<not> utf8_second4 x c"
    using assms(2) by (auto simp: utf8_cont_def utf8_second3_def utf8_second4_def word_less_nat_alt word_le_nat_alt)
  show ?thesis using assms(1) unfolding a
    by (cases r rule: list_upto3_cases) (simp_all add: utf8_width_def c split: if_split_asm)
qed

lemma utf8_valid_butlast: "utf8_valid (a @ [c]) \<Longrightarrow> c < 0x80 \<Longrightarrow> utf8_valid a"
proof (induction a rule: utf8_valid.induct)
  case (1 a)
  show ?case
  proof (cases "a = []")
    case False
    with "1.prems" have w: "utf8_width (a @ [c]) \<noteq> 0"
        "utf8_valid (drop (utf8_width (a @ [c])) (a @ [c]))"
      by (simp_all add: utf8_valid_nonempty [of "a @ [c]"])
    from utf8_width_snoc [OF w(1) "1.prems"(2) False] w(1)
    have wa: "utf8_width a = utf8_width (a @ [c])" "utf8_width a \<noteq> 0" by simp_all
    with w(2) utf8_width_append [OF wa(2), of "[]"]
    have "utf8_valid (drop (utf8_width a) a @ [c])" by simp
    with "1.IH" "1.prems"(2) wa(2) False show ?thesis by (simp add: utf8_valid_nonempty [of a])
  qed simp
qed

lemma map_sum_id_eq_iff [simp]:
  "map_sum id g s = Inl e \<longleftrightarrow> s = Inl e"
  "map_sum id g s = Inr y \<longleftrightarrow> (\<exists>x. s = Inr x \<and> g x = y)"
  by (cases s; auto)+

text \<open>
  A frame that ends in a byte it does not contain before is recognised at its full length and at no
  shorter prefix.
\<close>

lemma terminator_scan:
  assumes "t \<notin> set body"
  shows "take k (body @ [t]) \<noteq> [] \<and> last (take k (body @ [t])) = t \<longleftrightarrow> length (body @ [t]) \<le> k"
proof (cases "length (body @ [t]) \<le> k")
  case True
  then show ?thesis by simp
next
  case False
  then have "take k (body @ [t]) = take k body" by simp
  with assms False show ?thesis
    by (metis in_set_takeD last_in_set)
qed

lemma map_of_snoc: "k \<notin> fst ` set kvs \<Longrightarrow> map_of (kvs @ [(k, v)]) = (map_of kvs)(k \<mapsto> v)"
  by (induction kvs) (auto simp: fun_eq_iff)

lemma map_of_tail: "fst e \<notin> fst ` set kvs \<Longrightarrow> (map_of (e # kvs))(fst e := None) = map_of kvs"
  using map_of_eq_None_iff [of kvs "fst e"] by (auto simp: fun_eq_iff)

text \<open>A slice search returns the first match.\<close>

lemma find_Some_set: "List.find P xs = Some x \<Longrightarrow> x \<in> set xs \<and> P x"
  by (auto simp: find_Some_iff)

lemma find_key_unique:
  assumes "List.find (\<lambda>d. key d = k) xs = Some x"
  shows "List.find (\<lambda>d. key d = key x) xs = Some x"
  using assms find_Some_set [OF assms] by simp

end
