(* ===== verification/Cat_Engine.thy ===== *)
theory Cat_Engine
  imports Cat_Prelude
begin

text \<open>
  The generic command engine of \<^verbatim>\<open>cat-framework\<close>: \<^verbatim>\<open>src/cat.rs\<close> (command forms, command
  tables, \<^verbatim>\<open>CommandTable::parse\<close>, parameter access, the response builder and
  \<^verbatim>\<open>CatFramework::process_frame\<close>) and \<^verbatim>\<open>src/wire_format.rs\<close> (the \<^verbatim>\<open>CatWireFormat\<close> trait and its
  ASCII implementation).

  The trait \<^verbatim>\<open>CatWireFormat\<close> is the record \<open>wire_format\<close>: one field per method, and the
  \<^verbatim>\<open>Debug\<close> rendering of a code, which the engine only copies into error texts. What a client of
  a format relies on is the locale \<open>cat_wire_format\<close>; it is interpreted here for
  \<^verbatim>\<open>AsciiLineFormat\<close> and in \<open>Civ\<close> for \<^verbatim>\<open>CivFormat\<close>. A \<^verbatim>\<open>usize\<close> length is a \<open>nat\<close>. A panic is the
  value \<^term>\<open>None\<close> of the accessors that can panic.
\<close>

section \<open>Command forms and tables\<close>

datatype command_operation = OpQuery | OpSet | OpAction | OpResponse

record command_form =
  form_operation :: command_operation
  form_min_len :: nat
  form_max_len :: nat
  form_is_selector_read :: bool

definition form_fixed :: "command_operation \<Rightarrow> nat \<Rightarrow> command_form" where
  "form_fixed operation len =
     \<lparr>form_operation = operation, form_min_len = len, form_max_len = len,
      form_is_selector_read = False\<rparr>"

definition form_variable :: "command_operation \<Rightarrow> nat \<Rightarrow> nat \<Rightarrow> command_form" where
  "form_variable operation min_len max_len =
     \<lparr>form_operation = operation, form_min_len = min_len, form_max_len = max_len,
      form_is_selector_read = False\<rparr>"

definition form_selector_read :: "nat \<Rightarrow> command_form" where
  "form_selector_read len =
     \<lparr>form_operation = OpSet, form_min_len = len, form_max_len = len,
      form_is_selector_read = True\<rparr>"

definition form_matches :: "command_form \<Rightarrow> command_operation \<Rightarrow> nat \<Rightarrow> bool" where
  "form_matches form operation len \<longleftrightarrow>
     form_operation form = operation \<and> form_min_len form \<le> len \<and> len \<le> form_max_len form"

record ('id, 'code) command_definition =
  def_id :: 'id
  def_code :: 'code
  def_name :: bytes
  def_description :: bytes
  query_forms :: "command_form list"
  set_forms :: "command_form list"
  action_forms :: "command_form list"
  response_forms :: "command_form list"
  readable :: bool
  writable :: bool

definition forms_for :: "('id, 'code) command_definition \<Rightarrow> command_operation \<Rightarrow> command_form list" where
  "forms_for d operation =
     (case operation of
        OpQuery \<Rightarrow> query_forms d
      | OpSet \<Rightarrow> set_forms d
      | OpAction \<Rightarrow> action_forms d
      | OpResponse \<Rightarrow> response_forms d)"

definition supports :: "('id, 'code) command_definition \<Rightarrow> command_operation \<Rightarrow> nat \<Rightarrow> bool" where
  "supports d operation param_len \<longleftrightarrow>
     list_ex (\<lambda>form. form_matches form operation param_len) (forms_for d operation)"

definition is_selector_read :: "('id, 'code) command_definition \<Rightarrow> nat \<Rightarrow> bool" where
  "is_selector_read d param_len \<longleftrightarrow>
     list_ex (\<lambda>form. form_matches form OpSet param_len \<and> form_is_selector_read form) (set_forms d)"

record ('id, 'code) command_table =
  definitions :: "('id, 'code) command_definition list"

definition table_find :: "('id, 'code) command_table \<Rightarrow> 'code \<Rightarrow> ('id, 'code) command_definition option" where
  "table_find table code = List.find (\<lambda>d. def_code d = code) (definitions table)"

section \<open>Errors\<close>

datatype parse_error =
    MissingTerminator
  | InvalidSyntax
  | UnknownCommand bytes
  | UnsupportedOperation bytes
  | InvalidParameterWidth bytes nat

datatype protocol_error_kind =
    KindUnknownCommand
  | KindInvalidSyntax
  | KindInvalidParameter
  | KindUnsupportedOperation

fun protocol_error_kind_from :: "parse_error \<Rightarrow> protocol_error_kind" where
  "protocol_error_kind_from (UnknownCommand _) = KindUnknownCommand"
| "protocol_error_kind_from (UnsupportedOperation _) = KindUnsupportedOperation"
| "protocol_error_kind_from (InvalidParameterWidth _ _) = KindInvalidParameter"
| "protocol_error_kind_from MissingTerminator = KindInvalidSyntax"
| "protocol_error_kind_from InvalidSyntax = KindInvalidSyntax"

section \<open>Wire formats and parsing\<close>

record ('id, 'code) wire_format =
  find_command :: "('id, 'code) command_table \<Rightarrow> bytes \<Rightarrow>
    parse_error + (('id, 'code) command_definition \<times> bytes)"
  encode_request :: "'code \<Rightarrow> bytes \<Rightarrow> bytes"
  code_debug :: "'code \<Rightarrow> bytes"

record ('id, 'code) command_request =
  req_id :: 'id
  req_code :: 'code
  req_operation :: command_operation
  req_parameters :: bytes

definition classify :: "('id, 'code) wire_format \<Rightarrow> ('id, 'code) command_definition \<Rightarrow> bytes \<Rightarrow>
    parse_error + command_operation" where
  "classify format d parameters =
     (if supports d OpQuery (length parameters) then Inr OpQuery
      else if parameters = [] \<and> supports d OpAction 0 then Inr OpAction
      else if supports d OpSet (length parameters) then Inr OpSet
      else if parameters = [] then Inl (UnsupportedOperation (code_debug format (def_code d)))
      else Inl (InvalidParameterWidth (code_debug format (def_code d)) (length parameters)))"

definition parse :: "('id, 'code) command_table \<Rightarrow> ('id, 'code) wire_format \<Rightarrow> bytes \<Rightarrow>
    parse_error + ('id, 'code) command_request" where
  "parse table format frame =
     (case find_command format table frame of
        Inl e \<Rightarrow> Inl e
      | Inr (d, parameters) \<Rightarrow>
          (case classify format d parameters of
             Inl e \<Rightarrow> Inl e
           | Inr operation \<Rightarrow>
               Inr \<lparr>req_id = def_id d, req_code = def_code d, req_operation = operation,
                    req_parameters = parameters\<rparr>))"

text \<open>\<^verbatim>\<open>AsciiLineFormat\<close>: a two-byte code, parameters, and \<^verbatim>\<open>;\<close> (59).\<close>

definition ascii_find_command :: "('id, bytes) command_table \<Rightarrow> bytes \<Rightarrow>
    parse_error + (('id, bytes) command_definition \<times> bytes)" where
  "ascii_find_command table frame0 =
     (case strip_suffix 59 frame0 of
        None \<Rightarrow> Inl MissingTerminator
      | Some frame \<Rightarrow>
          if length frame < 2 then Inl InvalidSyntax
          else
            let code = take 2 frame; parameters = drop 2 frame in
            if \<not> utf8_valid code then Inl InvalidSyntax
            else (case List.find (\<lambda>d. def_code d = code) (definitions table) of
                    None \<Rightarrow> Inl (UnknownCommand code)
                  | Some d \<Rightarrow> Inr (d, parameters)))"

definition ascii_encode_request :: "bytes \<Rightarrow> bytes \<Rightarrow> bytes" where
  "ascii_encode_request code params = code @ params @ [59]"

definition ascii_line_format :: "(bytes \<Rightarrow> bytes) \<Rightarrow> ('id, bytes) wire_format" where
  "ascii_line_format debug =
     \<lparr>find_command = ascii_find_command, encode_request = ascii_encode_request,
      code_debug = debug\<rparr>"

definition ascii_frame_complete :: "bytes \<Rightarrow> bool" where
  "ascii_frame_complete buffer \<longleftrightarrow> buffer \<noteq> [] \<and> last buffer = 59"

section \<open>Parameter access\<close>

text \<open>\<^verbatim>\<open>raw\<close> panics, the value \<^term>\<open>None\<close>, on parameter bytes that are not UTF-8.\<close>

definition parameters_raw :: "bytes \<Rightarrow> bytes option" where
  "parameters_raw raw = (if utf8_valid raw then Some raw else None)"

text \<open>
  \<^verbatim>\<open>str::parse::<u64>\<close>: an optional \<^verbatim>\<open>+\<close>, then at least one decimal digit, no overflow. The digit
  loop stops at the first bad digit or overflow.
\<close>

fun parse_digits :: "nat \<Rightarrow> bytes \<Rightarrow> nat option" where
  "parse_digits acc [] = Some acc"
| "parse_digits acc (b # bs) =
     (if 48 \<le> b \<and> b \<le> 57 then
        (let acc' = acc * 10 + (unat b - 48)
         in if acc' < 2 ^ 64 then parse_digits acc' bs else None)
      else None)"

definition parse_u64 :: "bytes \<Rightarrow> u64 option" where
  "parse_u64 s =
     (let digits = (case s of [] \<Rightarrow> [] | b # r \<Rightarrow> if b = 43 then r else s)
      in if digits = [] then None else map_option of_nat (parse_digits 0 digits))"

datatype parameter_access_error = InvalidUnsigned

definition parameters_unsigned :: "bytes \<Rightarrow> (parameter_access_error + u64) option" where
  "parameters_unsigned raw =
     (case parameters_raw raw of
        None \<Rightarrow> None
      | Some s \<Rightarrow> Some (case parse_u64 s of None \<Rightarrow> Inl InvalidUnsigned | Some v \<Rightarrow> Inr v))"

section \<open>Responses\<close>

datatype response_disposition =
    ResponseWritten
  | NoResponse
  | ProtocolError protocol_error_kind

record 'ev command_outcome =
  outcome_response :: response_disposition
  outcome_events :: "'ev list"

definition outcome_response_written :: "'ev command_outcome" where
  "outcome_response_written = \<lparr>outcome_response = ResponseWritten, outcome_events = []\<rparr>"

definition outcome_no_response :: "'ev command_outcome" where
  "outcome_no_response = \<lparr>outcome_response = NoResponse, outcome_events = []\<rparr>"

datatype response_build_error = AlreadyFinished

record response_builder =
  rb_output :: bytes
  rb_finished :: bool

definition rb_new :: "bytes \<Rightarrow> response_builder" where
  "rb_new output = \<lparr>rb_output = output, rb_finished = False\<rparr>"

text \<open>
  Each writer returns the result and the builder after the call; on \<^verbatim>\<open>Err\<close> the builder is the one
  it was called with.
\<close>

definition push_bytes :: "response_builder \<Rightarrow> bytes \<Rightarrow> (response_build_error + unit) \<times> response_builder" where
  "push_bytes rb data =
     (if rb_finished rb then (Inl AlreadyFinished, rb)
      else (Inr (), rb\<lparr>rb_output := rb_output rb @ data\<rparr>))"

definition write_frame :: "response_builder \<Rightarrow> bytes \<Rightarrow> (response_build_error + unit) \<times> response_builder" where
  "write_frame rb frame =
     (case push_bytes rb frame of
        (Inl e, rb') \<Rightarrow> (Inl e, rb')
      | (Inr _, rb') \<Rightarrow> (Inr (), rb'\<lparr>rb_finished := True\<rparr>))"

definition push_wire_value :: "response_builder \<Rightarrow> bytes \<Rightarrow> (response_build_error + unit) \<times> response_builder" where
  "push_wire_value rb value =
     (if rb_finished rb then (Inl AlreadyFinished, rb)
      else (Inr (), rb\<lparr>rb_output := rb_output rb @ value\<rparr>))"

definition finish :: "response_builder \<Rightarrow> (response_build_error + unit) \<times> response_builder" where
  "finish rb =
     (if rb_finished rb then (Inl AlreadyFinished, rb)
      else (Inr (), rb\<lparr>rb_output := rb_output rb @ [59], rb_finished := True\<rparr>))"

definition write_complete :: "response_builder \<Rightarrow> bytes \<Rightarrow> (response_build_error + unit) \<times> response_builder" where
  "write_complete rb response =
     (if rb_finished rb then (Inl AlreadyFinished, rb)
      else (Inr (), rb\<lparr>rb_output := rb_output rb @ response,
                      rb_finished := (response \<noteq> [] \<and> last response = 59)\<rparr>))"

datatype builder_call =
    PushBytes bytes
  | WriteFrame bytes
  | PushWireValue bytes
  | Finish
  | WriteComplete bytes

fun builder_step :: "response_builder \<Rightarrow> builder_call \<Rightarrow> (response_build_error + unit) \<times> response_builder" where
  "builder_step rb (PushBytes b) = push_bytes rb b"
| "builder_step rb (WriteFrame b) = write_frame rb b"
| "builder_step rb (PushWireValue b) = push_wire_value rb b"
| "builder_step rb Finish = finish rb"
| "builder_step rb (WriteComplete b) = write_complete rb b"

fun builder_run :: "response_builder \<Rightarrow> builder_call list \<Rightarrow> response_builder" where
  "builder_run rb [] = rb"
| "builder_run rb (c # cs) = builder_run (snd (builder_step rb c)) cs"

section \<open>Frame processing\<close>

text \<open>
  A radio is the record of its trait methods over a state type \<open>'r\<close>. A handler returns the radio
  after the call, the builder after the call, and its result.
\<close>

record ('r, 'id, 'code, 'ev, 'err) cat_radio =
  command_table_of :: "'r \<Rightarrow> ('id, 'code) command_table"
  handle_command :: "'r \<Rightarrow> ('id, 'code) command_request \<Rightarrow> response_builder \<Rightarrow>
    'r \<times> response_builder \<times> ('err + 'ev command_outcome)"
  write_protocol_error :: "'r \<Rightarrow> protocol_error_kind \<Rightarrow> response_builder \<Rightarrow>
    'r \<times> response_builder \<times> ('err + 'ev command_outcome)"

datatype 'err cat_framework_error = FwParse parse_error | FwRadio 'err

record ('r, 'id, 'code) cat_framework =
  fw_radio :: 'r
  fw_format :: "('id, 'code) wire_format"

definition with_format :: "'r \<Rightarrow> ('id, 'code) wire_format \<Rightarrow> ('r, 'id, 'code) cat_framework" where
  "with_format radio format = \<lparr>fw_radio = radio, fw_format = format\<rparr>"

definition process_frame :: "('r, 'id, 'code, 'ev, 'err) cat_radio \<Rightarrow> ('r, 'id, 'code) cat_framework \<Rightarrow>
    bytes \<Rightarrow> bytes \<Rightarrow>
    ('r, 'id, 'code) cat_framework \<times> bytes \<times> ('err cat_framework_error + 'ev command_outcome)" where
  "process_frame R fw frame output =
     (case parse (command_table_of R (fw_radio fw)) (fw_format fw) frame of
        Inr request \<Rightarrow>
          (case handle_command R (fw_radio fw) request (rb_new output) of
             (radio, rb, result) \<Rightarrow>
               (fw\<lparr>fw_radio := radio\<rparr>, rb_output rb,
                (case result of Inl e \<Rightarrow> Inl (FwRadio e) | Inr out \<Rightarrow> Inr out)))
      | Inl err \<Rightarrow>
          (case write_protocol_error R (fw_radio fw) (protocol_error_kind_from err) (rb_new output) of
             (radio, rb, result) \<Rightarrow>
               (fw\<lparr>fw_radio := radio\<rparr>, rb_output rb,
                (case result of Inl e \<Rightarrow> Inl (FwRadio e) | Inr out \<Rightarrow> Inr out))))"

section \<open>Lemmas\<close>

declare form_fixed_def [model_defs] form_variable_def [model_defs]
  form_selector_read_def [model_defs] form_matches_def [model_defs] forms_for_def [model_defs]
  supports_def [model_defs] is_selector_read_def [model_defs] table_find_def [model_defs]
  classify_def [model_defs] parse_def [model_defs] ascii_find_command_def [model_defs]
  ascii_encode_request_def [model_defs] ascii_line_format_def [model_defs]

lemma ascii_line_format_simps [simp]:
  "find_command (ascii_line_format debug) = ascii_find_command"
  "encode_request (ascii_line_format debug) = ascii_encode_request"
  "code_debug (ascii_line_format debug) = debug"
  by (simp_all add: ascii_line_format_def)

lemmas builder_defs = push_bytes_def write_frame_def push_wire_value_def finish_def write_complete_def

subsection \<open>Classification\<close>

text \<open>
  The operation a frame is given is one the command declares at exactly the presented width; it is
  never the response metadata.
\<close>

lemma classify_supported:
  assumes "classify format d ps = Inr operation"
  shows "supports d operation (length ps)" and "operation \<noteq> OpResponse"
  using assms by (auto simp: classify_def split: if_splits)

lemma classify_query_iff:
  "classify format d ps = Inr OpQuery \<longleftrightarrow> supports d OpQuery (length ps)"
  by (auto simp: classify_def)

lemma classify_set_iff:
  "classify format d ps = Inr OpSet \<longleftrightarrow>
     supports d OpSet (length ps) \<and> \<not> supports d OpQuery (length ps) \<and>
     \<not> (ps = [] \<and> supports d OpAction 0)"
  by (auto simp: classify_def)

lemma classify_action_iff:
  "classify format d ps = Inr OpAction \<longleftrightarrow>
     ps = [] \<and> supports d OpAction 0 \<and> \<not> supports d OpQuery 0"
  by (auto simp: classify_def)

lemma classify_error_iff:
  "(\<exists>e. classify format d ps = Inl e) \<longleftrightarrow>
     \<not> supports d OpQuery (length ps) \<and> \<not> supports d OpSet (length ps) \<and>
     \<not> (ps = [] \<and> supports d OpAction 0)"
  by (auto simp: classify_def)

lemma parse_InrD:
  assumes "parse table format frame = Inr req"
  obtains d where
    "find_command format table frame = Inr (d, req_parameters req)"
    "classify format d (req_parameters req) = Inr (req_operation req)"
    "req_id req = def_id d" "req_code req = def_code d"
  using assms by (auto simp: parse_def split: sum.splits)

subsection \<open>What a wire format promises\<close>

text \<open>
  The engine and its clients (\<open>Cat_Client\<close>, \<open>Broker\<close>) use a format through two laws: a resolved
  command is the table's entry for its own code, so a second lookup by that code (as
  \<^verbatim>\<open>Broker::dispatch\<close> does) finds the same definition; and a request the format encodes is read
  back as that command with those parameters. \<open>framable\<close> says for which requests of a table the
  second law holds.
\<close>

locale cat_wire_format =
  fixes format :: "('id, 'code) wire_format"
    and framable :: "('id, 'code) command_table \<Rightarrow> 'code \<Rightarrow> bytes \<Rightarrow> bool"
  assumes find_resolves: "find_command format table frame = Inr (d, ps) \<Longrightarrow>
      table_find table (def_code d) = Some d"
    and find_encode: "table_find table code = Some d \<Longrightarrow> framable table code ps \<Longrightarrow>
      find_command format table (encode_request format code ps) = Inr (d, ps)"
begin

lemma parse_resolves:
  assumes "parse table format frame = Inr req"
  shows "\<exists>d. table_find table (req_code req) = Some d \<and> req_id req = def_id d \<and>
    supports d (req_operation req) (length (req_parameters req)) \<and> req_operation req \<noteq> OpResponse"
  using assms
  by (elim parse_InrD) (metis find_resolves classify_supported)

lemma parse_encode:
  assumes "table_find table code = Some d" and "framable table code ps"
    and "classify format d ps = Inr operation"
  shows "parse table format (encode_request format code ps) =
    Inr \<lparr>req_id = def_id d, req_code = code, req_operation = operation, req_parameters = ps\<rparr>"
proof -
  have "def_code d = code"
    using assms(1) by (auto simp: table_find_def find_Some_iff)
  with assms show ?thesis
    by (simp add: parse_def find_encode)
qed

end

subsection \<open>The ASCII format\<close>

definition ascii_framable :: "('id, bytes) command_table \<Rightarrow> bytes \<Rightarrow> bytes \<Rightarrow> bool" where
  "ascii_framable table code ps \<longleftrightarrow> length code = 2 \<and> utf8_valid code"

lemma ascii_find_resolves:
  assumes "ascii_find_command table frame = Inr (d, ps)"
  shows "table_find table (def_code d) = Some d"
  using assms
  by (auto simp: ascii_find_command_def table_find_def Let_def
      split: option.splits if_splits intro: find_key_unique)

lemma ascii_find_encode:
  assumes "table_find table code = Some d" and "ascii_framable table code ps"
  shows "ascii_find_command table (ascii_encode_request code ps) = Inr (d, ps)"
proof -
  have "strip_suffix 59 (code @ ps @ [59]) = Some (code @ ps)"
    using strip_suffix_snoc [of 59 "code @ ps"] by simp
  with assms show ?thesis
    by (simp add: ascii_find_command_def ascii_encode_request_def ascii_framable_def table_find_def)
qed

interpretation ascii: cat_wire_format "ascii_line_format debug" ascii_framable
  by unfold_locales
    (auto intro: ascii_find_resolves ascii_find_encode)

lemma ascii_find_ok_iff:
  "ascii_find_command table frame = Inr (d, ps) \<longleftrightarrow>
     (\<exists>code. frame = code @ ps @ [59] \<and> length code = 2 \<and> utf8_valid code \<and>
       table_find table code = Some d)"
  (is "?L \<longleftrightarrow> ?R")
proof
  assume ?L
  then obtain f where f: "strip_suffix 59 frame = Some f"
    and r: "\<not> length f < 2" "utf8_valid (take 2 f)" "drop 2 f = ps"
      "List.find (\<lambda>d. def_code d = take 2 f) (definitions table) = Some d"
    by (auto simp: ascii_find_command_def Let_def split: option.splits if_splits)
  from f have "frame = f @ [59]" by (simp add: strip_suffix_Some_iff)
  with r have "frame = take 2 f @ ps @ [59]"
    by (metis append_assoc append_take_drop_id)
  with r show ?R
    by (intro exI [of _ "take 2 f"]) (simp add: table_find_def)
next
  assume ?R
  then show ?L
    using ascii_find_encode [of table _ d ps]
    by (auto simp: ascii_encode_request_def ascii_framable_def)
qed

subsection \<open>The response builder\<close>

lemma builder_step_finished:
  "rb_finished rb \<Longrightarrow> builder_step rb c = (Inl AlreadyFinished, rb)"
  by (cases c) (simp_all add: builder_defs)

lemma builder_run_finished: "rb_finished rb \<Longrightarrow> builder_run rb cs = rb"
  by (induction cs) (simp_all add: builder_step_finished)

lemma builder_step_prefix: "prefix (rb_output rb) (rb_output (snd (builder_step rb c)))"
  by (cases c) (auto simp: builder_defs)

lemma builder_run_prefix: "prefix (rb_output rb) (rb_output (builder_run rb cs))"
proof (induction cs arbitrary: rb)
  case Nil
  show ?case by simp
next
  case (Cons c cs)
  then show ?case
    using builder_step_prefix [of rb c] by (auto intro: prefix_order.trans)
qed

text \<open>A result is an error exactly when the response was already finished.\<close>

lemma builder_step_error_iff:
  "fst (builder_step rb c) = Inl AlreadyFinished \<longleftrightarrow> rb_finished rb"
  by (cases c) (auto simp: builder_defs)

subsection \<open>Decimal parameters\<close>

fun decimal_value :: "nat \<Rightarrow> bytes \<Rightarrow> nat" where
  "decimal_value acc [] = acc"
| "decimal_value acc (b # bs) = decimal_value (acc * 10 + (unat b - 48)) bs"

lemma decimal_value_mono: "acc \<le> decimal_value acc bs"
proof (induction bs arbitrary: acc)
  case Nil
  show ?case by simp
next
  case (Cons b bs)
  have "acc \<le> acc * 10 + (unat b - 48)" by simp
  also have "\<dots> \<le> decimal_value (acc * 10 + (unat b - 48)) bs" by (rule Cons.IH)
  finally show ?case by simp
qed

lemma parse_digits_spec:
  "acc < 2 ^ 64 \<Longrightarrow> parse_digits acc bs =
     (if (\<forall>b \<in> set bs. 48 \<le> b \<and> b \<le> 57) \<and> decimal_value acc bs < 2 ^ 64
      then Some (decimal_value acc bs) else None)"
proof (induction bs arbitrary: acc)
  case Nil
  then show ?case by simp
next
  case (Cons b bs)
  let ?a = "acc * 10 + (unat b - 48)"
  show ?case
  proof (cases "?a < 2 ^ 64")
    case True
    then show ?thesis using Cons.IH [OF True] by (simp add: Let_def)
  next
    case False
    then have "\<not> decimal_value ?a bs < 2 ^ 64"
      using decimal_value_mono [of ?a bs] by linarith
    with False show ?thesis by (simp add: Let_def)
  qed
qed

subsection \<open>Accepted frames\<close>

lemma ascii_parse_InrD:
  assumes "parse table (ascii_line_format debug) frame = Inr req"
  obtains d where
    "frame = ascii_encode_request (req_code req) (req_parameters req)"
    "length (req_code req) = 2" "utf8_valid (req_code req)"
    "table_find table (req_code req) = Some d" "req_id req = def_id d"
    "classify (ascii_line_format debug) d (req_parameters req) = Inr (req_operation req)"
proof -
  from assms obtain d where d: "ascii_find_command table frame = Inr (d, req_parameters req)"
    and c: "classify (ascii_line_format debug) d (req_parameters req) = Inr (req_operation req)"
    and i: "req_id req = def_id d" "req_code req = def_code d"
    by (rule parse_InrD) simp
  from d obtain code where code: "frame = code @ req_parameters req @ [59]" "length code = 2"
      "utf8_valid code" "table_find table code = Some d"
    by (auto simp: ascii_find_ok_iff)
  moreover from code(4) have "def_code d = code"
    by (auto simp: table_find_def find_Some_iff)
  ultimately show thesis using that c i by (simp add: ascii_encode_request_def)
qed

text \<open>The parser on a terminated frame, one check at a time.\<close>

lemma ascii_parse_snoc:
  "parse table (ascii_line_format debug) (f @ [59]) =
     (if length f < 2 \<or> \<not> utf8_valid (take 2 f) then Inl InvalidSyntax
      else case table_find table (take 2 f) of
          None \<Rightarrow> Inl (UnknownCommand (take 2 f))
        | Some d \<Rightarrow> map_sum id (\<lambda>operation. \<lparr>req_id = def_id d, req_code = def_code d,
              req_operation = operation, req_parameters = drop 2 f\<rparr>)
              (classify (ascii_line_format debug) d (drop 2 f)))"
  by (auto simp: parse_def ascii_find_command_def Let_def table_find_def
      split: option.split sum.split)

lemma classify_Inl_iff:
  "classify format d ps = Inl e \<longleftrightarrow>
     \<not> supports d OpQuery (length ps) \<and> \<not> supports d OpSet (length ps) \<and>
     (if ps = [] then \<not> supports d OpAction 0 \<and> e = UnsupportedOperation (code_debug format (def_code d))
      else e = InvalidParameterWidth (code_debug format (def_code d)) (length ps))"
  by (auto simp: classify_def)

subsection \<open>A small table for closed instances\<close>

text \<open>The fixture of the tests of \<^verbatim>\<open>cat.rs\<close>: a frequency, a menu read by entry, an action.\<close>

definition sample_def :: "nat \<Rightarrow> string \<Rightarrow> command_form list \<Rightarrow> command_form list \<Rightarrow> command_form list \<Rightarrow>
    bool \<Rightarrow> (nat, bytes) command_definition" where
  "sample_def i code q s a r =
     \<lparr>def_id = i, def_code = lit code, def_name = [], def_description = [],
      query_forms = q, set_forms = s, action_forms = a, response_forms = [],
      readable = r, writable = True\<rparr>"

definition sample_table :: "(nat, bytes) command_table" where
  "sample_table = \<lparr>definitions =
     [sample_def 0 ''FA'' [form_fixed OpQuery 0] [form_fixed OpSet 11] [] True,
      sample_def 1 ''EX'' [form_fixed OpQuery 3] [form_fixed OpSet 7] [] True,
      sample_def 2 ''PG'' [] [] [form_fixed OpAction 0] False]\<rparr>"

lemmas sample_eval = sample_table_def sample_def_def model_defs wire_defs Let_def

lemma sample_parse_action:
  "parse sample_table (ascii_line_format id) (lit ''PG;'') =
     Inr \<lparr>req_id = 2, req_code = lit ''PG'', req_operation = OpAction, req_parameters = []\<rparr>"
  by (simp add: sample_eval)

section \<open>Properties of the engine\<close>

text \<open>
  C13: A frame that the parser classifies as a write or an action is one whose command declares
  that operation at exactly the presented width and declares no query form of that width: where the
  two collide, the non-mutating reading wins.
\<close>

theorem parse_mutation_declared:
  assumes "parse table format frame = Inr req" and "req_operation req \<noteq> OpQuery"
  shows "\<exists>d. find_command format table frame = Inr (d, req_parameters req) \<and>
    req_operation req \<in> {OpSet, OpAction} \<and>
    supports d (req_operation req) (length (req_parameters req)) \<and>
    \<not> supports d OpQuery (length (req_parameters req))"
proof -
  from assms(1) obtain d where
    d: "find_command format table frame = Inr (d, req_parameters req)"
    and c: "classify format d (req_parameters req) = Inr (req_operation req)"
    by (rule parse_InrD)
  have "\<not> supports d OpQuery (length (req_parameters req))"
    using c assms(2) by (metis classify_query_iff sum.inject(2))
  moreover have "req_operation req \<in> {OpSet, OpAction}"
    using assms(2) classify_supported(2) [OF c] by (cases "req_operation req") auto
  ultimately show ?thesis using d classify_supported(1) [OF c] by blast
qed

text \<open>
  C16: The ASCII parser accepts exactly the frames \<^verbatim>\<open>code parameters ;\<close> whose two-byte code is
  valid UTF-8 and in the table and whose parameter width some form declares, and the request it
  returns determines the frame.
\<close>

theorem ascii_parse_exact:
  "parse table (ascii_line_format debug) frame = Inr req \<longleftrightarrow>
     frame = ascii_encode_request (req_code req) (req_parameters req) \<and>
     length (req_code req) = 2 \<and> utf8_valid (req_code req) \<and>
     (\<exists>d. table_find table (req_code req) = Some d \<and> req_id req = def_id d \<and>
       classify (ascii_line_format debug) d (req_parameters req) = Inr (req_operation req))"
  (is "?L \<longleftrightarrow> ?R")
proof
  assume ?L
  then show ?R by (rule ascii_parse_InrD) blast
next
  assume R: ?R
  then obtain d where d: "table_find table (req_code req) = Some d" "req_id req = def_id d"
      "classify (ascii_line_format debug) d (req_parameters req) = Inr (req_operation req)"
    by blast
  have "ascii_framable table (req_code req) (req_parameters req)"
    using R by (simp add: ascii_framable_def)
  from ascii.parse_encode [OF d(1) this d(3)] R d(2) show ?L
    by simp
qed

text \<open>
  C31: Every frame the ASCII parser rejects is rejected with the error of the first check it fails:
  terminator, code length and UTF-8, table lookup, then the declared widths.
\<close>

theorem ascii_parse_errors:
  "parse table (ascii_line_format debug) frame = Inl e \<longleftrightarrow>
     (if frame \<noteq> [] \<and> last frame = 59 then
        (if 3 \<le> length frame \<and> utf8_valid (take 2 frame) then
           (case table_find table (take 2 frame) of
              None \<Rightarrow> e = UnknownCommand (take 2 frame)
            | Some d \<Rightarrow>
                \<not> supports d OpQuery (length frame - 3) \<and> \<not> supports d OpSet (length frame - 3) \<and>
                (if length frame = 3 then \<not> supports d OpAction 0 \<and> e = UnsupportedOperation (debug (take 2 frame))
                 else e = InvalidParameterWidth (debug (take 2 frame)) (length frame - 3)))
         else e = InvalidSyntax)
      else e = MissingTerminator)"
proof (cases "frame = [] \<or> last frame \<noteq> 59")
  case True
  then show ?thesis
    by (auto simp: parse_def ascii_find_command_def strip_suffix_def)
next
  case False
  then obtain f where f: "frame = f @ [59]" by (metis append_butlast_last_id)
  have c: "def_code d = take 2 f" if "table_find table (take 2 f) = Some d" for d
    using that by (auto simp: table_find_def find_Some_iff)
  show ?thesis
  proof (cases "length f < 2")
    case True
    then show ?thesis by (auto simp: f ascii_parse_snoc)
  next
    case False
    then have t: "take 2 frame = take 2 f" "length frame - 3 = length (drop 2 f)"
        "3 \<le> length frame" "length frame = 3 \<longleftrightarrow> drop 2 f = []"
      by (auto simp: f)
    show ?thesis
    proof (cases "table_find table (take 2 f)")
      case None
      with False show ?thesis unfolding t by (auto simp: f ascii_parse_snoc)
    next
      case (Some d)
      with Some False c [OF Some] show ?thesis
        unfolding t
        by (auto simp: f ascii_parse_snoc classify_Inl_iff)
    qed
  qed
qed

text \<open>
  C32: \<^verbatim>\<open>ParameterValues::raw\<close>, and \<^verbatim>\<open>unsigned\<close> which calls it, panic on a request the parser accepted exactly
  when the frame is not UTF-8 throughout: the parser checks only the two code bytes. Every command that
  takes parameters is exposed to it, whatever the table: the frame with its code and as many bytes
  \<^verbatim>\<open>FF\<close> as one of its query or set forms takes is accepted, and reading its parameters panics.
\<close>

theorem raw_panics_exactly_off_utf8:
  "(parse table (ascii_line_format debug) frame = Inr req \<longrightarrow>
      (parameters_raw (req_parameters req) = None \<longleftrightarrow> \<not> utf8_valid frame) \<and>
      (parameters_unsigned (req_parameters req) = None \<longleftrightarrow> \<not> utf8_valid frame)) \<and>
   (table_find table code = Some d \<and> length code = 2 \<and> utf8_valid code \<and> 0 < n \<and>
      (supports d OpQuery n \<or> supports d OpSet n) \<longrightarrow>
    (\<exists>req. parse table (ascii_line_format debug) (ascii_encode_request code (replicate n 0xFF)) = Inr req \<and>
      req_code req = code \<and> parameters_raw (req_parameters req) = None))"
proof (intro conjI impI)
  assume "parse table (ascii_line_format debug) frame = Inr req"
  then have "frame = req_code req @ req_parameters req @ [59]" "utf8_valid (req_code req)"
    by (auto elim: ascii_parse_InrD simp: ascii_encode_request_def)
  then have "utf8_valid frame \<longleftrightarrow> utf8_valid (req_parameters req)"
    using utf8_valid_append utf8_valid_butlast [of "req_parameters req" 59] by auto
  then show "parameters_raw (req_parameters req) = None \<longleftrightarrow> \<not> utf8_valid frame"
    "parameters_unsigned (req_parameters req) = None \<longleftrightarrow> \<not> utf8_valid frame"
    by (auto simp: parameters_raw_def parameters_unsigned_def)
next
  let ?ps = "replicate n 0xFF :: bytes"
  assume a: "table_find table code = Some d \<and> length code = 2 \<and> utf8_valid code \<and> 0 < n \<and>
    (supports d OpQuery n \<or> supports d OpSet n)"
  then obtain m where "n = Suc m" by (cases n) auto
  then have "\<not> utf8_valid ?ps" by (subst utf8_valid.simps) (simp add: utf8_width_def)
  moreover from a have "ascii_find_command table (ascii_encode_request code ?ps) = Inr (d, ?ps)"
    by (auto simp: ascii_find_ok_iff ascii_encode_request_def)
  moreover from a have "def_code d = code" by (auto simp: table_find_def find_Some_iff)
  moreover from a obtain operation where "classify (ascii_line_format debug) d ?ps = Inr operation"
    by (cases "supports d OpQuery n") (auto simp: classify_def)
  ultimately show "\<exists>req. parse table (ascii_line_format debug) (ascii_encode_request code ?ps) = Inr req \<and>
      req_code req = code \<and> parameters_raw (req_parameters req) = None"
    by (simp add: parse_def parameters_raw_def)
qed

theorem raw_panics_exactly_off_utf8_witness:
  "\<exists>req. parse sample_table (ascii_line_format id) (ascii_encode_request (lit ''EX'') [255, 255, 255]) = Inr req \<and>
     req_code req = lit ''EX'' \<and> parameters_raw (req_parameters req) = None"
proof -
  let ?d = "sample_def 1 ''EX'' [form_fixed OpQuery 3] [form_fixed OpSet 7] [] True"
  have "table_find sample_table (lit ''EX'') = Some ?d \<and> length (lit ''EX'') = 2 \<and> utf8_valid (lit ''EX'') \<and>
      0 < (3 :: nat) \<and> (supports ?d OpQuery 3 \<or> supports ?d OpSet 3)"
    by (simp add: sample_eval table_find_def)
  then have "\<exists>req. parse sample_table (ascii_line_format id) (ascii_encode_request (lit ''EX'') (replicate 3 0xFF)) = Inr req \<and>
      req_code req = lit ''EX'' \<and> parameters_raw (req_parameters req) = None"
    by (rule raw_panics_exactly_off_utf8 [THEN conjunct2, THEN mp])
  then show ?thesis by (simp add: numeral_3_eq_3)
qed

text \<open>
  \<^verbatim>\<open>unsigned\<close> reads a non-empty string of decimal digits as its value, and rejects it exactly
  when the value does not fit in 64 bits.
\<close>

theorem parameters_unsigned_digits:
  assumes "ds \<noteq> []" and "\<forall>b \<in> set ds. 48 \<le> b \<and> b \<le> 57"
  shows "parameters_unsigned ds =
    Some (if decimal_value 0 ds < 2 ^ 64 then Inr (of_nat (decimal_value 0 ds)) else Inl InvalidUnsigned)"
proof -
  have "b < 0x80" if "b \<in> set ds" for b
    using assms(2) that by (auto intro: le_less_trans [of _ "57 :: u8"])
  then have "utf8_valid ds" by (intro utf8_valid_ascii) simp
  moreover obtain b r where ds: "ds = b # r" using assms(1) by (cases ds) auto
  moreover have "b \<noteq> 43" using assms(2) ds by auto
  ultimately show ?thesis
    using assms(2) parse_digits_spec [of 0 ds]
    by (simp add: parameters_unsigned_def parameters_raw_def parse_u64_def)
qed

theorem parameters_unsigned_digits_witness:
  "parameters_unsigned (lit ''00014250000'') = Some (Inr 14250000)"
  using parameters_unsigned_digits [of "lit ''00014250000''"] by (simp add: wire_defs)

text \<open>
  Once a response is finished nothing can change it: every later call fails with
  \<^verbatim>\<open>AlreadyFinished\<close> and the output stays as it is. Before that the output only grows, so what the
  caller's buffer held is never lost.
\<close>

theorem builder_output_final:
  assumes "rb_finished (builder_run (rb_new output) calls)"
  shows "builder_run (rb_new output) (calls @ later) = builder_run (rb_new output) calls \<and>
    fst (builder_step (builder_run (rb_new output) (calls @ later)) c) = Inl AlreadyFinished \<and>
    prefix output (rb_output (builder_run (rb_new output) (calls @ later)))"
proof -
  have "builder_run rb (cs @ ds) = builder_run (builder_run rb cs) ds" for rb cs ds
    by (induction cs arbitrary: rb) simp_all
  with assms have r: "builder_run (rb_new output) (calls @ later) = builder_run (rb_new output) calls"
    by (simp add: builder_run_finished)
  moreover have "prefix output (rb_output (builder_run (rb_new output) (calls @ later)))"
    using builder_run_prefix [of "rb_new output" "calls @ later"] by (simp add: rb_new_def)
  ultimately show ?thesis using assms by (simp add: builder_step_finished)
qed

theorem builder_output_final_witness:
  "builder_run (rb_new []) ([PushWireValue (lit ''FA1''), Finish] @ [Finish, PushBytes [1]]) =
     \<lparr>rb_output = lit ''FA1;'', rb_finished = True\<rparr>"
proof -
  have f: "rb_finished (builder_run (rb_new []) [PushWireValue (lit ''FA1''), Finish])"
    by (simp add: rb_new_def builder_defs)
  show ?thesis
    using builder_output_final [OF f, of "[Finish, PushBytes [1]]" Finish]
    by (simp add: rb_new_def builder_defs wire_defs)
qed

theorem parse_mutation_declared_witness:
  "\<exists>d. find_command (ascii_line_format id) sample_table (lit ''PG;'') = Inr (d, []) \<and>
    supports d OpAction 0 \<and> \<not> supports d OpQuery 0"
  using parse_mutation_declared [OF sample_parse_action] by simp

end
