(* ===== verification/Transport_Core.thy ===== *)
theory Transport_Core
  imports Cat_Engine "HOL-Library.Multiset"
begin

text \<open>
  The transport layer's interfaces, \<^verbatim>\<open>cat-transport-core\<close>: the byte-level \<^verbatim>\<open>Transport\<close> trait, the
  request/response trait \<^verbatim>\<open>CatSession\<close> with its defaulted methods, the modem-control lines and the
  adapter \<^verbatim>\<open>NoModemControlLines\<close>, and the scripted session the crates share.

  A trait is a record of its methods over the implementor's state. An \<^verbatim>\<open>async fn\<close> that takes
  \<^verbatim>\<open>&mut self\<close> is a function from the state to \<open>Some\<close> of its result and the new state; \<open>None\<close> says
  that the call never returns, because it panics or waits forever. The locale \<open>cat_session_contract\<close>
  states what a session promises about the disposition it reports, which the client and the
  broker rely on; every session of the development interprets it.
\<close>

section \<open>Errors and the byte-level transport\<close>

text \<open>\<^verbatim>\<open>std::io::Error\<close> is its kind; the kinds the sources look at are separate constructors.\<close>

datatype io_error = Interrupted | UnexpectedEof | OtherIoError nat

datatype transport_error =
    TransportIo io_error
  | NotOpen
  | WriteTimeout
  | ReadTimeout
  | TransportOther bytes

text \<open>What a call cut off by a timeout reports.\<close>

datatype elapsed = Elapsed

text \<open>
  \<^verbatim>\<open>Transport\<close>. \<open>tr_read n\<close> is a read into a buffer of \<open>n\<close> bytes and yields the bytes stored there.
\<close>

record 't transport =
  tr_write :: "bytes \<Rightarrow> 't \<Rightarrow> (transport_error + nat) \<times> 't"
  tr_read :: "nat \<Rightarrow> 't \<Rightarrow> (transport_error + bytes) \<times> 't"
  tr_flush :: "'t \<Rightarrow> (transport_error + unit) \<times> 't"
  tr_flush_rx :: "'t \<Rightarrow> 't"
  tr_drain :: "'t \<Rightarrow> 't"

section \<open>Sessions\<close>

type_synonym ('s, 'e, 'r) call = "(('e + 'r) \<times> 's) option"

record ('s, 'e) cat_session =
  ses_execute :: "bytes \<Rightarrow> bytes \<Rightarrow> 's \<Rightarrow> (('e + response_disposition) \<times> bytes \<times> 's) option"
  ses_send :: "bytes \<Rightarrow> 's \<Rightarrow> ('s, 'e, unit) call"
  ses_flush_rx :: "'s \<Rightarrow> 's"

text \<open>\<^verbatim>\<open>CatSession::send\<close>'s default: execute and throw the response away.\<close>

definition default_send :: "(bytes \<Rightarrow> bytes \<Rightarrow> 's \<Rightarrow> (('e + response_disposition) \<times> bytes \<times> 's) option) \<Rightarrow>
    bytes \<Rightarrow> 's \<Rightarrow> ('s, 'e, unit) call" where
  "default_send execute request s =
     (case execute request [] s of
        None \<Rightarrow> None
      | Some (Inl e, _, s') \<Rightarrow> Some (Inl e, s')
      | Some (Inr _, _, s') \<Rightarrow> Some (Inr (), s'))"

text \<open>A session that writes only \<^verbatim>\<open>execute\<close> and keeps every other method's default.\<close>

definition session_with_defaults :: "(bytes \<Rightarrow> bytes \<Rightarrow> 's \<Rightarrow> (('e + response_disposition) \<times> bytes \<times> 's) option) \<Rightarrow>
    ('s, 'e) cat_session" where
  "session_with_defaults execute =
     \<lparr>ses_execute = execute, ses_send = default_send execute, ses_flush_rx = (\<lambda>s. s)\<rparr>"

text \<open>How every session of the repository reports the bytes it appended to the response buffer.\<close>

definition disposition_of :: "bytes \<Rightarrow> response_disposition" where
  "disposition_of payload = (if payload = [] then NoResponse else ResponseWritten)"

section \<open>Modem-control lines\<close>

record modem_control_lines =
  set_rts :: "bool \<Rightarrow> transport_error + unit"
  set_dtr :: "bool \<Rightarrow> transport_error + unit"
  read_cts :: "transport_error + bool"
  read_dsr :: "transport_error + bool"
  read_dcd :: "transport_error + bool"

record 's no_modem_control_lines =
  nm_session :: 's

definition unsupported :: "bytes \<Rightarrow> transport_error" where
  "unsupported method = TransportOther
     (method @ lit '': RTS/DTR/CTS/DSR/DCD modem control lines are not available on this transport'')"

definition no_modem_lines :: modem_control_lines where
  "no_modem_lines =
     \<lparr>set_rts = (\<lambda>_. Inl (unsupported (lit ''set_rts''))),
      set_dtr = (\<lambda>_. Inl (unsupported (lit ''set_dtr''))),
      read_cts = Inl (unsupported (lit ''read_cts'')),
      read_dsr = Inl (unsupported (lit ''read_dsr'')),
      read_dcd = Inl (unsupported (lit ''read_dcd''))\<rparr>"

definition no_modem_session :: "('s, 'e) cat_session \<Rightarrow> ('s no_modem_control_lines, 'e) cat_session" where
  "no_modem_session S =
     \<lparr>ses_execute = (\<lambda>request response w.
        map_option (\<lambda>(r, response', s). (r, response', w\<lparr>nm_session := s\<rparr>))
          (ses_execute S request response (nm_session w))),
      ses_send = (\<lambda>request w.
        map_option (\<lambda>(r, s). (r, w\<lparr>nm_session := s\<rparr>)) (ses_send S request (nm_session w))),
      ses_flush_rx = (\<lambda>w. w\<lparr>nm_session := ses_flush_rx S (nm_session w)\<rparr>)\<rparr>"

section \<open>The scripted session\<close>

record exchange =
  expected_request :: bytes
  ex_response :: bytes

record scripted_session =
  script :: "exchange list"
  written :: bytes
  fail_next :: "transport_error option"
  unordered :: bool

definition with_script :: "exchange list \<Rightarrow> scripted_session" where
  "with_script exchanges = \<lparr>script = exchanges, written = [], fail_next = None, unordered = False\<rparr>"

definition with_unordered_script :: "exchange list \<Rightarrow> scripted_session" where
  "with_unordered_script exchanges = (with_script exchanges)\<lparr>unordered := True\<rparr>"

definition simulate_timeout :: "scripted_session \<Rightarrow> scripted_session" where
  "simulate_timeout s = s\<lparr>fail_next := Some ReadTimeout\<rparr>"

definition simulate_disconnect :: "scripted_session \<Rightarrow> scripted_session" where
  "simulate_disconnect s = s\<lparr>fail_next := Some (TransportOther (lit ''disconnected''))\<rparr>"

text \<open>
  The exchange the next request consumes and the script that is left: the first one that matches
  when unordered, the head when it matches otherwise. \<open>None\<close> is the panic on a mismatch or an
  exhausted script.
\<close>

fun take_matching :: "bytes \<Rightarrow> exchange list \<Rightarrow> (exchange \<times> exchange list) option" where
  "take_matching request [] = None"
| "take_matching request (e # es) =
     (if expected_request e = request then Some (e, es)
      else map_option (\<lambda>(e', es'). (e', e # es')) (take_matching request es))"

definition next_exchange :: "bytes \<Rightarrow> scripted_session \<Rightarrow> (exchange \<times> exchange list) option" where
  "next_exchange request s =
     (if unordered s then take_matching request (script s)
      else (case script s of
              [] \<Rightarrow> None
            | e # es \<Rightarrow> if expected_request e = request then Some (e, es) else None))"

definition scripted_execute :: "bytes \<Rightarrow> bytes \<Rightarrow> scripted_session \<Rightarrow>
    ((transport_error + response_disposition) \<times> bytes \<times> scripted_session) option" where
  "scripted_execute request response s =
     (case fail_next s of
        Some e \<Rightarrow> Some (Inl e, response, s\<lparr>fail_next := None\<rparr>)
      | None \<Rightarrow>
          (case next_exchange request s of
             None \<Rightarrow> None
           | Some (e, es) \<Rightarrow>
               Some (Inr (disposition_of (ex_response e)), response @ ex_response e,
                     s\<lparr>written := written s @ request, script := es\<rparr>)))"

definition scripted_session_ops :: "(scripted_session, transport_error) cat_session" where
  "scripted_session_ops = session_with_defaults scripted_execute"

declare disposition_of_def [model_defs] default_send_def [model_defs] session_with_defaults_def [model_defs]
  scripted_execute_def [model_defs] scripted_session_ops_def [model_defs] next_exchange_def [model_defs]
  with_script_def [model_defs] with_unordered_script_def [model_defs] no_modem_session_def [model_defs]

section \<open>The session contract\<close>

text \<open>
  What a caller of \<^verbatim>\<open>execute\<close> may rely on when it hands in an empty buffer: after a success the
  disposition says whether the buffer holds anything, and after a failure the buffer is empty,
  so that no part of an abandoned answer is ever read as one.
\<close>

locale cat_session_contract =
  fixes S :: "('s, 'e) cat_session"
  assumes disposition_exact:
      "ses_execute S request [] s = Some (Inr d, response, s') \<Longrightarrow> d = disposition_of response"
    and failure_leaves_nothing:
      "ses_execute S request [] s = Some (Inl e, response, s') \<Longrightarrow> response = []"
begin

lemma response_written_iff:
  "ses_execute S request [] s = Some (Inr d, response, s') \<Longrightarrow> d = ResponseWritten \<longleftrightarrow> response \<noteq> []"
  by (auto dest: disposition_exact simp: disposition_of_def)

lemma never_protocol_error:
  "ses_execute S request [] s \<noteq> Some (Inr (ProtocolError k), response, s')"
  by (auto dest: disposition_exact simp: disposition_of_def split: if_splits)

lemma no_modem_contract: "cat_session_contract (no_modem_session S)"
proof
  fix request w d response w'
  assume "ses_execute (no_modem_session S) request [] w = Some (Inr d, response, w')"
  then show "d = disposition_of response"
    by (auto simp: no_modem_session_def dest: disposition_exact)
next
  fix request w e response w'
  assume "ses_execute (no_modem_session S) request [] w = Some (Inl e, response, w')"
  then show "response = []"
    by (auto simp: no_modem_session_def dest: failure_leaves_nothing)
qed

end

lemma session_with_defaults_simps [simp]:
  "ses_execute (session_with_defaults execute) = execute"
  "ses_send (session_with_defaults execute) = default_send execute"
  "ses_flush_rx (session_with_defaults execute) s = s"
  by (simp_all add: session_with_defaults_def)

interpretation scripted: cat_session_contract scripted_session_ops
  by unfold_locales (auto simp: scripted_session_ops_def scripted_execute_def split: option.splits)

interpretation scripted_no_modem: cat_session_contract "no_modem_session scripted_session_ops"
  by (rule scripted.no_modem_contract)

section \<open>Lemmas on the scripted session\<close>

lemma take_matching_Some:
  "take_matching request es = Some (e, es') \<Longrightarrow>
     expected_request e = request \<and> mset es = add_mset e (mset es')"
  by (induction es arbitrary: es') (auto split: if_splits)

lemma take_matching_None:
  "take_matching request es = None \<longleftrightarrow> list_all (\<lambda>e. expected_request e \<noteq> request) es"
  by (induction es) (auto split: option.splits)

lemma next_exchange_Some:
  "next_exchange request s = Some (e, es) \<Longrightarrow>
     expected_request e = request \<and> mset (script s) = add_mset e (mset es)"
  by (auto simp: next_exchange_def dest: take_matching_Some split: if_splits list.splits)

section \<open>Properties of the session layer\<close>

text \<open>
  A scripted exchange consumes exactly one exchange, whose request is the one written, and
  returns its bytes; a simulated failure consumes none, reports the error once and is cleared.
\<close>

theorem scripted_execute_consumes_one:
  assumes "scripted_execute request response s = Some (r, response', s')"
  shows "case fail_next s of
      Some err \<Rightarrow> r = Inl err \<and> response' = response \<and> script s' = script s \<and> written s' = written s \<and>
        fail_next s' = None
    | None \<Rightarrow> (\<exists>e. mset (script s) = add_mset e (mset (script s')) \<and> expected_request e = request \<and>
        response' = response @ ex_response e \<and> r = Inr (disposition_of (ex_response e)) \<and>
        written s' = written s @ request)"
  using assms next_exchange_Some [of request s]
  by (auto simp: scripted_execute_def split: option.splits)

definition sample_script :: "exchange list" where
  "sample_script = [\<lparr>expected_request = [70, 65, 59], ex_response = [70, 65, 49, 59]\<rparr>,
     \<lparr>expected_request = [84, 88, 59], ex_response = []\<rparr>]"

theorem scripted_execute_consumes_one_witness:
  "\<exists>e. mset sample_script = add_mset e (mset [hd sample_script]) \<and> expected_request e = [84, 88, 59]"
proof -
  let ?s = "with_unordered_script sample_script"
  have "scripted_execute [84, 88, 59] [] ?s =
      Some (Inr NoResponse, [], ?s\<lparr>written := [84, 88, 59], script := [hd sample_script]\<rparr>)"
    by (simp add: model_defs sample_script_def)
  from scripted_execute_consumes_one [OF this] show ?thesis
    by (auto simp: with_unordered_script_def with_script_def)
qed

text \<open>
  Wrapping a session in \<^verbatim>\<open>NoModemControlLines\<close> changes nothing the CAT side can observe, and
  every modem-line method of the wrapper fails with an error.
\<close>

theorem no_modem_transparent:
  "map_option (\<lambda>(r, response', w'). (r, response', nm_session w'))
      (ses_execute (no_modem_session S) request response w) = ses_execute S request response (nm_session w) \<and>
   map_option (\<lambda>(r, w'). (r, nm_session w')) (ses_send (no_modem_session S) request w) =
      ses_send S request (nm_session w) \<and>
   nm_session (ses_flush_rx (no_modem_session S) w) = ses_flush_rx S (nm_session w) \<and>
   isl (set_rts no_modem_lines b) \<and> isl (set_dtr no_modem_lines b) \<and> isl (read_cts no_modem_lines) \<and>
   isl (read_dsr no_modem_lines) \<and> isl (read_dcd no_modem_lines)"
  by (simp add: no_modem_session_def no_modem_lines_def option.map_comp comp_def case_prod_beta
      option.map_ident)

end
