(* ===== verification/Civ.thy ===== *)
theory Civ
  imports Cat_Engine
begin

text \<open>
  Icom CI-V (\<^verbatim>\<open>cat-framework/src/civ.rs\<close>): frames \<^verbatim>\<open>FE FE to from payload FD\<close> on a shared bus, command
  lookup with optional sub-commands, and packed BCD numbers. \<open>CivFormat\<close> is a second implementation
  of the wire-format contract of \<open>Cat_Engine\<close>.

  \<^verbatim>\<open>u64\<close> arithmetic is on words of 64 bits, so it wraps as a release build does; the theorems give
  the range where nothing wraps, which is also the range where a build with overflow checks does not
  panic.
\<close>

section \<open>Frames\<close>

definition PREAMBLE :: u8 where "PREAMBLE = 0xFE"
definition END_OF_MESSAGE :: u8 where "END_OF_MESSAGE = 0xFD"
definition OK :: u8 where "OK = 0xFB"
definition NG :: u8 where "NG = 0xFA"
definition DEFAULT_CONTROLLER_ADDRESS :: u8 where "DEFAULT_CONTROLLER_ADDRESS = 0xE0"

type_synonym civ_code = "u8 \<times> u8 option"

record civ_format =
  civ_radio :: u8
  civ_controller :: u8

definition civ_new :: "u8 \<Rightarrow> u8 \<Rightarrow> civ_format" where
  "civ_new radio controller = \<lparr>civ_radio = radio, civ_controller = controller\<rparr>"

definition civ_for_radio :: "u8 \<Rightarrow> civ_format" where
  "civ_for_radio radio = civ_new radio DEFAULT_CONTROLLER_ADDRESS"

definition civ_default :: civ_format where
  "civ_default = civ_for_radio 0x88"

record envelope =
  env_to :: u8
  env_from :: u8
  env_payload :: bytes

definition parse_envelope :: "bytes \<Rightarrow> envelope option" where
  "parse_envelope frame =
     (if length frame < 6 then None
      else if frame ! 0 \<noteq> PREAMBLE \<or> frame ! 1 \<noteq> PREAMBLE then None
      else if last frame \<noteq> END_OF_MESSAGE then None
      else
        let payload = butlast (drop 4 frame) in
        if payload = [] then None
        else Some \<lparr>env_to = frame ! 2, env_from = frame ! 3, env_payload = payload\<rparr>)"

definition is_for_us :: "civ_format \<Rightarrow> bytes \<Rightarrow> bool" where
  "is_for_us f frame =
     (case parse_envelope frame of
        None \<Rightarrow> False
      | Some env \<Rightarrow> env_to env = civ_controller f \<and> env_from env = civ_radio f)"

definition is_echo :: "civ_format \<Rightarrow> bytes \<Rightarrow> bool" where
  "is_echo f frame =
     (case parse_envelope frame of
        None \<Rightarrow> False
      | Some env \<Rightarrow> env_to env = civ_radio f \<and> env_from env = civ_controller f)"

definition sub_bytes :: "u8 option \<Rightarrow> bytes" where
  "sub_bytes sub = (case sub of None \<Rightarrow> [] | Some s \<Rightarrow> [s])"

definition civ_encode_response :: "civ_format \<Rightarrow> civ_code \<Rightarrow> bytes \<Rightarrow> bytes" where
  "civ_encode_response f code params =
     [PREAMBLE, PREAMBLE, civ_controller f, civ_radio f, fst code] @ sub_bytes (snd code) @ params @
     [END_OF_MESSAGE]"

definition civ_encode_ok :: "civ_format \<Rightarrow> bytes" where
  "civ_encode_ok f = [PREAMBLE, PREAMBLE, civ_controller f, civ_radio f, OK, END_OF_MESSAGE]"

definition civ_encode_ng :: "civ_format \<Rightarrow> bytes" where
  "civ_encode_ng f = [PREAMBLE, PREAMBLE, civ_controller f, civ_radio f, NG, END_OF_MESSAGE]"

section \<open>The wire format\<close>

text \<open>\<^verbatim>\<open>{:02X}\<close>: two upper-case hexadecimal digits.\<close>

definition hex_digit :: "u8 \<Rightarrow> u8" where
  "hex_digit n = (if n < 10 then 48 + n else 55 + n)"

definition hex2 :: "u8 \<Rightarrow> bytes" where
  "hex2 b = [hex_digit (drop_bit 4 b), hex_digit (b AND 0x0F)]"

definition civ_find_command :: "('id, civ_code) command_table \<Rightarrow> bytes \<Rightarrow>
    parse_error + (('id, civ_code) command_definition \<times> bytes)" where
  "civ_find_command table frame =
     (case parse_envelope frame of
        None \<Rightarrow> Inl InvalidSyntax
      | Some envelope \<Rightarrow>
          (let payload = env_payload envelope; command = hd payload; rest = tl payload;
               bare = (case List.find (\<lambda>d. def_code d = (command, None)) (definitions table) of
                  Some d \<Rightarrow> Inr (d, rest)
                | None \<Rightarrow> Inl (UnknownCommand (case rest of
                      sub # _ \<Rightarrow> hex2 command @ lit '' '' @ hex2 sub
                    | [] \<Rightarrow> hex2 command)))
           in case rest of
                sub # params \<Rightarrow>
                  (case List.find (\<lambda>d. def_code d = (command, Some sub)) (definitions table) of
                     Some d \<Rightarrow> Inr (d, params)
                   | None \<Rightarrow> bare)
              | [] \<Rightarrow> bare))"

definition civ_encode_request :: "civ_format \<Rightarrow> civ_code \<Rightarrow> bytes \<Rightarrow> bytes" where
  "civ_encode_request f code params =
     [PREAMBLE, PREAMBLE, civ_radio f, civ_controller f, fst code] @ sub_bytes (snd code) @ params @
     [END_OF_MESSAGE]"

definition civ_wire_format :: "civ_format \<Rightarrow> (civ_code \<Rightarrow> bytes) \<Rightarrow> ('id, civ_code) wire_format" where
  "civ_wire_format f debug =
     \<lparr>find_command = civ_find_command, encode_request = civ_encode_request f, code_debug = debug\<rparr>"

definition civ_frame_complete :: "bytes \<Rightarrow> bool" where
  "civ_frame_complete buffer \<longleftrightarrow> buffer \<noteq> [] \<and> last buffer = END_OF_MESSAGE"

section \<open>Packed BCD\<close>

fun encode_bcd :: "u64 \<Rightarrow> nat \<Rightarrow> bytes" where
  "encode_bcd v 0 = []"
| "encode_bcd v (Suc n) =
     (let low = (ucast (v mod 10) :: u8);
          v1 = v div 10;
          high = (ucast (v1 mod 10) :: u8);
          v2 = v1 div 10
      in (push_bit 4 high OR low) # encode_bcd v2 n)"

definition encode_bcd_be :: "u64 \<Rightarrow> nat \<Rightarrow> bytes" where
  "encode_bcd_be value n = rev (encode_bcd value n)"

text \<open>The loop of both decoders, over the bytes in the order it visits them.\<close>

fun decode_bcd_loop :: "u64 \<Rightarrow> bytes \<Rightarrow> u64 option" where
  "decode_bcd_loop value [] = Some value"
| "decode_bcd_loop value (byte # rest) =
     (let high = drop_bit 4 byte; low = byte AND 0x0F in
      if high > 9 \<or> low > 9 then None
      else decode_bcd_loop (value * 100 + ucast high * 10 + ucast low) rest)"

definition decode_bcd_be :: "bytes \<Rightarrow> u64 option" where
  "decode_bcd_be bs = decode_bcd_loop 0 bs"

definition decode_bcd :: "bytes \<Rightarrow> u64 option" where
  "decode_bcd bs = decode_bcd_loop 0 (rev bs)"

section \<open>Lemmas\<close>

lemmas civ_bytes = PREAMBLE_def END_OF_MESSAGE_def OK_def NG_def DEFAULT_CONTROLLER_ADDRESS_def

declare civ_bytes [wire_defs] civ_new_def [model_defs] civ_for_radio_def [model_defs]
  civ_default_def [model_defs] parse_envelope_def [model_defs] civ_encode_request_def [model_defs]
  civ_encode_response_def [model_defs] civ_find_command_def [model_defs] sub_bytes_def [model_defs]
  hex2_def [wire_defs] hex_digit_def [wire_defs]

lemma civ_wire_format_simps [simp]:
  "find_command (civ_wire_format f debug) = civ_find_command"
  "encode_request (civ_wire_format f debug) = civ_encode_request f"
  "code_debug (civ_wire_format f debug) = debug"
  by (simp_all add: civ_wire_format_def)

subsection \<open>Envelopes\<close>

lemma parse_envelope_frame:
  "parse_envelope ([PREAMBLE, PREAMBLE, t, s] @ payload @ [END_OF_MESSAGE]) =
     (if payload = [] then None else Some \<lparr>env_to = t, env_from = s, env_payload = payload\<rparr>)"
  by (cases payload rule: rev_cases) (auto simp: parse_envelope_def Let_def butlast_append)

lemma parse_envelope_Some_iff:
  "parse_envelope frame = Some env \<longleftrightarrow>
     env_payload env \<noteq> [] \<and>
     frame = [PREAMBLE, PREAMBLE, env_to env, env_from env] @ env_payload env @ [END_OF_MESSAGE]"
  (is "?L \<longleftrightarrow> ?R")
proof
  assume L: ?L
  then have len: "\<not> length frame < 6" and pre: "frame ! 0 = PREAMBLE" "frame ! 1 = PREAMBLE"
    and lst: "last frame = END_OF_MESSAGE"
    and env: "env = \<lparr>env_to = frame ! 2, env_from = frame ! 3, env_payload = butlast (drop 4 frame)\<rparr>"
    and ne: "butlast (drop 4 frame) \<noteq> []"
    by (auto simp: parse_envelope_def Let_def split: if_splits)
  obtain a b c d r where f: "frame = a # b # c # d # r" and r: "r \<noteq> []"
    using len by (auto simp: numeral_eq_Suc not_less Suc_le_length_iff)
  from r lst have "r = butlast r @ [END_OF_MESSAGE]"
    by (simp add: f) (metis append_butlast_last_id)
  with f pre env ne show ?R by simp
next
  assume R: ?R
  then show ?L using parse_envelope_frame [of "env_to env" "env_from env" "env_payload env"] by simp
qed

lemma parse_envelope_request:
  "parse_envelope (civ_encode_request f code ps) =
     Some \<lparr>env_to = civ_radio f, env_from = civ_controller f,
           env_payload = fst code # sub_bytes (snd code) @ ps\<rparr>"
  by (simp add: parse_envelope_Some_iff civ_encode_request_def)

lemma parse_envelope_response:
  "parse_envelope (civ_encode_response f code ps) =
     Some \<lparr>env_to = civ_controller f, env_from = civ_radio f,
           env_payload = fst code # sub_bytes (snd code) @ ps\<rparr>"
  by (simp add: parse_envelope_Some_iff civ_encode_response_def)

lemma is_echo_request: "is_echo f (civ_encode_request f code ps)"
  and is_for_us_response: "is_for_us f (civ_encode_response f code ps)"
  by (simp_all add: is_echo_def is_for_us_def parse_envelope_request parse_envelope_response)

lemma echo_xor_answer: "civ_radio f \<noteq> civ_controller f \<Longrightarrow> \<not> (is_echo f frame \<and> is_for_us f frame)"
  by (auto simp: is_echo_def is_for_us_def split: option.splits)

subsection \<open>The wire-format contract\<close>

text \<open>
  A request without sub-command is read back only if the first data byte does not happen to be a
  sub-command of the same command in the table: the lookup tries the sub-command first.
\<close>

definition civ_framable :: "('id, civ_code) command_table \<Rightarrow> civ_code \<Rightarrow> bytes \<Rightarrow> bool" where
  "civ_framable table code ps =
     (case (snd code, ps) of
        (None, p # _) \<Rightarrow> table_find table (fst code, Some p) = None
      | _ \<Rightarrow> True)"

lemma civ_find_resolves:
  assumes "civ_find_command table frame = Inr (d, ps)"
  shows "table_find table (def_code d) = Some d"
  using assms
  by (auto simp: civ_find_command_def table_find_def Let_def
      split: option.splits list.splits intro: find_key_unique)

lemma civ_find_encode:
  assumes "table_find table code = Some d" and "civ_framable table code ps"
  shows "civ_find_command table (civ_encode_request f code ps) = Inr (d, ps)"
  using assms
  by (cases code)
    (auto simp: civ_find_command_def parse_envelope_request civ_framable_def table_find_def
      sub_bytes_def split: option.splits list.splits)

interpretation civ: cat_wire_format "civ_wire_format f debug" civ_framable
  by unfold_locales (auto intro: civ_find_resolves civ_find_encode)

subsection \<open>Nibbles and digits\<close>

lemma digit_cases: "(d :: u8) < 10 \<Longrightarrow> d \<in> {0, 1, 2, 3, 4, 5, 6, 7, 8, 9}"
proof -
  assume "d < 10"
  then have "unat d < 10" by (simp add: word_less_nat_alt)
  then have "unat d \<in> {0, 1, 2, 3, 4, 5, 6, 7, 8, 9}" by auto
  then have "of_nat (unat d) \<in> (of_nat ` {0, 1, 2, 3, 4, 5, 6, 7, 8, 9} :: u8 set)"
    by (rule imageI)
  then show ?thesis by simp
qed

lemma nibbles:
  assumes "(h :: u8) < 10" and "(l :: u8) < 10"
  shows "drop_bit 4 (push_bit 4 h OR l) = h" and "(push_bit 4 h OR l) AND 0x0F = l"
  using digit_cases [OF assms(1)] digit_cases [OF assms(2)] by auto

text \<open>A BCD byte has both nibbles at most nine; its value is the two digits.\<close>

definition bcd_byte :: "u8 \<Rightarrow> bool" where
  "bcd_byte b \<longleftrightarrow> drop_bit 4 b \<le> 9 \<and> b AND 0x0F \<le> 9"

definition bcd_digits :: "u8 \<Rightarrow> nat" where
  "bcd_digits b = unat (drop_bit 4 b) * 10 + unat (b AND 0x0F)"

text \<open>The number big-endian BCD bytes print, with no bound.\<close>

definition bcd_number :: "bytes \<Rightarrow> nat" where
  "bcd_number bs = foldl (\<lambda>v b. v * 100 + bcd_digits b) 0 bs"

lemma decode_bcd_loop_spec:
  "decode_bcd_loop v bs =
     (if \<forall>b \<in> set bs. bcd_byte b
      then Some (of_nat (foldl (\<lambda>v b. v * 100 + bcd_digits b) (unat v) bs)) else None)"
proof (induction bs arbitrary: v)
  case Nil
  show ?case by simp
next
  case (Cons b bs)
  let ?v = "v * 100 + ucast (drop_bit 4 b) * 10 + ucast (b AND 0x0F) :: u64"
  have v: "?v = of_nat (unat v * 100 + bcd_digits b)"
    by (simp add: bcd_digits_def)
  have cong: "(of_nat (foldl (\<lambda>v b. v * 100 + bcd_digits b) (unat (of_nat n :: u64)) bs) :: u64) =
      of_nat (foldl (\<lambda>v b. v * 100 + bcd_digits b) n bs)" for n
  proof (induction bs rule: rev_induct)
    case (snoc x xs)
    then show ?case by simp
  qed simp
  have "(of_nat (foldl (\<lambda>v b. v * 100 + bcd_digits b) (unat ?v) bs) :: u64) =
      of_nat (foldl (\<lambda>v b. v * 100 + bcd_digits b) (unat v * 100 + bcd_digits b) bs)"
    unfolding v by (rule cong)
  then show ?case
    using Cons.IH [of ?v] by (auto simp: Let_def bcd_byte_def not_less)
qed

lemma decode_bcd_be_spec:
  "decode_bcd_be bs = (if \<forall>b \<in> set bs. bcd_byte b then Some (of_nat (bcd_number bs)) else None)"
  by (simp add: decode_bcd_be_def decode_bcd_loop_spec bcd_number_def)

lemma decode_bcd_spec:
  "decode_bcd bs = (if \<forall>b \<in> set bs. bcd_byte b then Some (of_nat (bcd_number (rev bs))) else None)"
  by (simp add: decode_bcd_def decode_bcd_loop_spec bcd_number_def)

lemma length_encode_bcd [simp]: "length (encode_bcd v n) = n"
  by (induction n arbitrary: v) (simp_all add: Let_def)

lemma unat_digit: "unat (ucast ((v :: u64) mod 10) :: u8) = unat v mod 10"
proof -
  have "unat v mod 10 < 256" by (rule less_trans [of _ 10]) simp_all
  then show ?thesis by (simp add: unsigned_ucast_eq unat_mod take_bit_eq_mod)
qed

lemma encode_bcd_step:
  fixes v :: u64
  defines "b \<equiv> push_bit 4 (ucast (v div 10 mod 10) :: u8) OR (ucast (v mod 10) :: u8)"
  shows "bcd_byte b" and "bcd_digits b = unat v mod 100"
proof -
  have h: "(ucast (v div 10 mod 10) :: u8) < 10" and l: "(ucast (v mod 10) :: u8) < 10"
    by (simp_all add: word_less_nat_alt unat_digit)
  from h l show "bcd_byte b"
    unfolding b_def bcd_byte_def nibbles [OF h l] by (simp add: word_less_nat_alt word_le_nat_alt)
  have "unat v mod 100 = unat v div 10 mod 10 * 10 + unat v mod 10"
    using mod_mult2_eq [of "unat v" 10 10] by simp
  then show "bcd_digits b = unat v mod 100"
    unfolding b_def bcd_digits_def nibbles [OF h l] by (simp add: unat_digit unat_div)
qed

lemma encode_bcd_bytes: "b \<in> set (encode_bcd v n) \<Longrightarrow> bcd_byte b"
  by (induction n arbitrary: v) (auto simp: Let_def encode_bcd_step)

lemma encode_bcd_number: "bcd_number (rev (encode_bcd v n)) = unat v mod 100 ^ n"
proof (induction n arbitrary: v)
  case 0
  show ?case by (simp add: bcd_number_def)
next
  case (Suc n)
  have "unat v mod 100 ^ Suc n = unat v div 100 mod 100 ^ n * 100 + unat v mod 100"
    using mod_mult2_eq [of "unat v" 100 "100 ^ n"] by simp
  moreover have "unat (v div 10 div 10) = unat v div 100"
    by (simp add: unat_div div_mult2_eq [symmetric])
  ultimately show ?case
    using Suc.IH [of "v div 10 div 10"]
    by (simp add: Let_def bcd_number_def encode_bcd_step)
qed

lemma bcd_byte_not_terminator: "bcd_byte b \<Longrightarrow> b \<noteq> END_OF_MESSAGE"
  by (auto simp: bcd_byte_def END_OF_MESSAGE_def)

lemma bcd_number_bound:
  "\<forall>b \<in> set bs. bcd_byte b \<Longrightarrow> bcd_number bs < 100 ^ length bs"
proof (induction bs rule: rev_induct)
  case Nil
  show ?case by (simp add: bcd_number_def)
next
  case (snoc b bs)
  then have "bcd_digits b < 100" by (simp add: bcd_byte_def bcd_digits_def word_le_nat_alt)
  with snoc show ?case by (simp add: bcd_number_def)
qed

lemma civ_request_body:
  "civ_encode_request f code ps =
     ([PREAMBLE, PREAMBLE, civ_radio f, civ_controller f, fst code] @ sub_bytes (snd code) @ ps) @
     [END_OF_MESSAGE]"
  by (simp add: civ_encode_request_def)

section \<open>Properties of CI-V\<close>

text \<open>
  C35: BCD encoding and decoding round trip in both byte orders, for any number of bytes: what
  comes back is the value modulo \<open>100 ^ n\<close>, so the value itself whenever its digits fit, and its low
  \<open>2 * n\<close> digits otherwise.
\<close>

theorem bcd_roundtrip:
  "decode_bcd (encode_bcd v n) = Some (of_nat (unat v mod 100 ^ n)) \<and>
   decode_bcd_be (encode_bcd_be v n) = Some (of_nat (unat v mod 100 ^ n)) \<and>
   length (encode_bcd v n) = n"
  using encode_bcd_bytes [of _ v n]
  by (simp add: decode_bcd_spec decode_bcd_be_spec encode_bcd_be_def encode_bcd_number)

text \<open>
  C38: Up to nine BCD bytes decode without overflow: the result is the number the bytes print, and
  a byte string is refused exactly when it holds a nibble above nine.
\<close>

theorem decode_bcd_exact:
  assumes "length bs \<le> 9"
  shows "case decode_bcd bs of
      None \<Rightarrow> list_ex (\<lambda>b. \<not> bcd_byte b) bs
    | Some v \<Rightarrow> list_all bcd_byte bs \<and> unat v = bcd_number (rev bs) \<and> unat v < 100 ^ length bs"
proof (cases "\<forall>b \<in> set bs. bcd_byte b")
  case True
  then have n: "bcd_number (rev bs) < 100 ^ length bs"
    using bcd_number_bound [of "rev bs"] by simp
  also have "(100::nat) ^ length bs \<le> 100 ^ 9"
    using assms by (intro power_increasing) simp_all
  finally have "bcd_number (rev bs) < 2 ^ 64" by simp
  with True n show ?thesis
    by (simp add: decode_bcd_spec list_all_iff unat_of_nat)
next
  case False
  then show ?thesis by (auto simp: decode_bcd_spec list_ex_iff)
qed

theorem decode_bcd_exact_witness:
  "case decode_bcd [0x00, 0x40, 0x07, 0x14, 0x00] of
     None \<Rightarrow> False | Some v \<Rightarrow> unat v = 14074000"
  using decode_bcd_exact [of "[0x00, 0x40, 0x07, 0x14, 0x00]"]
  by (simp add: bcd_byte_def bcd_number_def bcd_digits_def split: option.splits)

text \<open>
  The envelope parser accepts exactly the frames \<^verbatim>\<open>FE FE to from payload FD\<close> with a non-empty
  payload, and returns the parts they were built from.
\<close>

theorem parse_envelope_exact:
  "parse_envelope frame = Some env \<longleftrightarrow>
     env_payload env \<noteq> [] \<and>
     frame = [PREAMBLE, PREAMBLE, env_to env, env_from env] @ env_payload env @ [END_OF_MESSAGE]"
  by (rule parse_envelope_Some_iff)

text \<open>
  On a bus where radio and controller have different addresses a frame is never both an echo
  and an answer: the controller's own request is recognised as an echo and not as an answer, and
  every reply the radio frames, the bare acknowledgements included, as an answer and not as an echo.
\<close>

theorem civ_echo_is_not_answer:
  assumes "civ_radio f \<noteq> civ_controller f"
  shows "is_echo f (civ_encode_request f code ps) \<and> \<not> is_for_us f (civ_encode_request f code ps) \<and>
    is_for_us f (civ_encode_response f code ps) \<and> \<not> is_echo f (civ_encode_response f code ps) \<and>
    is_for_us f (civ_encode_ok f) \<and> is_for_us f (civ_encode_ng f) \<and>
    \<not> (is_echo f frame \<and> is_for_us f frame)"
proof -
  have "civ_encode_ok f = civ_encode_response f (OK, None) []"
    and "civ_encode_ng f = civ_encode_response f (NG, None) []"
    by (simp_all add: civ_encode_ok_def civ_encode_ng_def civ_encode_response_def sub_bytes_def)
  with assms show ?thesis
    by (auto simp: is_echo_def is_for_us_def parse_envelope_request parse_envelope_response
        split: option.splits)
qed

theorem civ_echo_is_not_answer_witness:
  "is_echo civ_default (civ_encode_request civ_default (3, None) []) \<and>
   \<not> is_for_us civ_default (civ_encode_request civ_default (3, None) [])"
proof -
  have "civ_radio civ_default \<noteq> civ_controller civ_default"
    by (simp add: model_defs wire_defs)
  from civ_echo_is_not_answer [OF this] show ?thesis by blast
qed

text \<open>
  A request that carries data and no sub-command is read as the sub-command its first data
  byte names whenever the table has one, and as the bare command with all its data otherwise.
\<close>

theorem civ_subcommand_first:
  assumes "table_find table (command, None) = Some d"
  shows "civ_find_command table (civ_encode_request f (command, None) (p # ps)) =
    (case table_find table (command, Some p) of
       Some d' \<Rightarrow> Inr (d', ps)
     | None \<Rightarrow> Inr (d, p # ps))"
  using assms
  by (simp add: civ_find_command_def parse_envelope_request table_find_def sub_bytes_def
      split: option.splits)

definition civ_sample_table :: "(nat, civ_code) command_table" where
  "civ_sample_table = \<lparr>definitions = map (\<lambda>(i, c).
     \<lparr>def_id = i, def_code = c, def_name = [], def_description = [], query_forms = [form_fixed OpQuery 0],
      set_forms = [form_variable OpSet 1 5], action_forms = [], response_forms = [],
      readable = True, writable = True\<rparr>) [(0, (0x15, None)), (1, (0x15, Some 2))]\<rparr>"

theorem civ_subcommand_first_witness:
  "\<exists>d. civ_find_command civ_sample_table (civ_encode_request civ_default (0x15, None) [2, 7]) =
     Inr (d, [7]) \<and> def_id d = 1"
proof -
  have "\<exists>d. table_find civ_sample_table (0x15, None) = Some d"
    by (simp add: civ_sample_table_def table_find_def)
  then obtain d where "table_find civ_sample_table (0x15, None) = Some d" by blast
  from civ_subcommand_first [OF this, of civ_default 2 "[7]"] show ?thesis
    by (simp add: civ_sample_table_def table_find_def)
qed

text \<open>
  C33: A CI-V request of a command the table has is parsed back as that command, with its parameters and
  the operation its width declares, exactly when it carries a sub-command, carries no data, or its first
  data byte is not a sub-command of the same command in the table. In the remaining case it is read as another
  command, the sub-command, with the rest of the data.
\<close>

theorem civ_parse_request:
  assumes "table_find table code = Some d"
  shows "(parse table (civ_wire_format f debug) (civ_encode_request f code ps) =
      Inr \<lparr>req_id = def_id d, req_code = code, req_operation = operation, req_parameters = ps\<rparr> \<longleftrightarrow>
        civ_framable table code ps \<and> classify (civ_wire_format f debug) d ps = Inr operation) \<and>
    (\<not> civ_framable table code ps \<longrightarrow> (\<exists>p rest d'. snd code = None \<and> ps = p # rest \<and>
      table_find table (fst code, Some p) = Some d' \<and>
      parse table (civ_wire_format f debug) (civ_encode_request f code ps) =
        map_sum id (\<lambda>oper. \<lparr>req_id = def_id d', req_code = (fst code, Some p), req_operation = oper,
          req_parameters = rest\<rparr>) (classify (civ_wire_format f debug) d' rest)))"
proof (cases "civ_framable table code ps")
  case True
  have "def_code d = code" using assms by (auto simp: table_find_def find_Some_iff)
  with civ_find_encode [OF assms True, of f] True show ?thesis
    by (auto simp: parse_def civ_wire_format_def split: sum.splits)
next
  case False
  then obtain p rest d' where b: "snd code = None" "ps = p # rest" "table_find table (fst code, Some p) = Some d'"
    by (auto simp: civ_framable_def split: option.splits list.splits)
  then have "def_code d' = (fst code, Some p)" by (auto simp: table_find_def find_Some_iff)
  moreover have "civ_find_command table (civ_encode_request f code ps) = Inr (d', rest)"
    using b by (simp add: civ_find_command_def parse_envelope_request table_find_def sub_bytes_def)
  ultimately have "parse table (civ_wire_format f debug) (civ_encode_request f code ps) =
      map_sum id (\<lambda>oper. \<lparr>req_id = def_id d', req_code = (fst code, Some p), req_operation = oper,
        req_parameters = rest\<rparr>) (classify (civ_wire_format f debug) d' rest)"
    by (simp add: parse_def civ_wire_format_def split: sum.splits)
  with b False show ?thesis
    by (cases "classify (civ_wire_format f debug) d' rest") auto
qed

theorem civ_parse_request_witness:
  "parse civ_sample_table (civ_wire_format civ_default (\<lambda>_. [])) (civ_encode_request civ_default (0x15, None) [7]) =
      Inr \<lparr>req_id = 0, req_code = (0x15, None), req_operation = OpSet, req_parameters = [7]\<rparr> \<and>
    parse civ_sample_table (civ_wire_format civ_default (\<lambda>_. [])) (civ_encode_request civ_default (0x15, None) [2]) =
      Inr \<lparr>req_id = 1, req_code = (0x15, Some 2), req_operation = OpQuery, req_parameters = []\<rparr>"
proof -
  let ?f = "civ_wire_format civ_default (\<lambda>_. [])"
  let ?d = "\<lambda>i c. \<lparr>def_id = i :: nat, def_code = (0x15 :: u8, c :: u8 option), def_name = [], def_description = [],
      query_forms = [form_fixed OpQuery 0], set_forms = [form_variable OpSet 1 5], action_forms = [],
      response_forms = [], readable = True, writable = True\<rparr>"
  have t: "table_find civ_sample_table (0x15, None) = Some (?d 0 None)"
    "table_find civ_sample_table (0x15, Some 2) = Some (?d 1 (Some 2))"
    by (simp_all add: civ_sample_table_def table_find_def)
  have f: "civ_framable civ_sample_table (0x15, None) [7]" "\<not> civ_framable civ_sample_table (0x15, None) [2]"
    by (simp_all add: civ_framable_def civ_sample_table_def table_find_def)
  have c: "classify ?f (?d 0 None) [7] = Inr OpSet" "classify ?f (?d 1 (Some 2)) [] = Inr OpQuery"
    by (simp_all add: model_defs)
  from civ_parse_request [OF t(1), of civ_default "\<lambda>_. []" "[7]" OpSet] f(1) c(1)
  have "parse civ_sample_table ?f (civ_encode_request civ_default (0x15, None) [7]) =
      Inr \<lparr>req_id = def_id (?d 0 None), req_code = (0x15, None), req_operation = OpSet, req_parameters = [7]\<rparr>"
    by blast
  moreover from civ_parse_request [OF t(1), of civ_default "\<lambda>_. []" "[2]" OpSet] f(2) t(2) c(2)
  have "parse civ_sample_table ?f (civ_encode_request civ_default (0x15, None) [2]) =
      Inr \<lparr>req_id = def_id (?d 1 (Some 2)), req_code = (0x15, Some 2), req_operation = OpQuery, req_parameters = []\<rparr>"
    by auto
  ultimately show ?thesis by simp
qed

text \<open>
  \<^verbatim>\<open>FD\<close> never appears inside a frame: if addresses, command and sub-command avoid it and the
  data is BCD, the frame scanner reports a request complete at its last byte and at no earlier one.
\<close>

theorem civ_scanner_stops_at_end:
  assumes "civ_radio f \<noteq> END_OF_MESSAGE" and "civ_controller f \<noteq> END_OF_MESSAGE"
    and "fst code \<noteq> END_OF_MESSAGE" and "snd code \<noteq> Some END_OF_MESSAGE"
    and "\<forall>b \<in> set ps. bcd_byte b"
  shows "civ_frame_complete (take k (civ_encode_request f code ps)) \<longleftrightarrow>
    length (civ_encode_request f code ps) \<le> k"
proof -
  have "END_OF_MESSAGE \<notin> set ps" using assms(5) bcd_byte_not_terminator by blast
  then have "END_OF_MESSAGE \<notin> set ([PREAMBLE, PREAMBLE, civ_radio f, civ_controller f, fst code] @
      sub_bytes (snd code) @ ps)"
    using assms(1-4) by (auto simp: sub_bytes_def civ_bytes split: option.splits)
  from terminator_scan [OF this, of k] show ?thesis
    by (simp only: civ_frame_complete_def civ_request_body)
qed

theorem civ_scanner_stops_at_end_witness:
  "civ_frame_complete (take 10 (civ_encode_request civ_default (5, None) (encode_bcd 14074000 5))) = False \<and>
   civ_frame_complete (take 11 (civ_encode_request civ_default (5, None) (encode_bcd 14074000 5)))"
proof -
  have "civ_frame_complete (take k (civ_encode_request civ_default (5, None) (encode_bcd 14074000 5))) \<longleftrightarrow>
      length (civ_encode_request civ_default (5, None) (encode_bcd 14074000 5)) \<le> k" for k
    by (rule civ_scanner_stops_at_end) (auto simp: model_defs civ_bytes encode_bcd_bytes)
  moreover have "length (civ_encode_request civ_default (5, None) (encode_bcd 14074000 5)) = 11"
    by (simp add: civ_encode_request_def sub_bytes_def)
  ultimately show ?thesis by (simp only:) simp
qed

end
