(* ===== verification/Serial_Session.thy ===== *)
theory Serial_Session
  imports Transport_Core Civ
begin

text \<open>
  The serial transport: port configuration and baud rates
  (\<^verbatim>\<open>cat-transport-serial/src/config.rs\<close>, \<^verbatim>\<open>baud.rs\<close>) and the framing session
  (\<^verbatim>\<open>session.rs\<close>), over any \<^verbatim>\<open>Transport\<close> and any \<^verbatim>\<open>FrameScanner\<close>.

  The clock is a function of the transport's state. The locale \<open>frame_scanner\<close> is the contract a
  scanner offers the session, a frame ends at its first terminator byte; both wire formats
  interpret it.
\<close>

section \<open>Configuration\<close>

datatype parity = ParityNone | ParityEven | ParityOdd
datatype flow_control = FlowNone | FlowSoftware | FlowHardware

record serial_config =
  baud_rate :: u32
  data_bits :: u8
  stop_bits :: u8
  parity_of :: parity
  flow_of :: flow_control
  initial_rts :: bool
  initial_dtr :: bool

definition serial_config_default :: serial_config where
  "serial_config_default =
     \<lparr>baud_rate = 9600, data_bits = 8, stop_bits = 2, parity_of = ParityNone, flow_of = FlowNone,
      initial_rts = True, initial_dtr = False\<rparr>"

definition SUPPORTED_BAUD_RATES :: "u32 list" where
  "SUPPORTED_BAUD_RATES = [1200, 2400, 4800, 9600, 19200, 38400, 57600, 115200, 230400]"

datatype serial_error = InvalidConfig bytes

definition validate_baud_rate :: "u32 \<Rightarrow> serial_error + u32" where
  "validate_baud_rate baud =
     (if List.member SUPPORTED_BAUD_RATES baud then Inr baud
      else Inl (InvalidConfig (lit ''Unsupported baud rate: '' @ decimal (unat baud))))"

section \<open>The session\<close>

definition MAX_FRAME_LEN :: nat where "MAX_FRAME_LEN = 64"

text \<open>\<^verbatim>\<open>READ_TIMEOUT\<close>, in milliseconds.\<close>

definition READ_TIMEOUT :: nat where "READ_TIMEOUT = 2000"

text \<open>
  The read loop. Every path out of it that is an error discards what is still in the receive
  buffer and what was read so far.
\<close>

function serial_read_loop :: "'t transport \<Rightarrow> ('t \<Rightarrow> nat) \<Rightarrow> (bytes \<Rightarrow> bool) \<Rightarrow> nat \<Rightarrow> bytes \<Rightarrow> 't \<Rightarrow>
    (transport_error + unit) \<times> bytes \<times> 't" where
  "serial_read_loop T now frame_complete deadline response t =
     (if now t \<ge> deadline then (Inl ReadTimeout, [], tr_flush_rx T t)
      else (case tr_read T 1 t of
              (Inl e, t') \<Rightarrow> (Inl e, [], tr_flush_rx T t')
            | (Inr buf, t') \<Rightarrow>
                if buf = [] then (Inr (), response, t')
                else let response' = response @ [hd buf]
                     in if frame_complete response' then (Inr (), response', t')
                        else if length response' \<ge> MAX_FRAME_LEN
                        then (Inl (TransportOther (lit ''response exceeded 64 bytes with no terminator'')),
                              [], tr_flush_rx T t')
                        else serial_read_loop T now frame_complete deadline response' t'))"
  by pat_completeness auto
termination
  by (relation "measure (\<lambda>(T, now, frame_complete, deadline, response, t). MAX_FRAME_LEN - length response)")
     (auto simp: MAX_FRAME_LEN_def)

declare serial_read_loop.simps [simp del]

definition serial_execute :: "'t transport \<Rightarrow> ('t \<Rightarrow> nat) \<Rightarrow> (bytes \<Rightarrow> bool) \<Rightarrow> bytes \<Rightarrow> bytes \<Rightarrow> 't \<Rightarrow>
    (transport_error + response_disposition) \<times> bytes \<times> 't" where
  "serial_execute T now frame_complete request response t =
     (case tr_write T request (tr_drain T t) of
        (Inl e, t1) \<Rightarrow> (Inl e, response, t1)
      | (Inr _, t1) \<Rightarrow>
          (case tr_flush T t1 of
             (Inl e, t2) \<Rightarrow> (Inl e, response, t2)
           | (Inr _, t2) \<Rightarrow>
               (case serial_read_loop T now frame_complete (now t2 + READ_TIMEOUT) response t2 of
                  (Inl e, response', t3) \<Rightarrow> (Inl e, response', t3)
                | (Inr _, response', t3) \<Rightarrow> (Inr (disposition_of response'), response', t3))))"

definition serial_send :: "'t transport \<Rightarrow> bytes \<Rightarrow> 't \<Rightarrow> (transport_error + unit) \<times> 't" where
  "serial_send T request t =
     (case tr_write T request t of
        (Inl e, t1) \<Rightarrow> (Inl e, t1)
      | (Inr _, t1) \<Rightarrow>
          (case tr_flush T t1 of
             (Inl e, t2) \<Rightarrow> (Inl e, t2)
           | (Inr _, t2) \<Rightarrow> (Inr (), tr_drain T t2)))"

definition serial_session_ops :: "'t transport \<Rightarrow> ('t \<Rightarrow> nat) \<Rightarrow> (bytes \<Rightarrow> bool) \<Rightarrow>
    ('t, transport_error) cat_session" where
  "serial_session_ops T now frame_complete =
     \<lparr>ses_execute = (\<lambda>request response t. Some (serial_execute T now frame_complete request response t)),
      ses_send = (\<lambda>request t. Some (serial_send T request t)),
      ses_flush_rx = tr_flush_rx T\<rparr>"

section \<open>The frame scanner contract\<close>

text \<open>
  A transport in state \<open>t\<close> delivers a byte string one byte per read, each before the deadline, and is
  then in state \<open>t'\<close>.
\<close>

fun delivers :: "'t transport \<Rightarrow> ('t \<Rightarrow> nat) \<Rightarrow> nat \<Rightarrow> 't \<Rightarrow> bytes \<Rightarrow> 't \<Rightarrow> bool" where
  "delivers T now deadline t [] t' = (t = t')"
| "delivers T now deadline t (b # bs) t' =
     (now t < deadline \<and>
      (case tr_read T 1 t of
         (Inr buf, t1) \<Rightarrow> buf = [b] \<and> delivers T now deadline t1 bs t'
       | (Inl _, _) \<Rightarrow> False))"

text \<open>
  What the session asks of a \<^verbatim>\<open>FrameScanner\<close>: a buffer is complete when its last byte is the
  protocol's terminator.
\<close>

locale frame_scanner =
  fixes frame_complete :: "bytes \<Rightarrow> bool" and terminator :: u8
  assumes complete_iff: "frame_complete buffer \<longleftrightarrow> buffer \<noteq> [] \<and> last buffer = terminator"
begin

lemma complete_snoc: "frame_complete (buffer @ [b]) \<longleftrightarrow> b = terminator"
  by (simp add: complete_iff)

lemma read_loop_delivers:
  assumes "delivers T now deadline t (body @ [terminator]) t'" and "terminator \<notin> set body"
    and "length (response @ body) < MAX_FRAME_LEN"
  shows "serial_read_loop T now frame_complete deadline response t =
    (Inr (), response @ body @ [terminator], t')"
  using assms
proof (induction body arbitrary: response t)
  case Nil
  then show ?case
    by (subst serial_read_loop.simps) (auto simp: complete_snoc split: prod.splits sum.splits)
next
  case (Cons b body)
  from Cons.prems(1) obtain t1 where t1: "now t < deadline" "tr_read T 1 t = (Inr [b], t1)"
    "delivers T now deadline t1 (body @ [terminator]) t'" by (auto split: prod.splits sum.splits)
  from Cons.IH [OF t1(3), of "response @ [b]"] Cons.prems(2,3) have
    "serial_read_loop T now frame_complete deadline (response @ [b]) t1 =
      (Inr (), (response @ [b]) @ body @ [terminator], t')" by simp
  with t1 Cons.prems(2,3) show ?case
    by (subst serial_read_loop.simps) (auto simp: complete_snoc Let_def)
qed

end

interpretation ascii_scanner: frame_scanner ascii_frame_complete 59
  by unfold_locales (simp add: ascii_frame_complete_def)

interpretation civ_scanner: frame_scanner civ_frame_complete END_OF_MESSAGE
  by unfold_locales (simp add: civ_frame_complete_def)

section \<open>Lemmas\<close>

lemma serial_read_loop_outcome:
  assumes "length response < MAX_FRAME_LEN"
  shows "case serial_read_loop T now frame_complete deadline response t of
      (Inl e, response', t') \<Rightarrow> response' = [] \<and> (\<exists>t''. t' = tr_flush_rx T t'')
    | (Inr _, response', t') \<Rightarrow> length response' \<le> MAX_FRAME_LEN \<and> prefix response response'"
  using assms
proof (induction T now frame_complete deadline response t rule: serial_read_loop.induct)
  case (1 T now frame_complete deadline response t)
  show ?case
  proof (cases "now t \<ge> deadline")
    case True
    then show ?thesis by (subst serial_read_loop.simps) auto
  next
    case now: False
    obtain r t' where r: "tr_read T 1 t = (r, t')" by fastforce
    show ?thesis
    proof (cases r)
      case (Inl e)
      with r now show ?thesis by (subst serial_read_loop.simps) auto
    next
      case (Inr buf)
      show ?thesis
      proof (cases "buf = [] \<or> frame_complete (response @ [hd buf]) \<or> MAX_FRAME_LEN \<le> length (response @ [hd buf])")
        case True
        with r now Inr "1.prems" show ?thesis
          by (subst serial_read_loop.simps) (auto simp: Let_def)
      next
        case False
        then have "serial_read_loop T now frame_complete deadline response t =
            serial_read_loop T now frame_complete deadline (response @ [hd buf]) t'"
          using r now Inr by (subst serial_read_loop.simps) (simp add: Let_def)
        moreover have "prefix (response @ [hd buf]) x \<Longrightarrow> prefix response x" for x
          by (metis append_prefixD)
        ultimately show ?thesis
          using "1.IH" [OF now r [symmetric] Inr _ refl] False
          by (fastforce split: prod.splits sum.splits)
      qed
    qed
  qed
qed

lemma serial_execute_outcome:
  "case serial_execute T now frame_complete request [] t of
     (Inl e, response, t') \<Rightarrow> response = [] \<and>
        (isl (fst (tr_write T request (tr_drain T t))) \<or>
         isl (fst (tr_flush T (snd (tr_write T request (tr_drain T t))))) \<or>
         (\<exists>t''. t' = tr_flush_rx T t''))
   | (Inr d, response, t') \<Rightarrow> d = disposition_of response \<and> length response \<le> MAX_FRAME_LEN"
proof -
  have "length ([] :: bytes) < MAX_FRAME_LEN" by (simp add: MAX_FRAME_LEN_def)
  note loop = serial_read_loop_outcome [OF this, where T = T and now = now and frame_complete = frame_complete]
  obtain w t1 where w: "tr_write T request (tr_drain T t) = (w, t1)" by fastforce
  obtain f t2 where f: "tr_flush T t1 = (f, t2)" by fastforce
  show ?thesis
    using w f loop [where deadline = "now t2 + READ_TIMEOUT" and t = t2]
    by (cases w; cases f) (auto simp: serial_execute_def split: prod.splits sum.splits)
qed

interpretation serial: cat_session_contract "serial_session_ops T now frame_complete"
proof
  fix request s d response s'
  assume "ses_execute (serial_session_ops T now frame_complete) request [] s = Some (Inr d, response, s')"
  then show "d = disposition_of response"
    using serial_execute_outcome [where T = T and now = now and frame_complete = frame_complete
      and request = request and t = s] by (simp add: serial_session_ops_def)
next
  fix request s e response s'
  assume "ses_execute (serial_session_ops T now frame_complete) request [] s = Some (Inl e, response, s')"
  then show "response = []"
    using serial_execute_outcome [where T = T and now = now and frame_complete = frame_complete
      and request = request and t = s] by (simp add: serial_session_ops_def)
qed

section \<open>A line with a fixed input\<close>

text \<open>A transport whose receive side is a list of bytes and whose clock never moves.\<close>

definition line_transport :: "bytes transport" where
  "line_transport =
     \<lparr>tr_write = (\<lambda>request t. (Inr (length request), t)),
      tr_read = (\<lambda>n t. (Inr (take n t), drop n t)),
      tr_flush = (\<lambda>t. (Inr (), t)),
      tr_flush_rx = (\<lambda>t. []),
      tr_drain = (\<lambda>t. t)\<rparr>"

lemma line_delivers:
  "0 < deadline \<Longrightarrow> delivers line_transport (\<lambda>_. 0) deadline (bs @ rest) bs rest"
  by (induction bs) (simp_all add: line_transport_def)

section \<open>Properties of the serial session\<close>

text \<open>
  C28: If the line delivers a frame within the deadline, an exchange returns exactly that frame, up
  to and including its first terminator, and leaves every byte after it unread. The frame may use
  the whole of the length limit.
\<close>

theorem serial_reads_one_frame:
  assumes "frame_scanner frame_complete terminator"
    and "tr_write T request (tr_drain T t) = (Inr n, t1)" and "tr_flush T t1 = (Inr (), t2)"
    and "delivers T now (now t2 + READ_TIMEOUT) t2 (body @ [terminator]) t3"
    and "terminator \<notin> set body" and "length (body @ [terminator]) \<le> MAX_FRAME_LEN"
  shows "serial_execute T now frame_complete request [] t = (Inr ResponseWritten, body @ [terminator], t3)"
  using assms(2,3) frame_scanner.read_loop_delivers [OF assms(1,4,5), of "[]"] assms(6)
  by (simp add: serial_execute_def disposition_of_def)

theorem serial_reads_one_frame_witness:
  "serial_execute line_transport (\<lambda>_. 0) ascii_frame_complete [73, 68, 59] [] (([73, 68, 48] @ [59]) @ [83, 77]) =
     (Inr ResponseWritten, [73, 68, 48] @ [59], [83, 77])"
proof (rule serial_reads_one_frame [OF ascii_scanner.frame_scanner_axioms])
  show "tr_write line_transport [73, 68, 59] (tr_drain line_transport (([73, 68, 48] @ [59]) @ [83, 77])) =
      (Inr 3, ([73, 68, 48] @ [59]) @ [83, 77])"
    and "tr_flush line_transport (([73, 68, 48] @ [59]) @ [83, 77]) = (Inr (), ([73, 68, 48] @ [59]) @ [83, 77])"
    by (simp_all add: line_transport_def)
  show "delivers line_transport (\<lambda>_. 0) (0 + READ_TIMEOUT) (([73, 68, 48] @ [59]) @ [83, 77])
      ([73, 68, 48] @ [59]) [83, 77]"
    by (rule line_delivers) (simp add: READ_TIMEOUT_def)
qed (simp_all add: MAX_FRAME_LEN_def)

text \<open>
  A serial exchange returns at most sixty-four bytes, and after any failure returns none: a
  failure once the request is on the wire also leaves the receive buffer flushed, so that no part of
  the abandoned answer can be read by the next exchange.
\<close>

theorem serial_failure_discards:
  "case serial_execute T now frame_complete request [] t of
     (Inl e, response, t') \<Rightarrow> response = [] \<and>
        (isl (fst (tr_write T request (tr_drain T t))) \<or>
         isl (fst (tr_flush T (snd (tr_write T request (tr_drain T t))))) \<or>
         (\<exists>t''. t' = tr_flush_rx T t''))
   | (Inr d, response, t') \<Rightarrow> d = disposition_of response \<and> length response \<le> MAX_FRAME_LEN"
  by (rule serial_execute_outcome)

text \<open>
  An exchange sees a line only after draining it: two states that drain to the same state give
  the same exchange, whatever stale input they hold.
\<close>

theorem serial_ignores_stale_input:
  assumes "tr_drain T t = tr_drain T u"
  shows "serial_execute T now frame_complete request response t =
    serial_execute T now frame_complete request response u"
  by (simp add: serial_execute_def assms)

theorem serial_ignores_stale_input_witness:
  "serial_execute (line_transport\<lparr>tr_drain := (\<lambda>_. [])\<rparr>) (\<lambda>_. 0) ascii_frame_complete [73, 68, 59] [] [59] =
   serial_execute (line_transport\<lparr>tr_drain := (\<lambda>_. [])\<rparr>) (\<lambda>_. 0) ascii_frame_complete [73, 68, 59] [] []"
  by (rule serial_ignores_stale_input) simp

text \<open>
  Sending a set command never reads a response: the outcome does not depend on what a read
  would return, and a successful send ends by draining the line.
\<close>

theorem serial_send_never_reads:
  "serial_send (T\<lparr>tr_read := any_read\<rparr>) request t = serial_send T request t \<and>
   (case serial_send T request t of (Inr _, t') \<Rightarrow> (\<exists>t2. t' = tr_drain T t2) | (Inl _, _) \<Rightarrow> True)"
  by (auto simp: serial_send_def split: prod.splits sum.splits)

end
