(* ===== verification/Completion.thy ===== *)
theory Completion
  imports Transport_Core
begin

text \<open>
  The cross-thread primitives: the single-slot completion channel
  (\<^verbatim>\<open>cat-transport-core/src/completion.rs\<close>), the thread-parking executor that awaits it
  (\<^verbatim>\<open>cat-server/src/block_on.rs\<close>) and the timeout combinator
  (\<^verbatim>\<open>cat-transport-core/src/timeout.rs\<close>).

  Every critical section of the channel, the stretch of code that holds one of its two mutexes, is
  one definition. Sender and receiver run on different threads, so their critical sections
  interleave freely: the relation \<open>cstep\<close> lets either side take its next section in any state, and
  \<open>areach\<close> is the same system with a poll that nothing interrupts.
\<close>

section \<open>The shared slot\<close>

datatype canceled = Canceled

datatype 'a slot = SlotEmpty | SlotValue 'a | SlotCanceled

text \<open>
  \<open>unparked\<close> is the token of \<^verbatim>\<open>std::thread::park\<close>: waking the registered waker unparks the thread
  that runs \<^verbatim>\<open>block_on\<close>.
\<close>

record 'a completion =
  slot :: "'a slot"
  waker :: bool
  unparked :: bool

definition completion_channel :: "'a completion" where
  "completion_channel = \<lparr>slot = SlotEmpty, waker = False, unparked = False\<rparr>"

definition wake_if_registered :: "'a completion \<Rightarrow> 'a completion" where
  "wake_if_registered c = (if waker c then c\<lparr>waker := False, unparked := True\<rparr> else c)"

definition send_store :: "'a \<Rightarrow> 'a completion \<Rightarrow> 'a completion" where
  "send_store v c = c\<lparr>slot := SlotValue v\<rparr>"

text \<open>The check of \<^verbatim>\<open>Drop\<close>: whether the slot was still empty, and so a wake-up follows.\<close>

definition drop_store :: "'a completion \<Rightarrow> bool \<times> 'a completion" where
  "drop_store c =
     (case slot c of
        SlotEmpty \<Rightarrow> (True, c\<lparr>slot := SlotCanceled\<rparr>)
      | _ \<Rightarrow> (False, c))"

definition poll_take :: "'a completion \<Rightarrow> (canceled + 'a) option \<times> 'a completion" where
  "poll_take c =
     (case slot c of
        SlotEmpty \<Rightarrow> (None, c)
      | SlotValue v \<Rightarrow> (Some (Inr v), c\<lparr>slot := SlotEmpty\<rparr>)
      | SlotCanceled \<Rightarrow> (Some (Inl Canceled), c\<lparr>slot := SlotEmpty\<rparr>))"

definition poll_register :: "'a completion \<Rightarrow> 'a completion" where
  "poll_register c = c\<lparr>waker := True\<rparr>"

declare wake_if_registered_def [model_defs] send_store_def [model_defs] drop_store_def [model_defs]
  poll_take_def [model_defs] poll_register_def [model_defs] completion_channel_def [model_defs]

section \<open>The two threads\<close>

datatype tx_pc = TxHeld | TxStored | TxWoken | TxCanceling | TxDone

datatype 'a rx_pc = RxPolling | RxRegistering | RxParked | RxDone "canceled + 'a"

record 'a pair_state =
  chan :: "'a completion"
  tx :: tx_pc
  rx :: "'a rx_pc"
  sent :: "'a option"

definition pair_init :: "'a pair_state" where
  "pair_init = \<lparr>chan = completion_channel, tx = TxHeld, rx = RxPolling, sent = None\<rparr>"

text \<open>
  The sender: \<^verbatim>\<open>send\<close> stores, wakes and then drops itself; a sender that is dropped unused goes
  straight to the drop.
\<close>

inductive tx_step :: "'a pair_state \<Rightarrow> 'a pair_state \<Rightarrow> bool" where
  SendStore: "tx s = TxHeld \<Longrightarrow>
    tx_step s (s\<lparr>tx := TxStored, chan := send_store v (chan s), sent := Some v\<rparr>)"
| SendWake: "tx s = TxStored \<Longrightarrow> tx_step s (s\<lparr>tx := TxWoken, chan := wake_if_registered (chan s)\<rparr>)"
| Drop: "tx s = TxHeld \<or> tx s = TxWoken \<Longrightarrow> drop_store (chan s) = (marked, c) \<Longrightarrow>
    tx_step s (s\<lparr>tx := (if marked then TxCanceling else TxDone), chan := c\<rparr>)"
| DropWake: "tx s = TxCanceling \<Longrightarrow> tx_step s (s\<lparr>tx := TxDone, chan := wake_if_registered (chan s)\<rparr>)"

text \<open>The receiver under \<^verbatim>\<open>block_on\<close>: poll, park while the poll is pending, poll again when unparked.\<close>

inductive rx_step :: "'a pair_state \<Rightarrow> 'a pair_state \<Rightarrow> bool" where
  PollReady: "rx s = RxPolling \<Longrightarrow> poll_take (chan s) = (Some r, c) \<Longrightarrow>
    rx_step s (s\<lparr>rx := RxDone r, chan := c\<rparr>)"
| PollEmpty: "rx s = RxPolling \<Longrightarrow> poll_take (chan s) = (None, c) \<Longrightarrow>
    rx_step s (s\<lparr>rx := RxRegistering, chan := c\<rparr>)"
| Register: "rx s = RxRegistering \<Longrightarrow> rx_step s (s\<lparr>rx := RxParked, chan := poll_register (chan s)\<rparr>)"
| Unpark: "rx s = RxParked \<Longrightarrow> unparked (chan s) \<Longrightarrow>
    rx_step s (s\<lparr>rx := RxPolling, chan := (chan s)\<lparr>unparked := False\<rparr>\<rparr>)"

inductive_cases tx_stepE: "tx_step s s'"
inductive_cases rx_stepE: "rx_step s s'"

definition cstep :: "'a pair_state \<Rightarrow> 'a pair_state \<Rightarrow> bool" where
  "cstep s s' \<longleftrightarrow> tx_step s s' \<or> rx_step s s'"

inductive creach :: "'a pair_state \<Rightarrow> bool" where
  creach_init: "creach pair_init"
| creach_step: "creach s \<Longrightarrow> cstep s s' \<Longrightarrow> creach s'"

text \<open>Runs in which the sender never acts between the two sections of one poll.\<close>

inductive areach :: "'a pair_state \<Rightarrow> bool" where
  areach_init: "areach pair_init"
| areach_tx: "areach s \<Longrightarrow> rx s \<noteq> RxRegistering \<Longrightarrow> tx_step s s' \<Longrightarrow> areach s'"
| areach_rx: "areach s \<Longrightarrow> rx_step s s' \<Longrightarrow> areach s'"

section \<open>The timeout combinator\<close>

text \<open>
  One poll of \<^verbatim>\<open>TimeoutFuture\<close>: the wrapped future's answer to this poll, the clock, the deadline, and
  whether the timer thread runs already. The result says what the poll returns, whether the timer
  runs now, and how long the thread this poll spawned sleeps.
\<close>

definition timeout_poll :: "'o option \<Rightarrow> nat \<Rightarrow> nat \<Rightarrow> bool \<Rightarrow>
    (elapsed + 'o) option \<times> bool \<times> nat option" where
  "timeout_poll inner now deadline timer_started =
     (case inner of
        Some v \<Rightarrow> (Some (Inr v), timer_started, None)
      | None \<Rightarrow>
          if now \<ge> deadline then (Some (Inl Elapsed), timer_started, None)
          else if \<not> timer_started then (None, True, Some (deadline - now))
          else (None, timer_started, None))"

text \<open>A sequence of polls, each with the future's answer and the time it happens.\<close>

fun timeout_run :: "nat \<Rightarrow> bool \<Rightarrow> ('o option \<times> nat) list \<Rightarrow> (elapsed + 'o) option \<times> nat list" where
  "timeout_run deadline started [] = (None, [])"
| "timeout_run deadline started ((inner, now) # polls) =
     (case timeout_poll inner now deadline started of
        (Some r, _, _) \<Rightarrow> (Some r, [])
      | (None, started', spawned) \<Rightarrow>
          (case timeout_run deadline started' polls of
             (r, timers) \<Rightarrow>
               (r, (case spawned of None \<Rightarrow> timers | Some d \<Rightarrow> (now + d) # timers))))"

section \<open>Lemmas\<close>

lemma tx_step_keeps_rx: "tx_step s s' \<Longrightarrow> rx s' = rx s"
  by (auto elim!: tx_stepE)

text \<open>
  What holds in every reachable state: the slot's content agrees with the sender's position and
  with what was sent, and a finished receiver got what was sent, or the cancellation of a sender
  that sent nothing.
\<close>

definition slot_ok :: "'a pair_state \<Rightarrow> bool" where
  "slot_ok s \<longleftrightarrow>
     (case slot (chan s) of
        SlotValue v \<Rightarrow> sent s = Some v \<and> tx s \<noteq> TxHeld
      | SlotCanceled \<Rightarrow> (sent s = None \<or> (\<exists>r. rx s = RxDone r)) \<and> tx s \<noteq> TxHeld
      | SlotEmpty \<Rightarrow> (tx s = TxHeld \<and> sent s = None) \<or> (\<exists>r. rx s = RxDone r))"

definition result_ok :: "'a pair_state \<Rightarrow> bool" where
  "result_ok s \<longleftrightarrow>
     (case rx s of
        RxDone (Inr v) \<Rightarrow> sent s = Some v
      | RxDone (Inl Canceled) \<Rightarrow> sent s = None \<and> tx s \<noteq> TxHeld
      | _ \<Rightarrow> True)"

definition sent_ok :: "'a pair_state \<Rightarrow> bool" where
  "sent_ok s \<longleftrightarrow> (tx s = TxStored \<or> tx s = TxWoken \<longrightarrow> (\<exists>v. sent s = Some v)) \<and>
     (tx s = TxHeld \<longrightarrow> sent s = None)"

lemmas inv_defs = slot_ok_def result_ok_def sent_ok_def

lemma tx_step_inv:
  assumes "tx_step s s'" and "slot_ok s" and "result_ok s" and "sent_ok s"
  shows "slot_ok s' \<and> result_ok s' \<and> sent_ok s'"
  using assms
  by (elim tx_stepE)
     (auto simp: inv_defs model_defs split: slot.splits rx_pc.splits sum.splits canceled.splits if_splits)

lemma rx_step_inv:
  assumes "rx_step s s'" and "slot_ok s" and "result_ok s" and "sent_ok s"
  shows "slot_ok s' \<and> result_ok s' \<and> sent_ok s'"
  using assms
  by (elim rx_stepE)
     (auto simp: inv_defs model_defs split: slot.splits rx_pc.splits sum.splits canceled.splits if_splits)

lemma creach_inv: "creach s \<Longrightarrow> slot_ok s \<and> result_ok s \<and> sent_ok s"
proof (induction rule: creach.induct)
  case creach_init
  show ?case by (simp add: inv_defs pair_init_def completion_channel_def)
next
  case (creach_step s s')
  then show ?case unfolding cstep_def using tx_step_inv rx_step_inv by blast
qed

text \<open>
  In an uninterrupted run, a parked receiver that has not been unparked has its waker registered
  until the sender's last wake-up, and finds the slot empty only while the sender still has one
  to give.
\<close>

definition will_wake :: "'a pair_state \<Rightarrow> bool" where
  "will_wake s \<longleftrightarrow>
     (rx s = RxRegistering \<longrightarrow> slot (chan s) = SlotEmpty \<and> tx s = TxHeld) \<and>
     (rx s = RxParked \<longrightarrow> unparked (chan s) \<or>
        waker (chan s) \<and> (tx s = TxHeld \<or> tx s = TxStored \<or> tx s = TxCanceling))"

lemma areach_creach: "areach s \<Longrightarrow> creach s"
  by (induction rule: areach.induct) (auto intro: creach.intros simp: cstep_def)

lemma areach_will_wake: "areach s \<Longrightarrow> will_wake s"
proof (induction rule: areach.induct)
  case areach_init
  show ?case by (simp add: will_wake_def pair_init_def)
next
  case (areach_tx s s')
  then have "slot_ok s" using areach_creach creach_inv by blast
  with areach_tx show ?case
    by (auto elim!: tx_stepE simp: will_wake_def inv_defs model_defs split: slot.splits if_splits)
next
  case (areach_rx s s')
  then have "slot_ok s" using areach_creach creach_inv by blast
  with areach_rx show ?case
    by (auto elim!: rx_stepE simp: will_wake_def inv_defs model_defs split: slot.splits if_splits)
qed

lemma timeout_run_no_timer:
  "timeout_run deadline True polls = (r, timers) \<Longrightarrow> timers = []"
  by (induction deadline True polls arbitrary: r timers rule: timeout_run.induct)
     (auto simp: timeout_poll_def split: option.splits if_splits prod.splits)

lemma timeout_run_step:
  "fst (timeout_run deadline started ((inner, now) # polls)) =
     (case inner of
        Some v \<Rightarrow> Some (Inr v)
      | None \<Rightarrow> if deadline \<le> now then Some (Inl Elapsed) else fst (timeout_run deadline True polls))"
  by (simp add: timeout_poll_def split: option.splits prod.splits)

lemma timeout_run_result:
  "case fst (timeout_run deadline started polls) of
     None \<Rightarrow> list_all (\<lambda>(inner, now). inner = None \<and> now < deadline) polls
   | Some (Inl _) \<Rightarrow> list_ex (\<lambda>(inner, now). inner = None \<and> deadline \<le> now) polls
   | Some (Inr v) \<Rightarrow> list_ex (\<lambda>(inner, now). inner = Some v) polls"
proof (induction polls arbitrary: started)
  case Nil
  show ?case by simp
next
  case (Cons p polls)
  obtain inner now where p: "p = (inner, now)" by fastforce
  from Cons.IH [of True] show ?case
    unfolding p timeout_run_step by (auto split: option.splits sum.splits)
qed

lemma timeout_run_timers:
  "length (snd (timeout_run deadline False polls)) \<le> 1 \<and>
   list_all (\<lambda>t. t = deadline) (snd (timeout_run deadline False polls))"
  by (cases polls)
     (auto simp: timeout_poll_def dest!: timeout_run_no_timer split: option.splits if_splits prod.splits)

section \<open>Properties\<close>

text \<open>
  C29: Under every interleaving of the two threads the receiver completes only with the value that
  was sent, or with \<^verbatim>\<open>Canceled\<close> after a sender was dropped without sending.
\<close>

theorem completion_result_sound:
  assumes "creach s" and "rx s = RxDone r"
  shows "case r of Inr v \<Rightarrow> sent s = Some v | Inl Canceled \<Rightarrow> sent s = None \<and> tx s \<noteq> TxHeld"
  using creach_inv [OF assms(1)] assms(2)
  by (auto simp: result_ok_def split: sum.splits canceled.splits)

text \<open>
  C30: The completion channel can lose its wake-up. If the sender stores the value and looks for a
  waker between the receiver's look at the slot and its registration, the receiver parks with
  the value in the slot, nobody is left to unpark it, and no step is possible any more.
\<close>

theorem completion_lost_wakeup:
  "\<exists>s. creach s \<and> sent s = Some v \<and> slot (chan s) = SlotValue v \<and> rx s = RxParked \<and> tx s = TxDone \<and>
     (\<forall>s'. \<not> cstep s s')"
proof -
  let ?c = "\<lambda>w. \<lparr>slot = SlotValue v, waker = w, unparked = False\<rparr>"
  let ?st = "\<lambda>c t r. \<lparr>chan = c, tx = t, rx = r, sent = Some v\<rparr>"
  have "creach (pair_init\<lparr>rx := RxRegistering\<rparr>)"
    by (rule creach_step [OF creach_init])
       (auto simp: cstep_def rx_step.simps pair_init_def model_defs)
  then have "creach (?st (?c False) TxStored RxRegistering)"
    by (rule creach_step) (auto simp: cstep_def tx_step.simps pair_init_def model_defs)
  then have "creach (?st (?c False) TxWoken RxRegistering)"
    by (rule creach_step) (auto simp: cstep_def tx_step.simps model_defs)
  then have "creach (?st (?c False) TxDone RxRegistering)"
    by (rule creach_step) (auto simp: cstep_def tx_step.simps model_defs)
  then have "creach (?st (?c True) TxDone RxParked)"
    by (rule creach_step) (auto simp: cstep_def rx_step.simps model_defs)
  moreover have "\<not> cstep (?st (?c True) TxDone RxParked) s'" for s'
    by (auto simp: cstep_def elim!: tx_stepE rx_stepE)
  ultimately show ?thesis by fastforce
qed

text \<open>
  When the sender does not act inside a poll, no wake-up is lost: a parked receiver has been
  unparked already, or the sender still has a wake-up ahead of it and a waker to call.
\<close>

theorem completion_wakes_when_uninterrupted:
  assumes "areach s" and "rx s = RxParked"
  shows "unparked (chan s) \<or>
    waker (chan s) \<and> (tx s = TxHeld \<or> tx s = TxStored \<or> tx s = TxCanceling)"
  using areach_will_wake [OF assms(1)] assms(2) by (simp add: will_wake_def)

lemma areach_parked_example:
  "areach \<lparr>chan = \<lparr>slot = SlotEmpty, waker = True, unparked = False\<rparr>, tx = TxHeld, rx = RxParked,
     sent = None :: nat option\<rparr>"
proof -
  have "areach (pair_init\<lparr>rx := RxRegistering\<rparr> :: nat pair_state)"
    by (rule areach_rx [OF areach_init]) (auto simp: rx_step.simps pair_init_def model_defs)
  then show ?thesis
    by (rule areach_rx) (auto simp: rx_step.simps pair_init_def model_defs)
qed

theorem completion_wakes_when_uninterrupted_witness:
  "waker (chan \<lparr>chan = \<lparr>slot = SlotEmpty :: nat slot, waker = True, unparked = False\<rparr>, tx = TxHeld,
     rx = RxParked, sent = None\<rparr>)"
  using completion_wakes_when_uninterrupted [OF areach_parked_example] by simp

theorem completion_result_sound_witness:
  "\<exists>s :: nat pair_state. creach s \<and> rx s = RxDone (Inr 7) \<and> sent s = Some 7"
proof -
  let ?s = "\<lparr>chan = \<lparr>slot = SlotEmpty, waker = False, unparked = False\<rparr>, tx = TxStored,
     rx = RxDone (Inr 7), sent = Some (7 :: nat)\<rparr>"
  have "creach (pair_init\<lparr>tx := TxStored, sent := Some 7, chan := send_store 7 completion_channel\<rparr>
      :: nat pair_state)"
    by (rule creach_step [OF creach_init]) (auto simp: cstep_def tx_step.simps pair_init_def)
  then have "creach ?s"
    by (rule creach_step) (auto simp: cstep_def rx_step.simps pair_init_def model_defs)
  with completion_result_sound [of ?s "Inr 7"] show ?thesis by auto
qed

text \<open>
  The timeout combinator spawns at most one timer thread, which fires exactly at the
  deadline; it reports a timeout only on a poll at or after the deadline at which the wrapped
  future was still pending, and otherwise the first value the future produces.
\<close>

theorem timeout_run_correct:
  "case timeout_run deadline False polls of (r, timers) \<Rightarrow>
     length timers \<le> 1 \<and> list_all (\<lambda>t. t = deadline) timers \<and>
     (case r of
        None \<Rightarrow> list_all (\<lambda>(inner, now). inner = None \<and> now < deadline) polls
      | Some (Inl _) \<Rightarrow> list_ex (\<lambda>(inner, now). inner = None \<and> deadline \<le> now) polls
      | Some (Inr v) \<Rightarrow> list_ex (\<lambda>(inner, now). inner = Some v) polls)"
  using timeout_run_timers [where deadline = deadline and polls = polls] timeout_run_result [where deadline = deadline and started = False and polls = polls]
  by (simp add: case_prod_beta)

end
