(* ===== verification/Rfc2217.thy ===== *)
theory Rfc2217
  imports Transport_Core
begin

text \<open>
  The RFC 2217 remote serial port: the Telnet codec and streaming decoder
  (\<^verbatim>\<open>cat-transport-rfc2217/src/codec.rs\<close>) and the device-server half of a connection
  (\<^verbatim>\<open>cat-transport-rfc2217/src/server.rs\<close>). Both are pure functions over bytes in the source, and the
  definitions follow them branch by branch.

  The decoder coalesces data bytes per call, so its events depend on how the stream was cut. The
  proofs compare it with \<open>telnet_step\<close>, the same automaton with no buffer and one event per data
  byte, which does not.
\<close>

section \<open>The codec\<close>

definition IAC :: u8 where "IAC = 255"
definition SE :: u8 where "SE = 240"
definition SB :: u8 where "SB = 250"
definition WILL :: u8 where "WILL = 251"
definition WONT :: u8 where "WONT = 252"
definition DO :: u8 where "DO = 253"
definition DONT :: u8 where "DONT = 254"

definition OPT_BINARY :: u8 where "OPT_BINARY = 0"
definition OPT_SUPPRESS_GO_AHEAD :: u8 where "OPT_SUPPRESS_GO_AHEAD = 3"
definition OPT_COM_PORT :: u8 where "OPT_COM_PORT = 44"

definition SIGNATURE :: u8 where "SIGNATURE = 0"
definition SET_BAUDRATE :: u8 where "SET_BAUDRATE = 1"
definition SET_DATASIZE :: u8 where "SET_DATASIZE = 2"
definition SET_PARITY :: u8 where "SET_PARITY = 3"
definition SET_STOPSIZE :: u8 where "SET_STOPSIZE = 4"
definition SET_CONTROL :: u8 where "SET_CONTROL = 5"
definition NOTIFY_MODEMSTATE :: u8 where "NOTIFY_MODEMSTATE = 7"
definition SET_MODEMSTATE_MASK :: u8 where "SET_MODEMSTATE_MASK = 11"
definition SERVER_OFFSET :: u8 where "SERVER_OFFSET = 100"

definition FLOW_NONE :: u8 where "FLOW_NONE = 1"
definition BREAK_ON :: u8 where "BREAK_ON = 5"
definition BREAK_OFF :: u8 where "BREAK_OFF = 6"
definition DTR_REQUEST :: u8 where "DTR_REQUEST = 7"
definition DTR_ON :: u8 where "DTR_ON = 8"
definition DTR_OFF :: u8 where "DTR_OFF = 9"
definition RTS_REQUEST :: u8 where "RTS_REQUEST = 10"
definition RTS_ON :: u8 where "RTS_ON = 11"
definition RTS_OFF :: u8 where "RTS_OFF = 12"

definition CTS :: u8 where "CTS = 0x10"
definition DSR :: u8 where "DSR = 0x20"
definition RI :: u8 where "RI = 0x40"
definition DCD :: u8 where "DCD = 0x80"
definition DELTA_CTS :: u8 where "DELTA_CTS = 0x01"
definition DELTA_DSR :: u8 where "DELTA_DSR = 0x02"
definition DELTA_DCD :: u8 where "DELTA_DCD = 0x08"

lemmas telnet_bytes = IAC_def SE_def SB_def WILL_def WONT_def DO_def DONT_def
lemmas com_port_codes = SIGNATURE_def SET_BAUDRATE_def SET_DATASIZE_def SET_PARITY_def SET_STOPSIZE_def
  SET_CONTROL_def NOTIFY_MODEMSTATE_def SET_MODEMSTATE_MASK_def SERVER_OFFSET_def OPT_COM_PORT_def
lemmas control_values = FLOW_NONE_def BREAK_ON_def BREAK_OFF_def DTR_REQUEST_def DTR_ON_def DTR_OFF_def
  RTS_REQUEST_def RTS_ON_def RTS_OFF_def
lemmas modem_bits = CTS_def DSR_def RI_def DCD_def DELTA_CTS_def DELTA_DSR_def DELTA_DCD_def

definition modem_cts :: "u8 \<Rightarrow> bool" where "modem_cts state \<longleftrightarrow> state AND CTS \<noteq> 0"
definition modem_dsr :: "u8 \<Rightarrow> bool" where "modem_dsr state \<longleftrightarrow> state AND DSR \<noteq> 0"
definition modem_dcd :: "u8 \<Rightarrow> bool" where "modem_dcd state \<longleftrightarrow> state AND DCD \<noteq> 0"

fun escape :: "bytes \<Rightarrow> bytes \<Rightarrow> bytes" where
  "escape [] out = out"
| "escape (b # bs) out = escape bs (if b = IAC then out @ [b] @ [IAC] else out @ [b])"

definition rfc_encode_data :: "bytes \<Rightarrow> bytes" where
  "rfc_encode_data data = escape data []"

definition negotiate :: "u8 \<Rightarrow> u8 \<Rightarrow> bytes" where
  "negotiate verb option = [IAC, verb, option]"

definition com_port :: "u8 \<Rightarrow> bytes \<Rightarrow> bytes" where
  "com_port command params = escape params [IAC, SB, OPT_COM_PORT, command] @ [IAC, SE]"

definition set_control :: "u8 \<Rightarrow> bytes" where
  "set_control value = com_port SET_CONTROL [value]"

definition set_baud_rate :: "u32 \<Rightarrow> bytes" where
  "set_baud_rate baud = com_port SET_BAUDRATE (u32_to_be_bytes baud)"

definition notify_modem_state :: "u8 \<Rightarrow> bytes" where
  "notify_modem_state state = com_port (NOTIFY_MODEMSTATE + SERVER_OFFSET) [state]"

section \<open>The streaming decoder\<close>

datatype event =
    EvData bytes
  | EvComPort u8 bytes
  | EvNegotiate u8 u8
  | EvOther u8 bytes

datatype dec_state = StData | StIac | StVerb u8 | StSubOption | StSubBody | StSubIac

record decoder =
  dec_state :: dec_state
  sub_option :: u8
  sub_body :: bytes
  dec_data :: bytes

definition decoder_new :: decoder where
  "decoder_new = \<lparr>dec_state = StData, sub_option = 0, sub_body = [], dec_data = []\<rparr>"

definition flush_data :: "decoder \<times> event list \<Rightarrow> decoder \<times> event list" where
  "flush_data = (\<lambda>(d, out). if dec_data d \<noteq> [] then (d\<lparr>dec_data := []\<rparr>, out @ [EvData (dec_data d)]) else (d, out))"

definition step :: "u8 \<Rightarrow> decoder \<times> event list \<Rightarrow> decoder \<times> event list" where
  "step b = (\<lambda>(d, out).
     case dec_state d of
       StData \<Rightarrow>
         if b = IAC then (d\<lparr>dec_state := StIac\<rparr>, out) else (d\<lparr>dec_data := dec_data d @ [b]\<rparr>, out)
     | StIac \<Rightarrow>
         if b = IAC then (d\<lparr>dec_data := dec_data d @ [IAC], dec_state := StData\<rparr>, out)
         else if b = WILL \<or> b = WONT \<or> b = DO \<or> b = DONT then (d\<lparr>dec_state := StVerb b\<rparr>, out)
         else if b = SB then (d\<lparr>dec_state := StSubOption\<rparr>, out)
         else (d\<lparr>dec_state := StData\<rparr>, out)
     | StVerb verb \<Rightarrow>
         (case flush_data (d, out) of (d', out') \<Rightarrow>
            (d'\<lparr>dec_state := StData\<rparr>, out' @ [EvNegotiate verb b]))
     | StSubOption \<Rightarrow> (d\<lparr>sub_option := b, sub_body := [], dec_state := StSubBody\<rparr>, out)
     | StSubBody \<Rightarrow>
         if b = IAC then (d\<lparr>dec_state := StSubIac\<rparr>, out) else (d\<lparr>sub_body := sub_body d @ [b]\<rparr>, out)
     | StSubIac \<Rightarrow>
         if b = IAC then (d\<lparr>sub_body := sub_body d @ [IAC], dec_state := StSubBody\<rparr>, out)
         else if b = SE then
           (case flush_data (d, out) of (d', out') \<Rightarrow>
              (d'\<lparr>sub_body := [], dec_state := StData\<rparr>,
               out' @ (if sub_option d' = OPT_COM_PORT
                       then (case sub_body d' of [] \<Rightarrow> [] | command # params \<Rightarrow> [EvComPort command params])
                       else [EvOther (sub_option d') (sub_body d')])))
         else (d\<lparr>sub_body := [], dec_state := StData\<rparr>, out))"

definition push :: "bytes \<Rightarrow> decoder \<times> event list \<Rightarrow> decoder \<times> event list" where
  "push bytes s = flush_data (fold step bytes s)"

section \<open>The device server\<close>

datatype peer_event = PeerData bytes | PeerDtr bool | PeerRts bool | PeerBreak bool

record rfc2217_peer =
  peer_decoder :: decoder
  dtr :: bool
  rts :: bool
  modem_mask :: u8
  last_notified :: "u8 option"

definition peer_new :: rfc2217_peer where
  "peer_new = \<lparr>peer_decoder = decoder_new, dtr = False, rts = True, modem_mask = 0, last_notified = None\<rparr>"

definition answer_negotiation :: "u8 \<Rightarrow> u8 \<Rightarrow> bytes" where
  "answer_negotiation verb option =
     (let supported = (option = OPT_BINARY \<or> option = OPT_SUPPRESS_GO_AHEAD \<or> option = OPT_COM_PORT)
      in if verb = WILL then negotiate (if supported then DO else DONT) option
         else if verb = DO then negotiate (if supported then WILL else WONT) option
         else [])"

definition control_echo :: "u8 \<Rightarrow> bytes" where
  "control_echo value = com_port (SET_CONTROL + SERVER_OFFSET) [value]"

definition handle_com_port :: "u8 \<Rightarrow> bytes \<Rightarrow> rfc2217_peer \<Rightarrow> rfc2217_peer \<times> peer_event list \<times> bytes" where
  "handle_com_port command params p =
     (if command = SET_CONTROL then
        (case params of
           [] \<Rightarrow> (p, [], [])
         | value # _ \<Rightarrow>
             if value = DTR_ON \<or> value = DTR_OFF then
               (p\<lparr>dtr := (value = DTR_ON)\<rparr>, [PeerDtr (value = DTR_ON)], control_echo value)
             else if value = RTS_ON \<or> value = RTS_OFF then
               (p\<lparr>rts := (value = RTS_ON)\<rparr>, [PeerRts (value = RTS_ON)], control_echo value)
             else if value = BREAK_ON \<or> value = BREAK_OFF then
               (p, [PeerBreak (value = BREAK_ON)], control_echo value)
             else if value = DTR_REQUEST then (p, [], control_echo (if dtr p then DTR_ON else DTR_OFF))
             else if value = RTS_REQUEST then (p, [], control_echo (if rts p then RTS_ON else RTS_OFF))
             else (p, [], control_echo FLOW_NONE))
      else if command = SET_MODEMSTATE_MASK then
        (case params of
           [] \<Rightarrow> (p, [], [])
         | m # _ \<Rightarrow> (p\<lparr>modem_mask := m\<rparr>, [], com_port (SET_MODEMSTATE_MASK + SERVER_OFFSET) [m]))
      else if command = SET_BAUDRATE \<or> command = SET_DATASIZE \<or> command = SET_PARITY \<or> command = SET_STOPSIZE then
        (p, [], com_port (command + SERVER_OFFSET) params)
      else if command = SIGNATURE then (p, [], com_port (SIGNATURE + SERVER_OFFSET) params)
      else (p, [], []))"

definition handle_event :: "event \<Rightarrow> rfc2217_peer \<Rightarrow> rfc2217_peer \<times> peer_event list \<times> bytes" where
  "handle_event ev p =
     (case ev of
        EvData data \<Rightarrow> (p, [PeerData data], [])
      | EvNegotiate verb option \<Rightarrow> (p, [], answer_negotiation verb option)
      | EvComPort command params \<Rightarrow> handle_com_port command params p
      | EvOther _ _ \<Rightarrow> (p, [], []))"

fun handle_events :: "event list \<Rightarrow> rfc2217_peer \<Rightarrow> rfc2217_peer \<times> peer_event list \<times> bytes" where
  "handle_events [] p = (p, [], [])"
| "handle_events (e # es) p =
     (case handle_event e p of (p1, events, reply) \<Rightarrow>
        (case handle_events es p1 of (p2, events', reply') \<Rightarrow> (p2, events @ events', reply @ reply')))"

definition peer_push :: "bytes \<Rightarrow> rfc2217_peer \<Rightarrow> rfc2217_peer \<times> peer_event list \<times> bytes" where
  "peer_push bytes p =
     (case push bytes (peer_decoder p, []) of (d, decoded) \<Rightarrow>
        handle_events decoded (p\<lparr>peer_decoder := d\<rparr>))"

definition modem_state :: "u8 \<Rightarrow> rfc2217_peer \<Rightarrow> bytes option \<times> rfc2217_peer" where
  "modem_state state p =
     (if modem_mask p = 0 then (None, p)
      else let masked = state AND modem_mask p;
               previous = map_option (\<lambda>s. s AND modem_mask p) (last_notified p)
           in if previous = Some masked then (None, p)
              else let out = (case previous of
                                None \<Rightarrow> masked
                              | Some before \<Rightarrow>
                                  let changed = before XOR masked;
                                      o1 = (if changed AND CTS \<noteq> 0 then masked OR DELTA_CTS else masked);
                                      o2 = (if changed AND DSR \<noteq> 0 then o1 OR DELTA_DSR else o1)
                                  in if changed AND DCD \<noteq> 0 then o2 OR DELTA_DCD else o2)
                   in (Some (notify_modem_state out), p\<lparr>last_notified := Some masked\<rparr>))"

declare negotiate_def [wire_defs] answer_negotiation_def [model_defs] control_echo_def [model_defs]
  handle_com_port_def [model_defs] handle_event_def [model_defs] peer_push_def [model_defs]
  modem_state_def [model_defs] push_def [wire_defs] step_def [wire_defs] flush_data_def [wire_defs]
  com_port_def [wire_defs] set_control_def [wire_defs] notify_modem_state_def [wire_defs]
  decoder_new_def [wire_defs] peer_new_def [model_defs]

section \<open>The unbuffered decoder\<close>

type_synonym core = "dec_state \<times> u8 \<times> bytes"

fun telnet_step :: "u8 \<Rightarrow> core \<Rightarrow> core \<times> event list" where
  "telnet_step b (StData, opt, body) =
     (if b = IAC then ((StIac, opt, body), []) else ((StData, opt, body), [EvData [b]]))"
| "telnet_step b (StIac, opt, body) =
     (if b = IAC then ((StData, opt, body), [EvData [IAC]])
      else if b = WILL \<or> b = WONT \<or> b = DO \<or> b = DONT then ((StVerb b, opt, body), [])
      else if b = SB then ((StSubOption, opt, body), [])
      else ((StData, opt, body), []))"
| "telnet_step b (StVerb verb, opt, body) = ((StData, opt, body), [EvNegotiate verb b])"
| "telnet_step b (StSubOption, opt, body) = ((StSubBody, b, []), [])"
| "telnet_step b (StSubBody, opt, body) =
     (if b = IAC then ((StSubIac, opt, body), []) else ((StSubBody, opt, body @ [b]), []))"
| "telnet_step b (StSubIac, opt, body) =
     (if b = IAC then ((StSubBody, opt, body @ [IAC]), [])
      else if b = SE then
        ((StData, opt, []),
         if opt = OPT_COM_PORT then (case body of [] \<Rightarrow> [] | command # params \<Rightarrow> [EvComPort command params])
         else [EvOther opt body])
      else ((StData, opt, []), []))"

fun telnet_run :: "bytes \<Rightarrow> core \<Rightarrow> core \<times> event list" where
  "telnet_run [] c = (c, [])"
| "telnet_run (b # bs) c =
     (case telnet_step b c of (c1, es) \<Rightarrow> (case telnet_run bs c1 of (c2, es') \<Rightarrow> (c2, es @ es')))"

text \<open>A decoder's events with every data run cut into single bytes, the unflushed run included.\<close>

definition spread_event :: "event \<Rightarrow> event list" where
  "spread_event e = (case e of EvData bs \<Rightarrow> map (\<lambda>b. EvData [b]) bs | _ \<Rightarrow> [e])"

definition spread :: "event list \<Rightarrow> event list" where
  "spread es = concat (map spread_event es)"

definition core_of :: "decoder \<Rightarrow> core" where
  "core_of d = (dec_state d, sub_option d, sub_body d)"

definition view :: "decoder \<times> event list \<Rightarrow> event list" where
  "view s = spread (snd s) @ map (\<lambda>b. EvData [b]) (dec_data (fst s))"

lemma spread_append [simp]: "spread (a @ b) = spread a @ spread b"
  by (simp add: spread_def)

lemma spread_simps [simp]:
  "spread [] = []" "spread (e # es) = spread_event e @ spread es"
  by (simp_all add: spread_def)

lemma spread_event_simps [simp]:
  "spread_event (EvData bs) = map (\<lambda>b. EvData [b]) bs"
  "spread_event (EvComPort c ps) = [EvComPort c ps]"
  "spread_event (EvNegotiate v opt) = [EvNegotiate v opt]"
  "spread_event (EvOther opt bs) = [EvOther opt bs]"
  by (simp_all add: spread_event_def)

lemma flush_data_refines [simp]:
  "core_of (fst (flush_data s)) = core_of (fst s)" "view (flush_data s) = view s"
  "dec_data (fst (flush_data s)) = []"
  by (cases s; simp add: flush_data_def core_of_def view_def)+

lemma step_refines:
  "core_of (fst (step b s)) = fst (telnet_step b (core_of (fst s))) \<and>
   view (step b s) = view s @ snd (telnet_step b (core_of (fst s)))"
proof -
  obtain d out where s: "s = (d, out)" by fastforce
  show ?thesis
    unfolding s
    by (cases "dec_state d")
       (simp_all add: step_def flush_data_def core_of_def view_def split: list.splits)
qed

lemma fold_step_refines:
  "core_of (fst (fold step bs s)) = fst (telnet_run bs (core_of (fst s))) \<and>
   view (fold step bs s) = view s @ snd (telnet_run bs (core_of (fst s)))"
proof (induction bs arbitrary: s)
  case (Cons b bs)
  then show ?case
    using step_refines [of b s] by (simp add: case_prod_beta)
qed simp

lemma push_refines:
  "core_of (fst (push bs s)) = fst (telnet_run bs (core_of (fst s)))"
  "view (push bs s) = view s @ snd (telnet_run bs (core_of (fst s)))"
  using fold_step_refines [of bs s] by (simp_all add: push_def)

lemma telnet_run_append:
  "telnet_run (a @ b) c =
     (fst (telnet_run b (fst (telnet_run a c))), snd (telnet_run a c) @ snd (telnet_run b (fst (telnet_run a c))))"
  by (induction a arbitrary: c) (simp_all add: case_prod_beta)

lemma push_chunks_refines:
  "core_of (fst (fold push chunks s)) = fst (telnet_run (concat chunks) (core_of (fst s))) \<and>
   view (fold push chunks s) = view s @ snd (telnet_run (concat chunks) (core_of (fst s)))"
  by (induction chunks arbitrary: s) (simp_all add: push_refines telnet_run_append)

lemma push_chunks_flushed:
  "dec_data (fst s) = [] \<Longrightarrow> dec_data (fst (fold push chunks s)) = []"
  by (induction chunks arbitrary: s) (simp_all add: push_def)

lemma push_chunks_events:
  "spread (snd (fold push chunks (decoder_new, []))) = snd (telnet_run (concat chunks) (StData, 0, []))"
  using push_chunks_refines [of chunks "(decoder_new, [])"] push_chunks_flushed [of "(decoder_new, [])" chunks]
  by (simp add: view_def core_of_def decoder_new_def)

section \<open>Messages\<close>

text \<open>What either end writes: data, a negotiation, or a Com Port command.\<close>

datatype wire_msg = MsgData bytes | MsgNegotiate u8 u8 | MsgComPort u8 bytes

fun encode_msg :: "wire_msg \<Rightarrow> bytes" where
  "encode_msg (MsgData bs) = rfc_encode_data bs"
| "encode_msg (MsgNegotiate verb opt) = negotiate verb opt"
| "encode_msg (MsgComPort command params) = com_port command params"

fun event_of :: "wire_msg \<Rightarrow> event" where
  "event_of (MsgData bs) = EvData bs"
| "event_of (MsgNegotiate verb opt) = EvNegotiate verb opt"
| "event_of (MsgComPort command params) = EvComPort command params"

text \<open>The command code of a Com Port message is never the escape byte.\<close>

fun msg_ok :: "wire_msg \<Rightarrow> bool" where
  "msg_ok (MsgData bs) = True"
| "msg_ok (MsgNegotiate verb opt) = (verb = WILL \<or> verb = WONT \<or> verb = DO \<or> verb = DONT)"
| "msg_ok (MsgComPort command params) = (command \<noteq> IAC)"

lemma escape_out: "escape bs out = out @ escape bs []"
proof (induction bs arbitrary: out)
  case (Cons b bs)
  show ?case
    by (simp add: Cons.IH [of "out @ _"] Cons.IH [of "[_]"] Cons.IH [of "[_, _]"])
qed simp

lemma telnet_run_escape_data:
  "telnet_run (escape bs []) (StData, opt, body) = ((StData, opt, body), map (\<lambda>b. EvData [b]) bs)"
proof (induction bs)
  case (Cons b bs)
  then show ?case
    by (simp add: escape_out [of bs "[_]"] escape_out [of bs "[_, _]"])
qed simp

lemma telnet_run_escape_body:
  "telnet_run (escape bs []) (StSubBody, opt, body) = ((StSubBody, opt, body @ bs), [])"
proof (induction bs arbitrary: body)
  case (Cons b bs)
  then show ?case
    by (simp add: escape_out [of bs "[_]"] escape_out [of bs "[_, _]"])
qed simp

lemma telnet_run_msg:
  assumes "msg_ok m"
  shows "\<exists>opt' body'. telnet_run (encode_msg m) (StData, opt, body) = ((StData, opt', body'), spread [event_of m])"
proof (cases m)
  case (MsgData bs)
  then show ?thesis by (simp add: rfc_encode_data_def telnet_run_escape_data)
next
  case (MsgNegotiate verb opt)
  with assms show ?thesis by (auto simp: negotiate_def telnet_bytes)
next
  case (MsgComPort command params)
  have "telnet_run [IAC, SB, OPT_COM_PORT, command] (StData, opt, body) = ((StSubBody, OPT_COM_PORT, [command]), [])"
    using assms MsgComPort by (simp add: telnet_bytes)
  moreover have "com_port command params =
      [IAC, SB, OPT_COM_PORT, command] @ escape params [] @ [IAC, SE]"
    unfolding com_port_def by (subst escape_out) simp
  moreover have "telnet_run [IAC, SE] (StSubBody, OPT_COM_PORT, [command] @ params) =
      ((StData, OPT_COM_PORT, []), [EvComPort command params])"
    by (simp add: telnet_bytes)
  ultimately show ?thesis
    using MsgComPort
    by (simp add: telnet_run_append [of "[_, _, _, _]"] telnet_run_append [of "escape _ _"]
        telnet_run_escape_body del: telnet_run.simps append.append_Cons)
qed

lemma telnet_run_msgs:
  "list_all msg_ok ms \<Longrightarrow>
   \<exists>opt' body'. telnet_run (concat (map encode_msg ms)) (StData, opt, body) =
     ((StData, opt', body'), spread (map event_of ms))"
proof (induction ms arbitrary: opt body)
  case (Cons m ms)
  then obtain opt1 body1 where
    "telnet_run (encode_msg m) (StData, opt, body) = ((StData, opt1, body1), spread [event_of m])"
    using telnet_run_msg by fastforce
  moreover from Cons obtain opt2 body2 where
    "telnet_run (concat (map encode_msg ms)) (StData, opt1, body1) = ((StData, opt2, body2), spread (map event_of ms))"
    by fastforce
  ultimately show ?case by (simp add: telnet_run_append)
qed simp

section \<open>Lemmas on the device server\<close>

text \<open>What a host program that follows the events believes about a line.\<close>

definition dtr_after :: "peer_event list \<Rightarrow> bool \<Rightarrow> bool" where
  "dtr_after events v = fold (\<lambda>e v. case e of PeerDtr b \<Rightarrow> b | _ \<Rightarrow> v) events v"

definition rts_after :: "peer_event list \<Rightarrow> bool \<Rightarrow> bool" where
  "rts_after events v = fold (\<lambda>e v. case e of PeerRts b \<Rightarrow> b | _ \<Rightarrow> v) events v"

lemma lines_after_append [simp]:
  "dtr_after (a @ b) v = dtr_after b (dtr_after a v)" "rts_after (a @ b) v = rts_after b (rts_after a v)"
  by (simp_all add: dtr_after_def rts_after_def)

lemma handle_com_port_lines:
  "handle_com_port command params p = (p', events, reply) \<Longrightarrow>
     dtr p' = dtr_after events (dtr p) \<and> rts p' = rts_after events (rts p) \<and> peer_decoder p' = peer_decoder p"
  by (auto simp: handle_com_port_def dtr_after_def rts_after_def split: if_splits list.splits)

lemma handle_event_lines:
  "handle_event e p = (p', events, reply) \<Longrightarrow>
     dtr p' = dtr_after events (dtr p) \<and> rts p' = rts_after events (rts p) \<and> peer_decoder p' = peer_decoder p"
  using handle_com_port_lines
  by (auto simp: handle_event_def dtr_after_def rts_after_def split: event.splits)

lemma handle_events_lines:
  "handle_events es p = (p', events, reply) \<Longrightarrow>
     dtr p' = dtr_after events (dtr p) \<and> rts p' = rts_after events (rts p) \<and> peer_decoder p' = peer_decoder p"
proof (induction es arbitrary: p events reply)
  case Nil
  then show ?case by (auto simp: dtr_after_def rts_after_def)
next
  case (Cons e es)
  then show ?case
    using handle_event_lines [of e p] by (fastforce split: prod.splits)
qed

section \<open>Properties of the remote serial port\<close>

text \<open>
  C18: The decoder is independent of chunking: however a byte stream is cut into reads, the events
  are the same up to where runs of data are cut, and so is the state that is carried over.
\<close>

theorem decoder_chunking_invariant:
  "spread (snd (fold push chunks (decoder_new, []))) = spread (snd (push (concat chunks) (decoder_new, []))) \<and>
   core_of (fst (fold push chunks (decoder_new, []))) = core_of (fst (push (concat chunks) (decoder_new, [])))"
  using push_chunks_events [of chunks] push_chunks_events [of "[concat chunks]"]
    push_chunks_refines [of chunks "(decoder_new, [])"] push_refines(1) [of "concat chunks" "(decoder_new, [])"]
  by simp

text \<open>
  C20: Whatever sequence of data, negotiations and Com Port commands one end writes, the other end
  decodes exactly that sequence, with escape bytes in data and parameters restored, for every way
  the network cuts the stream, up to where a run of data bytes is divided into events. Negotiations use the four verbs of
  the protocol, and no command code is the escape byte.
\<close>

theorem rfc2217_stream_roundtrip:
  assumes "list_all msg_ok ms" and "concat chunks = concat (map encode_msg ms)"
  shows "spread (snd (fold push chunks (decoder_new, []))) = spread (map event_of ms)"
  using telnet_run_msgs [OF assms(1), of 0 "[]"] assms(2) by (auto simp: push_chunks_events)

theorem rfc2217_stream_roundtrip_witness:
  "spread (snd (fold push [[70, 255], [255, 59, 255, 250, 44, 5], [8, 255, 240]] (decoder_new, []))) =
     [EvData [70], EvData [255], EvData [59], EvComPort 5 [8]]"
proof -
  have "spread (snd (fold push [[70, 255], [255, 59, 255, 250, 44, 5], [8, 255, 240]] (decoder_new, []))) =
      spread (map event_of [MsgData [70, 255, 59], MsgComPort 5 [8]])"
    by (rule rfc2217_stream_roundtrip)
       (simp_all add: telnet_bytes rfc_encode_data_def com_port_def OPT_COM_PORT_def)
  then show ?thesis by (simp only:) simp
qed

text \<open>
  The device server's line states and its event reports agree: after any input, DTR and RTS
  are what the reported events say last, so a transmitter keyed from DTR is keyed only by a
  reported event; a new connection starts with DTR low and RTS high.
\<close>

theorem peer_lines_follow_events:
  "(case peer_push bs p of (p', events, reply) \<Rightarrow>
      dtr p' = dtr_after events (dtr p) \<and> rts p' = rts_after events (rts p)) \<and>
   \<not> dtr peer_new \<and> rts peer_new"
proof -
  obtain d decoded where d: "push bs (peer_decoder p, []) = (d, decoded)" by fastforce
  obtain p' events reply where p': "handle_events decoded (p\<lparr>peer_decoder := d\<rparr>) = (p', events, reply)"
    by (metis prod_cases3)
  from handle_events_lines [OF p'] show ?thesis
    by (simp add: peer_push_def d p' peer_new_def)
qed

text \<open>
  Every \<^verbatim>\<open>WILL\<close> and \<^verbatim>\<open>DO\<close> is answered with one negotiation for the same option, an agreement
  exactly for the three supported options and a refusal otherwise; \<^verbatim>\<open>WONT\<close> and \<^verbatim>\<open>DONT\<close> get no
  answer, and so no refusal is ever answered in turn.
\<close>

theorem negotiation_answered_once:
  "(answer_negotiation WILL option =
      negotiate (if option \<in> {OPT_BINARY, OPT_SUPPRESS_GO_AHEAD, OPT_COM_PORT} then DO else DONT) option) \<and>
   (answer_negotiation DO option =
      negotiate (if option \<in> {OPT_BINARY, OPT_SUPPRESS_GO_AHEAD, OPT_COM_PORT} then WILL else WONT) option) \<and>
   answer_negotiation WONT option = [] \<and> answer_negotiation DONT option = []"
  by (simp add: answer_negotiation_def telnet_bytes)

text \<open>
  A modem-state notification is sent exactly when the client subscribed to some line and the
  subscribed levels differ from those last announced; what is announced is remembered, so the same
  levels are not announced twice.
\<close>

theorem modem_state_announces_changes:
  "(case modem_state state p of
      (None, p') \<Rightarrow> p' = p \<and>
        (modem_mask p = 0 \<or> map_option (\<lambda>s. s AND modem_mask p) (last_notified p) = Some (state AND modem_mask p))
    | (Some _, p') \<Rightarrow> modem_mask p > 0 \<and> p' = p\<lparr>last_notified := Some (state AND modem_mask p)\<rparr>) \<and>
   fst (modem_state state (snd (modem_state state p))) = None"
  by (auto simp: modem_state_def Let_def word_neq_0_conv and.assoc split: option.splits)

text \<open>
  A client that changes its subscription is not told where the newly subscribed line stands:
  after an announcement to a subscriber of CTS, the first report after it subscribes to DSR instead
  sends nothing when DSR is low.
\<close>

theorem modem_state_silent_after_resubscription:
  "\<exists>p1 p2. fst (peer_push (com_port SET_MODEMSTATE_MASK [CTS]) peer_new) = p1 \<and>
     fst (modem_state 0x10 p1) = Some (notify_modem_state 0x10) \<and>
     fst (peer_push (com_port SET_MODEMSTATE_MASK [DSR]) (snd (modem_state 0x10 p1))) = p2 \<and>
     modem_mask p2 = DSR \<and> fst (modem_state 0x10 p2) = None"
proof -
  have step: "fst (peer_push (com_port SET_MODEMSTATE_MASK [m]) p) = p\<lparr>modem_mask := m, peer_decoder :=
      \<lparr>dec_state = StData, sub_option = 44, sub_body = [], dec_data = []\<rparr>\<rparr>"
    if "dec_state (peer_decoder p) = StData" "dec_data (peer_decoder p) = []" "m < 0x40" for m p
  proof -
    from that(3) have "m \<noteq> 255" by auto
    with that show ?thesis
      by (simp add: peer_push_def push_def com_port_def telnet_bytes com_port_codes step_def flush_data_def
          handle_event_def handle_com_port_def)
  qed
  show ?thesis
    by (simp add: step peer_new_def decoder_new_def modem_state_def modem_bits)
qed

end
