(* ===== verification/Cat_Client.thy ===== *)
theory Cat_Client
  imports Transport_Core Civ
begin

text \<open>
  The client, \<^verbatim>\<open>cat-client/src/client.rs\<close>: validates a command code against the table, encodes the
  request with the wire format, and runs it on a \<^verbatim>\<open>CatSession\<close>. The session is the record of its
  methods, so every session of the development can be plugged in. Also
  \<^verbatim>\<open>String::from_utf8_lossy\<close>, through which the text queries pass a response.
\<close>

section \<open>Lossy decoding\<close>

text \<open>
  The length of the ill-formed prefix that one replacement character stands for: the longest start of
  a well-formed sequence, or one byte.
\<close>

definition utf8_bad_len :: "bytes \<Rightarrow> nat" where
  "utf8_bad_len bs =
     (case bs of
        [] \<Rightarrow> 0
      | a # r \<Rightarrow>
          if 0xE0 \<le> a \<and> a \<le> 0xEF then
            (case r of b # _ \<Rightarrow> if utf8_second3 a b then 2 else 1 | _ \<Rightarrow> 1)
          else if 0xF0 \<le> a \<and> a \<le> 0xF4 then
            (case r of
               b # c # _ \<Rightarrow> if utf8_second4 a b then (if utf8_cont c then 3 else 2) else 1
             | b # _ \<Rightarrow> if utf8_second4 a b then 2 else 1
             | _ \<Rightarrow> 1)
          else 1)"

definition REPLACEMENT :: bytes where "REPLACEMENT = [0xEF, 0xBF, 0xBD]"

lemma utf8_bad_len_pos: "bs \<noteq> [] \<Longrightarrow> 0 < utf8_bad_len bs"
  by (auto simp: utf8_bad_len_def split: list.splits)

function from_utf8_lossy :: "bytes \<Rightarrow> bytes" where
  "from_utf8_lossy bs =
     (if bs = [] then []
      else if utf8_width bs = 0 then REPLACEMENT @ from_utf8_lossy (drop (utf8_bad_len bs) bs)
      else take (utf8_width bs) bs @ from_utf8_lossy (drop (utf8_width bs) bs))"
  by pat_completeness auto
termination
  by (relation "measure length") (auto simp: utf8_bad_len_pos)

declare from_utf8_lossy.simps [simp del]

section \<open>The client\<close>

datatype 'e client_error =
    ClientUnknownCommand bytes
  | CommandNotReadable bytes
  | CommandNotWritable bytes
  | ClientProtocolError protocol_error_kind
  | ClientTransport 'e

record ('s, 'id, 'code) cat_client =
  cl_session :: 's
  cl_table :: "('id, 'code) command_table"
  cl_format :: "('id, 'code) wire_format"

definition client_with_format :: "'s \<Rightarrow> ('id, 'code) command_table \<Rightarrow> ('id, 'code) wire_format \<Rightarrow>
    ('s, 'id, 'code) cat_client" where
  "client_with_format session table format = \<lparr>cl_session = session, cl_table = table, cl_format = format\<rparr>"

definition set_format :: "('id, 'code) wire_format \<Rightarrow> ('s, 'id, 'code) cat_client \<Rightarrow> ('s, 'id, 'code) cat_client" where
  "set_format format cl = cl\<lparr>cl_format := format\<rparr>"

definition validate_code :: "('s, 'id, 'code) cat_client \<Rightarrow> 'code \<Rightarrow>
    'e client_error + ('id, 'code) command_definition" where
  "validate_code cl code =
     (case table_find (cl_table cl) code of
        Some d \<Rightarrow> Inr d
      | None \<Rightarrow> Inl (ClientUnknownCommand (code_debug (cl_format cl) code)))"

definition execute_query_bytes :: "('s, 'e) cat_session \<Rightarrow> bytes \<Rightarrow> ('s, 'id, 'code) cat_client \<Rightarrow>
    (('s, 'id, 'code) cat_client, 'e client_error, bytes) call" where
  "execute_query_bytes S wire cl =
     (case ses_execute S wire [] (cl_session cl) of
        None \<Rightarrow> None
      | Some (Inl e, _, s) \<Rightarrow> Some (Inl (ClientTransport e), cl\<lparr>cl_session := s\<rparr>)
      | Some (Inr disposition, response, s) \<Rightarrow>
          (case disposition of
             ProtocolError kind \<Rightarrow> Some (Inl (ClientProtocolError kind), cl\<lparr>cl_session := s\<rparr>)
           | _ \<Rightarrow> Some (Inr response, cl\<lparr>cl_session := s\<rparr>)))"

definition execute_query :: "('s, 'e) cat_session \<Rightarrow> bytes \<Rightarrow> ('s, 'id, 'code) cat_client \<Rightarrow>
    (('s, 'id, 'code) cat_client, 'e client_error, bytes) call" where
  "execute_query S wire cl =
     map_option (\<lambda>(r, cl'). (map_sum id from_utf8_lossy r, cl')) (execute_query_bytes S wire cl)"

definition query :: "('s, 'e) cat_session \<Rightarrow> 'code \<Rightarrow> ('s, 'id, 'code) cat_client \<Rightarrow>
    (('s, 'id, 'code) cat_client, 'e client_error, bytes) call" where
  "query S code cl =
     (case validate_code cl code of
        Inl e \<Rightarrow> Some (Inl e, cl)
      | Inr d \<Rightarrow>
          if \<not> readable d then Some (Inl (CommandNotReadable (code_debug (cl_format cl) code)), cl)
          else execute_query S (encode_request (cl_format cl) code []) cl)"

definition query_with_param :: "('s, 'e) cat_session \<Rightarrow> 'code \<Rightarrow> bytes \<Rightarrow> ('s, 'id, 'code) cat_client \<Rightarrow>
    (('s, 'id, 'code) cat_client, 'e client_error, bytes) call" where
  "query_with_param S code params cl =
     (case validate_code cl code of
        Inl e \<Rightarrow> Some (Inl e, cl)
      | Inr d \<Rightarrow>
          if \<not> readable d then Some (Inl (CommandNotReadable (code_debug (cl_format cl) code)), cl)
          else execute_query S (encode_request (cl_format cl) code params) cl)"

definition client_set :: "('s, 'e) cat_session \<Rightarrow> 'code \<Rightarrow> bytes \<Rightarrow> ('s, 'id, 'code) cat_client \<Rightarrow>
    (('s, 'id, 'code) cat_client, 'e client_error, unit) call" where
  "client_set S code params cl =
     (case validate_code cl code of
        Inl e \<Rightarrow> Some (Inl e, cl)
      | Inr d \<Rightarrow>
          if \<not> writable d then Some (Inl (CommandNotWritable (code_debug (cl_format cl) code)), cl)
          else (case ses_send S (encode_request (cl_format cl) code params) (cl_session cl) of
                  None \<Rightarrow> None
                | Some (Inl e, s) \<Rightarrow> Some (Inl (ClientTransport e), cl\<lparr>cl_session := s\<rparr>)
                | Some (Inr _, s) \<Rightarrow> Some (Inr (), cl\<lparr>cl_session := s\<rparr>)))"

definition query_bytes :: "('s, 'e) cat_session \<Rightarrow> 'code \<Rightarrow> ('s, 'id, 'code) cat_client \<Rightarrow>
    (('s, 'id, 'code) cat_client, 'e client_error, bytes) call" where
  "query_bytes S code cl =
     (case validate_code cl code of
        Inl e \<Rightarrow> Some (Inl e, cl)
      | Inr d \<Rightarrow>
          if \<not> readable d then Some (Inl (CommandNotReadable (def_name d)), cl)
          else execute_query_bytes S (encode_request (cl_format cl) code []) cl)"

definition query_with_bytes :: "('s, 'e) cat_session \<Rightarrow> 'code \<Rightarrow> bytes \<Rightarrow> ('s, 'id, 'code) cat_client \<Rightarrow>
    (('s, 'id, 'code) cat_client, 'e client_error, bytes) call" where
  "query_with_bytes S code params cl =
     (case validate_code cl code of
        Inl e \<Rightarrow> Some (Inl e, cl)
      | Inr d \<Rightarrow>
          if \<not> readable d then Some (Inl (CommandNotReadable (def_name d)), cl)
          else execute_query_bytes S (encode_request (cl_format cl) code params) cl)"

definition set_bytes :: "('s, 'e) cat_session \<Rightarrow> 'code \<Rightarrow> bytes \<Rightarrow> ('s, 'id, 'code) cat_client \<Rightarrow>
    (('s, 'id, 'code) cat_client, 'e client_error, bytes) call" where
  "set_bytes S code params cl =
     (case validate_code cl code of
        Inl e \<Rightarrow> Some (Inl e, cl)
      | Inr d \<Rightarrow>
          if \<not> writable d then Some (Inl (CommandNotWritable (def_name d)), cl)
          else execute_query_bytes S (encode_request (cl_format cl) code params) cl)"

lemmas client_defs = query_def query_with_param_def client_set_def query_bytes_def query_with_bytes_def
  set_bytes_def validate_code_def

section \<open>Lemmas\<close>

lemma utf8_width_take:
  assumes "utf8_width bs \<noteq> 0"
  shows "utf8_width (take (utf8_width bs) bs) = utf8_width bs"
proof (cases bs)
  case (Cons a r)
  with assms show ?thesis
    by (cases r rule: list_upto3_cases) (simp_all add: utf8_width_def split: if_split_asm)
qed (use assms in \<open>simp add: utf8_width_def\<close>)

lemma utf8_valid_take_width:
  assumes "utf8_width bs \<noteq> 0"
  shows "utf8_valid (take (utf8_width bs) bs)"
proof -
  from assms have "bs \<noteq> []" by (auto simp: utf8_width_def)
  with assms show ?thesis
    using utf8_width_take [OF assms] by (subst utf8_valid.simps) simp
qed

lemma utf8_valid_REPLACEMENT: "utf8_valid REPLACEMENT"
  by (subst utf8_valid.simps)
     (simp add: REPLACEMENT_def utf8_width_def utf8_second3_def utf8_cont_def)

lemma from_utf8_lossy_Nil [simp]: "from_utf8_lossy [] = []"
  by (simp add: from_utf8_lossy.simps)

lemma from_utf8_lossy_bad:
  "bs \<noteq> [] \<Longrightarrow> utf8_width bs = 0 \<Longrightarrow>
     from_utf8_lossy bs = REPLACEMENT @ from_utf8_lossy (drop (utf8_bad_len bs) bs)"
  by (subst from_utf8_lossy.simps) (simp only: if_False if_True refl)

lemma from_utf8_lossy_good:
  "utf8_width bs \<noteq> 0 \<Longrightarrow>
     from_utf8_lossy bs = take (utf8_width bs) bs @ from_utf8_lossy (drop (utf8_width bs) bs)"
  by (cases "bs = []") (simp_all add: utf8_width_def from_utf8_lossy.simps [of bs])

lemma utf8_valid_lossy: "utf8_valid (from_utf8_lossy bs)"
proof (induction bs rule: from_utf8_lossy.induct)
  case (1 bs)
  consider "bs = []" | "bs \<noteq> []" "utf8_width bs = 0" | "bs \<noteq> []" "utf8_width bs \<noteq> 0" by blast
  then show ?case
  proof cases
    case 2
    with "1.IH"(1) [OF 2] show ?thesis
      using from_utf8_lossy_bad [OF 2] utf8_valid_append [OF utf8_valid_REPLACEMENT] by metis
  next
    case 3
    with "1.IH"(2) [OF 3] show ?thesis
      using from_utf8_lossy_good [OF 3(2)] utf8_valid_append [OF utf8_valid_take_width [OF 3(2)]] by metis
  qed simp
qed

lemma from_utf8_lossy_valid: "utf8_valid bs \<Longrightarrow> from_utf8_lossy bs = bs"
proof (induction bs rule: from_utf8_lossy.induct)
  case (1 bs)
  show ?case
  proof (cases "bs = []")
    case False
    with "1.prems" have w: "utf8_width bs \<noteq> 0" "utf8_valid (drop (utf8_width bs) bs)"
      using utf8_valid_nonempty [of bs] by blast+
    with "1.IH"(2) [OF False w] show ?thesis
      using from_utf8_lossy_good [OF w(1)] append_take_drop_id by metis
  qed simp
qed

lemma from_utf8_lossy_fixed_iff: "from_utf8_lossy bs = bs \<longleftrightarrow> utf8_valid bs"
  using utf8_valid_lossy [of bs] from_utf8_lossy_valid [of bs] by auto

context cat_session_contract
begin

lemma execute_query_bytes_no_protocol_error:
  "execute_query_bytes S wire cl \<noteq> Some (Inl (ClientProtocolError k), cl')"
  using never_protocol_error
  by (auto simp: execute_query_bytes_def split: option.splits sum.splits response_disposition.splits)

lemma query_with_bytes_no_protocol_error:
  "query_with_bytes S code params cl \<noteq> Some (Inl (ClientProtocolError k), cl')"
  using execute_query_bytes_no_protocol_error
  by (auto simp: query_with_bytes_def validate_code_def split: option.splits)

end

section \<open>Properties of the client\<close>

text \<open>
  A command that is not in the table, a read of an unreadable command and a write of an
  unwritable one are refused by every method of the client with the error that names the
  reason, and the session is not touched.
\<close>

theorem client_refuses_before_session:
  "case table_find (cl_table cl) code of
     None \<Rightarrow>
       query S code cl = Some (Inl (ClientUnknownCommand (code_debug (cl_format cl) code)), cl) \<and>
       query_with_param S code ps cl = Some (Inl (ClientUnknownCommand (code_debug (cl_format cl) code)), cl) \<and>
       query_bytes S code cl = Some (Inl (ClientUnknownCommand (code_debug (cl_format cl) code)), cl) \<and>
       query_with_bytes S code ps cl = Some (Inl (ClientUnknownCommand (code_debug (cl_format cl) code)), cl) \<and>
       client_set S code ps cl = Some (Inl (ClientUnknownCommand (code_debug (cl_format cl) code)), cl) \<and>
       set_bytes S code ps cl = Some (Inl (ClientUnknownCommand (code_debug (cl_format cl) code)), cl)
   | Some d \<Rightarrow>
       (if readable d then True else
         query S code cl = Some (Inl (CommandNotReadable (code_debug (cl_format cl) code)), cl) \<and>
         query_with_param S code ps cl = Some (Inl (CommandNotReadable (code_debug (cl_format cl) code)), cl) \<and>
         query_bytes S code cl = Some (Inl (CommandNotReadable (def_name d)), cl) \<and>
         query_with_bytes S code ps cl = Some (Inl (CommandNotReadable (def_name d)), cl)) \<and>
       (if writable d then True else
         client_set S code ps cl = Some (Inl (CommandNotWritable (code_debug (cl_format cl) code)), cl) \<and>
         set_bytes S code ps cl = Some (Inl (CommandNotWritable (def_name d)), cl))"
  by (simp add: client_defs split: option.splits)

text \<open>
  A query of a readable command is exactly one exchange of the encoded request: the client
  returns the session's bytes unchanged and keeps the session's new state, for any session that
  keeps the session contract.
\<close>

theorem client_query_is_one_exchange:
  assumes "cat_session_contract S" and "table_find (cl_table cl) code = Some d" and "readable d"
  shows "query_with_bytes S code ps cl =
    map_option (\<lambda>(r, response, s). (map_sum ClientTransport (\<lambda>_. response) r, cl\<lparr>cl_session := s\<rparr>))
      (ses_execute S (encode_request (cl_format cl) code ps) [] (cl_session cl))"
  using assms(2,3) cat_session_contract.never_protocol_error [OF assms(1)]
  by (fastforce simp: query_with_bytes_def validate_code_def execute_query_bytes_def
      split: option.splits sum.splits response_disposition.splits)

definition sample_client :: "(scripted_session, nat, bytes) cat_client" where
  "sample_client = client_with_format
     (with_script [\<lparr>expected_request = [70, 65, 59], ex_response = [70, 65, 49, 59]\<rparr>])
     sample_table (ascii_line_format id)"

lemma sample_client_find:
  "\<exists>d. table_find (cl_table sample_client) (lit ''FA'') = Some d \<and> readable d"
  by (simp add: sample_client_def client_with_format_def sample_eval)

theorem client_query_is_one_exchange_witness:
  "\<exists>cl'. query_with_bytes scripted_session_ops (lit ''FA'') [] sample_client = Some (Inr [70, 65, 49, 59], cl')"
proof -
  obtain d where "table_find (cl_table sample_client) (lit ''FA'') = Some d" "readable d"
    using sample_client_find by blast
  from client_query_is_one_exchange [OF scripted.cat_session_contract_axioms this, of "[]"]
  show ?thesis
    by (simp add: sample_client_def client_with_format_def ascii_encode_request_def lit_def model_defs)
qed

text \<open>
  The text query returns what the byte query returns passed through lossy decoding, which is
  always well-formed UTF-8, and equals the radio's answer exactly when that answer was
  well-formed already.
\<close>

theorem client_text_query_lossy:
  "query_with_param S code ps cl =
     (case query_with_bytes S code ps cl of
        None \<Rightarrow> None
      | Some (Inl (CommandNotReadable _), cl') \<Rightarrow>
          Some (Inl (CommandNotReadable (code_debug (cl_format cl) code)), cl')
      | Some (r, cl') \<Rightarrow> Some (map_sum id from_utf8_lossy r, cl')) \<and>
   utf8_valid (from_utf8_lossy bs) \<and> (from_utf8_lossy bs = bs \<longleftrightarrow> utf8_valid bs)"
  using utf8_valid_lossy [of bs] from_utf8_lossy_fixed_iff [of bs]
  by (auto simp: query_with_param_def query_with_bytes_def validate_code_def execute_query_def
      execute_query_bytes_def split: option.splits sum.splits response_disposition.splits)

end
