(* ===== verification/Local_Channel.thy ===== *)
theory Local_Channel
  imports Cat_Prelude
begin

text \<open>
  The broker's channels, \<^verbatim>\<open>cat-server/src/local_channel.rs\<close>: a many-producer, single-consumer queue
  and the single-use reply slot. Both are shared by tasks of one thread, so a call is never
  interrupted: each is a function on the shared state. A call that wakes the waiting receiver
  says so in its result.

  The locale \<open>fifo\<close> is what the worker relies on: values come out in the order they went in. The
  relation \<open>chan_step\<close> runs the channel under any sequence of calls.
\<close>

section \<open>The queue\<close>

record 'a channel_inner =
  queue :: "'a list"
  recv_waker :: bool
  sender_count :: nat
  receiver_dropped :: bool

definition channel :: "'a channel_inner" where
  "channel = \<lparr>queue = [], recv_waker = False, sender_count = 1, receiver_dropped = False\<rparr>"

definition sender_clone :: "'a channel_inner \<Rightarrow> 'a channel_inner" where
  "sender_clone c = c\<lparr>sender_count := sender_count c + 1\<rparr>"

text \<open>The first component of the results of \<open>sender_drop\<close> and \<open>chan_send\<close>: the receiver is woken.\<close>

definition sender_drop :: "'a channel_inner \<Rightarrow> bool \<times> 'a channel_inner" where
  "sender_drop c =
     (let c' = c\<lparr>sender_count := sender_count c - 1\<rparr>
      in if sender_count c' = 0 then (recv_waker c', c'\<lparr>recv_waker := False\<rparr>) else (False, c'))"

definition chan_send :: "'a \<Rightarrow> 'a channel_inner \<Rightarrow> bool \<times> ('a + unit) \<times> 'a channel_inner" where
  "chan_send value c =
     (if receiver_dropped c then (False, Inl value, c)
      else (recv_waker c, Inr (), c\<lparr>queue := queue c @ [value], recv_waker := False\<rparr>))"

text \<open>One poll of \<^verbatim>\<open>recv\<close>: \<open>None\<close> is pending, \<open>Some None\<close> the closed channel.\<close>

definition chan_recv :: "'a channel_inner \<Rightarrow> 'a option option \<times> 'a channel_inner" where
  "chan_recv c =
     (case queue c of
        value # rest \<Rightarrow> (Some (Some value), c\<lparr>queue := rest\<rparr>)
      | [] \<Rightarrow>
          if sender_count c = 0 then (Some None, c)
          else (None, c\<lparr>recv_waker := True\<rparr>))"

definition receiver_drop :: "'a channel_inner \<Rightarrow> 'a channel_inner" where
  "receiver_drop c = c\<lparr>receiver_dropped := True\<rparr>"

section \<open>The reply slot\<close>

record 'a oneshot_inner =
  os_value :: "'a option"
  os_waker :: bool
  os_sender_dropped :: bool
  os_receiver_dropped :: bool

definition oneshot :: "'a oneshot_inner" where
  "oneshot = \<lparr>os_value = None, os_waker = False, os_sender_dropped = False, os_receiver_dropped = False\<rparr>"

definition oneshot_sender_drop :: "'a oneshot_inner \<Rightarrow> bool \<times> 'a oneshot_inner" where
  "oneshot_sender_drop s = (os_waker s, s\<lparr>os_sender_dropped := True, os_waker := False\<rparr>)"

text \<open>Sending consumes the sender, so the drop follows in the same call.\<close>

definition oneshot_send :: "'a \<Rightarrow> 'a oneshot_inner \<Rightarrow> bool \<times> ('a + unit) \<times> 'a oneshot_inner" where
  "oneshot_send value s =
     (if os_receiver_dropped s then
        (case oneshot_sender_drop s of (woken, s') \<Rightarrow> (woken, Inl value, s'))
      else
        (case oneshot_sender_drop (s\<lparr>os_value := Some value, os_waker := False\<rparr>) of
           (woken, s') \<Rightarrow> (os_waker s \<or> woken, Inr (), s')))"

definition oneshot_recv :: "'a oneshot_inner \<Rightarrow> 'a option option \<times> 'a oneshot_inner" where
  "oneshot_recv s =
     (case os_value s of
        Some value \<Rightarrow> (Some (Some value), s\<lparr>os_value := None\<rparr>)
      | None \<Rightarrow>
          if os_sender_dropped s then (Some None, s)
          else (None, s\<lparr>os_waker := True\<rparr>))"

definition oneshot_receiver_drop :: "'a oneshot_inner \<Rightarrow> 'a oneshot_inner" where
  "oneshot_receiver_drop s = s\<lparr>os_receiver_dropped := True\<rparr>"

declare channel_def [model_defs] sender_clone_def [model_defs] sender_drop_def [model_defs]
  chan_send_def [model_defs] chan_recv_def [model_defs] receiver_drop_def [model_defs]
  oneshot_def [model_defs] oneshot_send_def [model_defs] oneshot_recv_def [model_defs]
  oneshot_sender_drop_def [model_defs] oneshot_receiver_drop_def [model_defs]

section \<open>The queue contract\<close>

locale fifo =
  fixes contents :: "'q \<Rightarrow> 'a list" and accepting :: "'q \<Rightarrow> bool"
    and send :: "'a \<Rightarrow> 'q \<Rightarrow> 'q" and recv :: "'q \<Rightarrow> 'a option option \<times> 'q"
  assumes send_contents: "contents (send v q) = (if accepting q then contents q @ [v] else contents q)"
    and send_accepting: "accepting (send v q) = accepting q"
    and recv_next: "contents q = v # vs \<Longrightarrow> fst (recv q) = Some (Some v) \<and> contents (snd (recv q)) = vs"
    and recv_empty: "contents q = [] \<Longrightarrow> fst (recv q) \<noteq> Some (Some v) \<and> contents (snd (recv q)) = []"
    and recv_accepting: "accepting (snd (recv q)) = accepting q"
begin

text \<open>Receive while there is something to receive.\<close>

fun drain_n :: "nat \<Rightarrow> 'q \<Rightarrow> 'a list \<times> 'q" where
  "drain_n 0 q = ([], q)"
| "drain_n (Suc n) q =
     (case recv q of
        (Some (Some v), q') \<Rightarrow> (case drain_n n q' of (vs, q'') \<Rightarrow> (v # vs, q''))
      | (_, q') \<Rightarrow> ([], q'))"

lemma send_all:
  "accepting q \<Longrightarrow> contents (fold send vs q) = contents q @ vs \<and> accepting (fold send vs q)"
  by (induction vs arbitrary: q) (simp_all add: send_contents send_accepting)

lemma drain_all: "fst (drain_n (length (contents q)) q) = contents q"
proof (induction "contents q" arbitrary: q)
  case Nil
  then show ?case by simp
next
  case (Cons v vs)
  from Cons.hyps(2) have r: "fst (recv q) = Some (Some v)" "contents (snd (recv q)) = vs"
    using recv_next [of q v vs] by auto
  from Cons.hyps(1) [of "snd (recv q)"] r(2) have "fst (drain_n (length vs) (snd (recv q))) = vs" by simp
  moreover have "length (contents q) = Suc (length vs)" using Cons.hyps(2) by (metis length_Cons)
  ultimately show ?case
    using r Cons.hyps(2) by (auto split: prod.splits)
qed

lemma send_then_drain:
  assumes "accepting q" and "contents q = []"
  shows "fst (drain_n (length vs) (fold send vs q)) = vs"
  using drain_all [of "fold send vs q"] send_all [OF assms(1), of vs] assms(2) by simp

end

interpretation chan: fifo queue "\<lambda>c. \<not> receiver_dropped c" "\<lambda>v c. snd (snd (chan_send v c))" chan_recv
  by unfold_locales (auto simp: chan_send_def chan_recv_def split: list.splits)

section \<open>Runs of the channel\<close>

text \<open>
  A channel with the history of what was accepted and what was taken out; \<open>parked\<close> says that the
  receiver got a pending poll and has not been woken since.
\<close>

record 'a chan_sys =
  ch :: "'a channel_inner"
  accepted_values :: "'a list"
  taken :: "'a list"
  parked :: bool

definition chan_init :: "'a chan_sys" where
  "chan_init = \<lparr>ch = channel, accepted_values = [], taken = [], parked = False\<rparr>"

inductive chan_step :: "'a chan_sys \<Rightarrow> 'a chan_sys \<Rightarrow> bool" where
  Send: "0 < sender_count (ch s) \<Longrightarrow> chan_send v (ch s) = (woken, r, c) \<Longrightarrow>
    chan_step s (s\<lparr>ch := c, accepted_values := (case r of Inr _ \<Rightarrow> accepted_values s @ [v] | Inl _ \<Rightarrow> accepted_values s),
      parked := (parked s \<and> \<not> woken)\<rparr>)"
| CloneSender: "0 < sender_count (ch s) \<Longrightarrow> chan_step s (s\<lparr>ch := sender_clone (ch s)\<rparr>)"
| DropSender: "0 < sender_count (ch s) \<Longrightarrow> sender_drop (ch s) = (woken, c) \<Longrightarrow>
    chan_step s (s\<lparr>ch := c, parked := (parked s \<and> \<not> woken)\<rparr>)"
| RecvValue: "\<not> receiver_dropped (ch s) \<Longrightarrow> chan_recv (ch s) = (Some (Some v), c) \<Longrightarrow>
    chan_step s (s\<lparr>ch := c, taken := taken s @ [v], parked := False\<rparr>)"
| RecvClosed: "\<not> receiver_dropped (ch s) \<Longrightarrow> chan_recv (ch s) = (Some None, c) \<Longrightarrow>
    chan_step s (s\<lparr>ch := c, parked := False\<rparr>)"
| RecvPending: "\<not> receiver_dropped (ch s) \<Longrightarrow> chan_recv (ch s) = (None, c) \<Longrightarrow>
    chan_step s (s\<lparr>ch := c, parked := True\<rparr>)"
| DropReceiver: "\<not> receiver_dropped (ch s) \<Longrightarrow>
    chan_step s (s\<lparr>ch := receiver_drop (ch s), parked := False\<rparr>)"

inductive_cases chan_stepE: "chan_step s s'"

inductive chan_reach :: "'a chan_sys \<Rightarrow> bool" where
  chan_reach_init: "chan_reach chan_init"
| chan_reach_step: "chan_reach s \<Longrightarrow> chan_step s s' \<Longrightarrow> chan_reach s'"

definition chan_inv :: "'a chan_sys \<Rightarrow> bool" where
  "chan_inv s \<longleftrightarrow> taken s @ queue (ch s) = accepted_values s \<and>
     (parked s \<longrightarrow> recv_waker (ch s) \<and> queue (ch s) = [] \<and> 0 < sender_count (ch s) \<and> \<not> receiver_dropped (ch s))"

lemma chan_step_inv: "chan_step s s' \<Longrightarrow> chan_inv s \<Longrightarrow> chan_inv s'"
  by (elim chan_stepE) (auto simp: chan_inv_def model_defs Let_def split: if_splits list.splits)

lemma chan_reach_inv: "chan_reach s \<Longrightarrow> chan_inv s"
  by (induction rule: chan_reach.induct)
     (auto simp: chan_inv_def chan_init_def channel_def dest: chan_step_inv)

section \<open>Properties of the channels\<close>

text \<open>
  Under every sequence of sends, clones, drops and polls, what has been received is a prefix of
  what was accepted and the queue holds the rest in order; and no wake-up is lost: a receiver that
  is parked without having been woken has nothing to receive and a live sender to wait for.
\<close>

theorem channel_fifo_no_lost_wakeup:
  assumes "chan_reach s"
  shows "taken s @ queue (ch s) = accepted_values s \<and>
    (if parked s then recv_waker (ch s) \<and> queue (ch s) = [] \<and> 0 < sender_count (ch s) else True)"
  using chan_reach_inv [OF assms] by (simp add: chan_inv_def)

theorem channel_fifo_no_lost_wakeup_witness:
  "recv_waker (ch (chan_init\<lparr>ch := (channel :: nat channel_inner)\<lparr>recv_waker := True\<rparr>, parked := True\<rparr>))"
proof -
  let ?s = "chan_init\<lparr>ch := (channel :: nat channel_inner)\<lparr>recv_waker := True\<rparr>, parked := True\<rparr>"
  have "chan_step chan_init ?s"
    by (auto simp: chan_step.simps chan_init_def model_defs)
  then have "chan_reach ?s" by (rule chan_reach_step [OF chan_reach_init])
  from channel_fifo_no_lost_wakeup [OF this] show ?thesis by simp
qed

text \<open>
  A reply slot delivers the value that was sent to the receiver that is still there, at most
  once; a slot whose sender is gone without sending reports that instead of waiting; and sending to
  a receiver that is gone hands the value back.
\<close>

theorem oneshot_delivers_once:
  "(case oneshot_send v (oneshot\<lparr>os_waker := w\<rparr>) of (woken, r, s) \<Rightarrow>
      woken = w \<and> r = Inr () \<and> fst (oneshot_recv s) = Some (Some v) \<and>
      fst (oneshot_recv (snd (oneshot_recv s))) = Some None) \<and>
   (case oneshot_sender_drop (oneshot\<lparr>os_waker := w\<rparr>) of (woken, s) \<Rightarrow>
      woken = w \<and> fst (oneshot_recv s) = Some (None :: 'a option)) \<and>
   fst (snd (oneshot_send v (oneshot_receiver_drop oneshot))) = Inl (v :: 'a)"
  by (simp add: model_defs)

end
