(* ===== verification/Broker.thy ===== *)
theory Broker
  imports Cat_Client Local_Channel
begin

text \<open>
  The broker, \<^verbatim>\<open>cat-server/src/broker.rs\<close> and \<^verbatim>\<open>release.rs\<close>: validation and routing of one request,
  the single ordered worker, the handles that submit jobs to it, and the lines that bypass it to
  release a transmitter.

  The radio session is a parameter. So is the timer: \<^verbatim>\<open>monoio::time::timeout\<close> decides whether a call
  is cut off, and if it is, leaves the session in whatever state the abandoned call had reached.
  Reply slots are entries of a store, so that a job can hold the address of its slot; everything
  the tasks of one server share is one record, and each task's step is a function on it.
\<close>

section \<open>Outcomes and errors\<close>

datatype dispatch_outcome = Response bytes | NoResponseOutcome

definition outcome_text :: "dispatch_outcome \<Rightarrow> bytes option" where
  "outcome_text out = (case out of Response bs \<Rightarrow> Some (from_utf8_lossy bs) | NoResponseOutcome \<Rightarrow> None)"

datatype 'e dispatch_error =
    Malformed parse_error
  | DispatchTimeout nat
  | SessionError "'e client_error"

text \<open>The messages of the error types.\<close>

fun parse_error_display :: "parse_error \<Rightarrow> bytes" where
  "parse_error_display MissingTerminator = lit ''missing CAT frame terminator''"
| "parse_error_display InvalidSyntax = lit ''invalid CAT frame syntax''"
| "parse_error_display (UnknownCommand c) = lit ''unknown command: '' @ c"
| "parse_error_display (UnsupportedOperation c) = lit ''unsupported operation for command: '' @ c"
| "parse_error_display (InvalidParameterWidth c n) =
     lit ''invalid parameter width for '' @ c @ lit '': '' @ decimal n"

fun protocol_error_kind_debug :: "protocol_error_kind \<Rightarrow> bytes" where
  "protocol_error_kind_debug KindUnknownCommand = lit ''UnknownCommand''"
| "protocol_error_kind_debug KindInvalidSyntax = lit ''InvalidSyntax''"
| "protocol_error_kind_debug KindInvalidParameter = lit ''InvalidParameter''"
| "protocol_error_kind_debug KindUnsupportedOperation = lit ''UnsupportedOperation''"

fun client_error_display :: "('e \<Rightarrow> bytes) \<Rightarrow> 'e client_error \<Rightarrow> bytes" where
  "client_error_display disp (ClientUnknownCommand c) = lit ''unknown command: '' @ c"
| "client_error_display disp (CommandNotReadable c) = lit ''command '' @ c @ lit '' does not support read (query)''"
| "client_error_display disp (CommandNotWritable c) = lit ''command '' @ c @ lit '' does not support write (set)''"
| "client_error_display disp (ClientProtocolError k) =
     lit ''session reported a protocol error: '' @ protocol_error_kind_debug k"
| "client_error_display disp (ClientTransport e) = lit ''transport error: '' @ disp e"

fun dispatch_error_display :: "('e \<Rightarrow> bytes) \<Rightarrow> (nat \<Rightarrow> bytes) \<Rightarrow> 'e dispatch_error \<Rightarrow> bytes" where
  "dispatch_error_display disp dur (Malformed e) = lit ''malformed request: '' @ parse_error_display e"
| "dispatch_error_display disp dur (DispatchTimeout d) =
     lit ''physical radio session did not respond within '' @ dur d"
| "dispatch_error_display disp dur (SessionError e) =
     lit ''physical radio session error: '' @ client_error_display disp e"

definition outcome_to_wire :: "('e \<Rightarrow> bytes) \<Rightarrow> (nat \<Rightarrow> bytes) \<Rightarrow> 'e dispatch_error + dispatch_outcome \<Rightarrow> bytes" where
  "outcome_to_wire disp dur result =
     (case result of
        Inr (Response bs) \<Rightarrow> bs
      | Inr NoResponseOutcome \<Rightarrow> []
      | Inl err \<Rightarrow> lit ''ERR '' @ dispatch_error_display disp dur err)"

section \<open>The broker\<close>

text \<open>
  What a broker runs on: the session's methods and lines, the timer, and the rendering of the session's
  errors and of durations. \<open>env_timer d s\<close> is \<open>Some s'\<close> if a call started in session state \<open>s\<close> is
  still running after \<open>d\<close>; it is then dropped, and the session is left in \<open>s'\<close>.
\<close>

record ('s, 'e) broker_env =
  env_session :: "('s, 'e) cat_session"
  env_timer :: "nat \<Rightarrow> 's \<Rightarrow> 's option"
  env_modem_lines :: "'s \<Rightarrow> modem_control_lines option"
  env_release_lines :: "'s \<Rightarrow> modem_control_lines option"
  env_err_display :: "'e \<Rightarrow> bytes"
  env_duration_debug :: "nat \<Rightarrow> bytes"

text \<open>\<^verbatim>\<open>DEFAULT_REQUEST_TIMEOUT\<close>, in milliseconds.\<close>

definition DEFAULT_REQUEST_TIMEOUT :: nat where "DEFAULT_REQUEST_TIMEOUT = 5000"

record ('s, 'id, 'code) broker =
  br_client :: "('s, 'id, 'code) cat_client"
  br_table :: "('id, 'code) command_table"
  br_format :: "('id, 'code) wire_format"
  br_timeout :: nat

definition broker_with_format_and_timeout :: "'s \<Rightarrow> ('id, 'code) command_table \<Rightarrow> ('id, 'code) wire_format \<Rightarrow>
    nat \<Rightarrow> ('s, 'id, 'code) broker" where
  "broker_with_format_and_timeout session table format timeout =
     \<lparr>br_client = client_with_format session table format, br_table = table, br_format = format,
      br_timeout = timeout\<rparr>"

text \<open>Whether a classified request is a read.\<close>

definition route :: "('id, 'code) wire_format \<Rightarrow> ('id, 'code) command_definition \<Rightarrow> 'code \<Rightarrow> command_operation \<Rightarrow>
    nat \<Rightarrow> 'e dispatch_error + bool" where
  "route format d code operation len =
     (case operation of
        OpQuery \<Rightarrow> Inr True
      | OpAction \<Rightarrow> Inr False
      | OpSet \<Rightarrow>
          if is_selector_read d len then Inr True
          else if writable d then Inr False
          else if readable d then Inr True
          else Inl (Malformed (UnsupportedOperation (code_debug format code)))
      | OpResponse \<Rightarrow> Inl (SessionError (ClientUnknownCommand (code_debug format code))))"

definition with_request_timeout :: "(nat \<Rightarrow> 's \<Rightarrow> 's option) \<Rightarrow> nat \<Rightarrow>
    (('s, 'id, 'code) cat_client \<Rightarrow> ('r \<times> ('s, 'id, 'code) cat_client) option) \<Rightarrow>
    ('s, 'id, 'code) cat_client \<Rightarrow> ((elapsed + 'r) \<times> ('s, 'id, 'code) cat_client) option" where
  "with_request_timeout timer duration call cl =
     (case timer duration (cl_session cl) of
        Some s \<Rightarrow> Some (Inl Elapsed, cl\<lparr>cl_session := s\<rparr>)
      | None \<Rightarrow> map_option (\<lambda>(r, cl'). (Inr r, cl')) (call cl))"

text \<open>The call a routed request makes.\<close>

definition dispatch_call :: "('s, 'e) cat_session \<Rightarrow> bool \<Rightarrow> 'code \<Rightarrow> bytes \<Rightarrow> ('s, 'id, 'code) cat_client \<Rightarrow>
    (('e client_error + dispatch_outcome) \<times> ('s, 'id, 'code) cat_client) option" where
  "dispatch_call S is_read code params cl =
     (if is_read then map_option (\<lambda>(r, cl'). (map_sum id Response r, cl')) (query_with_bytes S code params cl)
      else map_option (\<lambda>(r, cl'). (map_sum id (\<lambda>_. NoResponseOutcome) r, cl')) (client_set S code params cl))"

text \<open>\<open>None\<close> is the panic of the second lookup, or a call that neither returns nor is cut off.\<close>

definition dispatch :: "('s, 'e) broker_env \<Rightarrow> bytes \<Rightarrow> ('s, 'id, 'code) broker \<Rightarrow>
    (('e dispatch_error + dispatch_outcome) \<times> ('s, 'id, 'code) broker) option" where
  "dispatch env request br =
     (case parse (br_table br) (br_format br) request of
        Inl e \<Rightarrow> Some (Inl (Malformed e), br)
      | Inr parsed \<Rightarrow>
          (case table_find (br_table br) (req_code parsed) of
             None \<Rightarrow> None
           | Some d \<Rightarrow>
               (case route (br_format br) d (req_code parsed) (req_operation parsed) (length (req_parameters parsed)) of
                  Inl e \<Rightarrow> Some (Inl e, br)
                | Inr is_read \<Rightarrow>
                    (case with_request_timeout (env_timer env) (br_timeout br)
                            (dispatch_call (env_session env) is_read (req_code parsed) (req_parameters parsed))
                            (br_client br) of
                       None \<Rightarrow> None
                     | Some (Inl _, cl) \<Rightarrow> Some (Inl (DispatchTimeout (br_timeout br)), br\<lparr>br_client := cl\<rparr>)
                     | Some (Inr r, cl) \<Rightarrow> Some (map_sum SessionError id r, br\<lparr>br_client := cl\<rparr>)))))"

section \<open>Jobs, the worker and its handles\<close>

type_synonym task_fn = "modem_control_lines option \<Rightarrow> bytes + bytes"

definition run_task :: "task_fn \<Rightarrow> modem_control_lines option \<Rightarrow> bytes" where
  "run_task run lines = (case run lines of Inr bs \<Rightarrow> bs | Inl message \<Rightarrow> lit ''ERR '' @ message)"

datatype work = Wire bytes | Task task_fn

record job =
  job_client :: u64
  job_request_id :: u64
  job_work :: work
  job_reply :: nat

record release_lines =
  rl_lines :: "modem_control_lines option"
  rl_had_lines :: bool
  rl_warned :: bool

definition release_from_session :: "modem_control_lines option \<Rightarrow> release_lines" where
  "release_from_session lines = \<lparr>rl_lines = lines, rl_had_lines = (lines \<noteq> None), rl_warned = False\<rparr>"

text \<open>The result, whether the fallback warning is logged, and the lines afterwards.\<close>

definition should_warn_of_fallback :: "release_lines \<Rightarrow> bool \<times> release_lines" where
  "should_warn_of_fallback r =
     (if rl_had_lines r then (False, r) else (\<not> rl_warned r, r\<lparr>rl_warned := True\<rparr>))"

definition try_now :: "task_fn \<Rightarrow> release_lines \<Rightarrow> (task_fn + bytes) \<times> bool \<times> release_lines" where
  "try_now run r =
     (case rl_lines r of
        Some lines \<Rightarrow> (Inr (run_task run (Some lines)), False, r)
      | None \<Rightarrow> (case should_warn_of_fallback r of (warn, r') \<Rightarrow> (Inl run, warn, r')))"

definition release_close :: "release_lines \<Rightarrow> release_lines" where
  "release_close r = r\<lparr>rl_lines := None\<rparr>"

record ('s, 'id, 'code) server =
  sv_jobs :: "job channel_inner"
  sv_slots :: "nat \<Rightarrow> bytes oneshot_inner"
  sv_fresh :: nat
  sv_next_request_id :: u64
  sv_broker :: "('s, 'id, 'code) broker"
  sv_release :: release_lines

definition build_with_timeout :: "('s, 'e) broker_env \<Rightarrow> 's \<Rightarrow> ('id, 'code) command_table \<Rightarrow>
    ('id, 'code) wire_format \<Rightarrow> nat \<Rightarrow> ('s, 'id, 'code) server" where
  "build_with_timeout env session table default_format timeout =
     \<lparr>sv_jobs = channel, sv_slots = (\<lambda>_. oneshot), sv_fresh = 0, sv_next_request_id = 0,
      sv_broker = broker_with_format_and_timeout session table default_format timeout,
      sv_release = release_from_session (env_release_lines env session)\<rparr>"

text \<open>The bytes a job is answered with, and the broker afterwards.\<close>

definition run_work :: "('s, 'e) broker_env \<Rightarrow> work \<Rightarrow> ('s, 'id, 'code) broker \<Rightarrow>
    (bytes \<times> ('s, 'id, 'code) broker) option" where
  "run_work env work br =
     (case work of
        Wire payload \<Rightarrow>
          map_option (\<lambda>(r, br'). (outcome_to_wire (env_err_display env) (env_duration_debug env) r, br'))
            (dispatch env payload br)
      | Task run \<Rightarrow> Some (run_task run (env_modem_lines env (cl_session (br_client br))), br))"

text \<open>Storing a reply in its slot; a requester that is gone is not an error.\<close>

definition deliver :: "nat \<Rightarrow> bytes \<Rightarrow> (nat \<Rightarrow> bytes oneshot_inner) \<Rightarrow> (nat \<Rightarrow> bytes oneshot_inner)" where
  "deliver slot wire slots = slots(slot := snd (snd (oneshot_send wire (slots slot))))"

text \<open>
  The worker until it has nothing to do: \<open>True\<close> says that the channel is closed and the loop has
  ended, \<open>False\<close> that it waits for the next job.
\<close>

function worker_run :: "('s, 'e) broker_env \<Rightarrow> ('s, 'id, 'code) server \<Rightarrow> (bool \<times> ('s, 'id, 'code) server) option" where
  "worker_run env sv =
     (case chan_recv (sv_jobs sv) of
        (None, c) \<Rightarrow> Some (False, sv\<lparr>sv_jobs := c\<rparr>)
      | (Some None, c) \<Rightarrow> Some (True, sv\<lparr>sv_jobs := c\<rparr>)
      | (Some (Some job), c) \<Rightarrow>
          (case run_work env (job_work job) (sv_broker sv) of
             None \<Rightarrow> None
           | Some (wire, br) \<Rightarrow>
               worker_run env (sv\<lparr>sv_jobs := c, sv_broker := br,
                 sv_slots := deliver (job_reply job) wire (sv_slots sv)\<rparr>)))"
  by pat_completeness auto
termination
  by (relation "measure (\<lambda>(env, sv). length (queue (sv_jobs sv)))")
     (auto simp: chan_recv_def split: list.splits if_splits)

declare worker_run.simps [simp del]

text \<open>Dropping the worker: its receiver goes, and the release lines are closed.\<close>

definition worker_drop :: "('s, 'id, 'code) server \<Rightarrow> ('s, 'id, 'code) server" where
  "worker_drop sv = sv\<lparr>sv_jobs := receiver_drop (sv_jobs sv), sv_release := release_close (sv_release sv)\<rparr>"

text \<open>
  Queueing a job: \<open>Inr slot\<close> is the slot to wait on, \<open>Inl None\<close> the broker that is gone. A job that
  cannot be queued is dropped, and its reply sender with it.
\<close>

definition enqueue :: "u64 \<Rightarrow> work \<Rightarrow> ('s, 'id, 'code) server \<Rightarrow>
    (bytes option + nat) \<times> ('s, 'id, 'code) server" where
  "enqueue client work sv =
     (let request_id = sv_next_request_id sv;
          slot = sv_fresh sv;
          job = \<lparr>job_client = client, job_request_id = request_id, job_work = work, job_reply = slot\<rparr>;
          sv' = sv\<lparr>sv_next_request_id := request_id + 1, sv_fresh := slot + 1,
                   sv_slots := (sv_slots sv)(slot := oneshot)\<rparr>
      in case chan_send job (sv_jobs sv) of
           (_, Inl _, c) \<Rightarrow>
             (Inl None, sv'\<lparr>sv_jobs := c,
                sv_slots := (sv_slots sv')(slot := snd (oneshot_sender_drop oneshot))\<rparr>)
         | (_, Inr _, c) \<Rightarrow> (Inr slot, sv'\<lparr>sv_jobs := c\<rparr>))"

type_synonym submit_gate = "unit \<Rightarrow> bytes option"

definition submit :: "submit_gate option \<Rightarrow> u64 \<Rightarrow> bytes \<Rightarrow> ('s, 'id, 'code) server \<Rightarrow>
    (bytes option + nat) \<times> ('s, 'id, 'code) server" where
  "submit gate client payload sv =
     (case Option.bind gate (\<lambda>g. g ()) of
        Some reason \<Rightarrow> (Inl (Some (lit ''ERR '' @ reason)), sv)
      | None \<Rightarrow> enqueue client (Wire payload) sv)"

definition submit_task :: "u64 \<Rightarrow> task_fn \<Rightarrow> ('s, 'id, 'code) server \<Rightarrow>
    (bytes option + nat) \<times> ('s, 'id, 'code) server" where
  "submit_task client run sv = enqueue client (Task run) sv"

definition release_now_bypassing_queue :: "u64 \<Rightarrow> task_fn \<Rightarrow> ('s, 'id, 'code) server \<Rightarrow>
    (bytes option + nat) \<times> ('s, 'id, 'code) server" where
  "release_now_bypassing_queue client run sv =
     (case try_now run (sv_release sv) of
        (Inr reply, _, r) \<Rightarrow> (Inl (Some reply), sv\<lparr>sv_release := r\<rparr>)
      | (Inl run', _, r) \<Rightarrow> submit_task client run' (sv\<lparr>sv_release := r\<rparr>))"

text \<open>One poll of the reply.\<close>

definition await_reply :: "nat \<Rightarrow> ('s, 'id, 'code) server \<Rightarrow> bytes option option \<times> ('s, 'id, 'code) server" where
  "await_reply slot sv =
     (case oneshot_recv (sv_slots sv slot) of
        (r, s) \<Rightarrow> (r, sv\<lparr>sv_slots := (sv_slots sv)(slot := s)\<rparr>))"

lemmas server_defs = enqueue_def submit_def submit_task_def release_now_bypassing_queue_def await_reply_def
  deliver_def try_now_def should_warn_of_fallback_def worker_drop_def release_close_def

section \<open>Lemmas on dispatch\<close>

text \<open>The broker and its client are built from one table and one format, and stay so.\<close>

definition broker_ok :: "('s, 'id, 'code) broker \<Rightarrow> bool" where
  "broker_ok br \<longleftrightarrow> cl_table (br_client br) = br_table br \<and> cl_format (br_client br) = br_format br"

lemma broker_ok_new: "broker_ok (broker_with_format_and_timeout session table format timeout)"
  by (simp add: broker_ok_def broker_with_format_and_timeout_def client_with_format_def)

lemma query_with_bytes_frame:
  "query_with_bytes S code ps cl = Some (r, cl') \<Longrightarrow> cl_table cl' = cl_table cl \<and> cl_format cl' = cl_format cl"
  by (auto simp: query_with_bytes_def validate_code_def execute_query_bytes_def
      split: option.splits sum.splits response_disposition.splits if_splits prod.splits)

lemma client_set_frame:
  "client_set S code ps cl = Some (r, cl') \<Longrightarrow> cl_table cl' = cl_table cl \<and> cl_format cl' = cl_format cl"
  by (auto simp: client_set_def validate_code_def
      split: option.splits sum.splits if_splits prod.splits)

lemma dispatch_call_frame:
  "dispatch_call S is_read code ps cl = Some (r, cl') \<Longrightarrow> cl_table cl' = cl_table cl \<and> cl_format cl' = cl_format cl"
  by (auto simp: dispatch_call_def dest: query_with_bytes_frame client_set_frame split: if_splits)

lemma with_request_timeout_frame:
  "with_request_timeout timer d (dispatch_call S is_read code ps) cl = Some (r, cl') \<Longrightarrow>
     cl_table cl' = cl_table cl \<and> cl_format cl' = cl_format cl"
  by (auto simp: with_request_timeout_def dest: dispatch_call_frame split: option.splits)

lemma dispatch_frame:
  assumes "dispatch env request br = Some (r, br')"
  shows "br_table br' = br_table br \<and> br_format br' = br_format br \<and> br_timeout br' = br_timeout br \<and>
    (broker_ok br \<longrightarrow> broker_ok br')"
  using assms
  by (auto simp: dispatch_def broker_ok_def dest!: with_request_timeout_frame
      split: sum.splits option.splits prod.splits)

lemma dispatch_Malformed:
  assumes "dispatch (env :: ('s, 'e) broker_env) request br = Some (Inl (Malformed e), br')"
  shows "br' = br \<and> (parse (br_table br) (br_format br) request = Inl e \<or>
    (\<exists>req d. parse (br_table br) (br_format br) request = Inr req \<and>
       table_find (br_table br) (req_code req) = Some d \<and>
       route (br_format br) d (req_code req) (req_operation req) (length (req_parameters req)) =
         (Inl (Malformed e) :: 'e dispatch_error + bool)))"
  using assms
  by (auto simp: dispatch_def map_sum_def split: sum.splits option.splits prod.splits)

text \<open>A read leaves the send method alone, and a write the execute method.\<close>

lemma dispatch_call_read: "dispatch_call (S\<lparr>ses_send := f\<rparr>) True code ps cl = dispatch_call S True code ps cl"
  by (auto simp: dispatch_call_def query_with_bytes_def execute_query_bytes_def split: sum.splits)

lemma dispatch_call_write: "dispatch_call (S\<lparr>ses_execute := f\<rparr>) False code ps cl = dispatch_call S False code ps cl"
  by (auto simp: dispatch_call_def client_set_def split: sum.splits)

lemma timed_read:
  "with_request_timeout t n (dispatch_call (S\<lparr>ses_send := f\<rparr>) True code ps) cl =
   with_request_timeout t n (dispatch_call S True code ps) cl"
  by (simp add: with_request_timeout_def dispatch_call_read split: option.split)

lemma timed_write:
  "with_request_timeout t n (dispatch_call (S\<lparr>ses_execute := f\<rparr>) False code ps) cl =
   with_request_timeout t n (dispatch_call S False code ps) cl"
  by (simp add: with_request_timeout_def dispatch_call_write split: option.split)

text \<open>A call that does not return runs into a session method that does not.\<close>

lemma dispatch_call_None:
  "dispatch_call S is_read code ps cl = None \<Longrightarrow>
     (\<exists>wire. ses_execute S wire [] (cl_session cl) = None) \<or> (\<exists>wire. ses_send S wire (cl_session cl) = None)"
  by (auto simp: dispatch_call_def query_with_bytes_def client_set_def validate_code_def execute_query_bytes_def
      split: option.splits sum.splits response_disposition.splits if_splits prod.splits)

text \<open>The timer ends every session call that would not return by itself.\<close>

definition cuts_off :: "('s, 'e) broker_env \<Rightarrow> nat \<Rightarrow> bool" where
  "cuts_off env d \<longleftrightarrow>
     (\<forall>wire s. (ses_execute (env_session env) wire [] s = None \<longrightarrow> env_timer env d s \<noteq> None) \<and>
        (ses_send (env_session env) wire s = None \<longrightarrow> env_timer env d s \<noteq> None))"

lemma dispatch_total:
  fixes env :: "('a, 'b) broker_env"
  assumes "cat_wire_format (br_format br) framable"
    and "cuts_off env (br_timeout br)"
  shows "\<exists>r br'. dispatch env request br = Some (r, br')"
proof (cases "parse (br_table br) (br_format br) request")
  case (Inl e)
  then show ?thesis by (simp add: dispatch_def)
next
  case (Inr req)
  from cat_wire_format.parse_resolves [OF assms(1) this] obtain d
    where d: "table_find (br_table br) (req_code req) = Some d" by blast
  have timed: "\<exists>r cl. with_request_timeout (env_timer env) (br_timeout br)
      (dispatch_call (env_session env) is_read (req_code req) (req_parameters req)) (br_client br) = Some (r, cl)"
    for is_read
    using assms(2) [unfolded cuts_off_def] dispatch_call_None [of "env_session env" is_read "req_code req" "req_parameters req" "br_client br"]
    by (cases "dispatch_call (env_session env) is_read (req_code req) (req_parameters req) (br_client br)")
       (auto simp: with_request_timeout_def split: option.splits)
  show ?thesis
  proof (cases "route (br_format br) d (req_code req) (req_operation req) (length (req_parameters req))
      :: 'b dispatch_error + bool")
    case (Inr is_read)
    obtain r cl where "with_request_timeout (env_timer env) (br_timeout br)
        (dispatch_call (env_session env) is_read (req_code req) (req_parameters req)) (br_client br) = Some (r, cl)"
      using timed by blast
    with Inr \<open>parse (br_table br) (br_format br) request = Inr req\<close> d show ?thesis
      by (cases r) (simp_all add: dispatch_def)
  qed (simp add: dispatch_def Inr d)
qed

lemma run_work_total:
  assumes "cat_wire_format (br_format br) framable" and "cuts_off env (br_timeout br)"
  shows "\<exists>wire br'. run_work env work br = Some (wire, br') \<and> br_format br' = br_format br \<and> br_timeout br' = br_timeout br"
proof (cases work)
  case (Wire payload)
  obtain r br' where "dispatch env payload br = Some (r, br')" using dispatch_total [OF assms] by blast
  with Wire dispatch_frame [OF this] show ?thesis by (simp add: run_work_def)
qed (simp add: run_work_def)

section \<open>Lemmas on the worker\<close>

text \<open>What a list of jobs is answered with, one after the other.\<close>

fun answers :: "('s, 'e) broker_env \<Rightarrow> job list \<Rightarrow> ('s, 'id, 'code) broker \<Rightarrow>
    (bytes list \<times> ('s, 'id, 'code) broker) option" where
  "answers env [] br = Some ([], br)"
| "answers env (j # js) br =
     (case run_work env (job_work j) br of
        None \<Rightarrow> None
      | Some (wire, br') \<Rightarrow> map_option (\<lambda>(wires, br''). (wire # wires, br'')) (answers env js br'))"

definition deliver_all :: "job list \<Rightarrow> bytes list \<Rightarrow> (nat \<Rightarrow> bytes oneshot_inner) \<Rightarrow> (nat \<Rightarrow> bytes oneshot_inner)" where
  "deliver_all js wires slots = fold (\<lambda>(j, wire). deliver (job_reply j) wire) (zip js wires) slots"

lemma worker_run_answers:
  "worker_run env sv =
     map_option (\<lambda>(wires, br). (sender_count (sv_jobs sv) = 0,
         sv\<lparr>sv_jobs := snd (chan_recv ((sv_jobs sv)\<lparr>queue := []\<rparr>)), sv_broker := br,
            sv_slots := deliver_all (queue (sv_jobs sv)) wires (sv_slots sv)\<rparr>))
       (answers env (queue (sv_jobs sv)) (sv_broker sv))"
proof (induction "queue (sv_jobs sv)" arbitrary: sv)
  case Nil
  then have q: "queue (sv_jobs sv) = []" by simp
  then have "(sv_jobs sv)\<lparr>queue := []\<rparr> = sv_jobs sv" by (metis channel_inner.surjective channel_inner.update_convs(1) channel_inner.select_convs(1))
  with q show ?case
    by (subst worker_run.simps) (simp add: chan_recv_def deliver_all_def)
next
  case (Cons j js)
  then have q: "queue (sv_jobs sv) = j # js" by simp
  show ?case
  proof (cases "run_work env (job_work j) (sv_broker sv)")
    case None
    with q show ?thesis by (subst worker_run.simps) (simp add: chan_recv_def)
  next
    case (Some p)
    obtain wire br where p: "p = (wire, br)" by fastforce
    let ?sv = "sv\<lparr>sv_jobs := (sv_jobs sv)\<lparr>queue := js\<rparr>, sv_broker := br,
        sv_slots := deliver (job_reply j) wire (sv_slots sv)\<rparr>"
    have "worker_run env sv = worker_run env ?sv"
      using Some p q by (subst worker_run.simps) (simp add: chan_recv_def)
    also note Cons.hyps(1) [of ?sv]
    finally show ?thesis
      using Some p q by (cases "answers env js br") (auto simp: deliver_all_def)
  qed
qed

lemma answers_total:
  assumes "cat_wire_format (br_format br) framable" and "cuts_off env (br_timeout br)"
  shows "\<exists>wires br'. answers env js br = Some (wires, br')"
  using assms
proof (induction js arbitrary: br)
  case (Cons j js)
  obtain wire br1 where r: "run_work env (job_work j) br = Some (wire, br1)"
    and frame: "br_format br1 = br_format br" "br_timeout br1 = br_timeout br"
    using run_work_total [OF Cons.prems] by blast
  from Cons.IH [of br1] Cons.prems frame obtain wires br2 where "answers env js br1 = Some (wires, br2)" by auto
  with r show ?case by simp
qed simp

lemma answers_length: "answers env js br = Some (wires, br') \<Longrightarrow> length wires = length js"
  by (induction js arbitrary: br wires) (auto split: option.splits)

lemma deliver_apply:
  "deliver a wire slots b = (if b = a then snd (snd (oneshot_send wire (slots a))) else slots b)"
  by (simp add: deliver_def)

lemma deliver_all_other:
  "a \<notin> job_reply ` set js \<Longrightarrow> deliver_all js wires slots a = slots a"
proof (induction js arbitrary: wires slots)
  case (Cons j js)
  then show ?case
    by (cases wires) (auto simp: deliver_all_def deliver_apply)
qed (simp add: deliver_all_def)

lemma deliver_all_own:
  assumes "distinct (map job_reply js)" and "length wires = length js" and "i < length js"
  shows "deliver_all js wires slots (job_reply (js ! i)) =
    snd (snd (oneshot_send (wires ! i) (slots (job_reply (js ! i)))))"
  using assms
proof (induction js arbitrary: wires slots i)
  case (Cons j js)
  then obtain w ws where w: "wires = w # ws" by (cases wires) auto
  have step: "deliver_all (j # js) (w # ws) slots = deliver_all js ws (deliver (job_reply j) w slots)"
    by (simp add: deliver_all_def)
  show ?case
  proof (cases i)
    case 0
    with Cons.prems(1) show ?thesis
      unfolding w step by (simp add: deliver_all_other deliver_apply)
  next
    case (Suc k)
    with Cons.prems have "js ! k \<in> set js" by simp
    with Cons.prems(1) have "job_reply (js ! k) \<noteq> job_reply j"
      by (metis distinct.simps(2) imageI list.map(2) list.set_map)
    then have "deliver (job_reply j) w slots (job_reply (js ! k)) = slots (job_reply (js ! k))"
      by (simp add: deliver_apply)
    with Suc Cons.prems Cons.IH [of ws k "deliver (job_reply j) w slots"] w show ?thesis
      unfolding w step by simp
  qed
qed simp

section \<open>Runs of the server\<close>

text \<open>
  Everything that happens to a server: handles submit requests, tasks and releases, requesters poll
  their replies or go away, handles are cloned and dropped, and the worker runs.
\<close>

inductive sv_reach :: "('s, 'e) broker_env \<Rightarrow> ('s, 'id, 'code) server \<Rightarrow> bool" for env where
  sv_build: "sv_reach env (build_with_timeout env session table format timeout)"
| sv_submit: "sv_reach env sv \<Longrightarrow> sv_reach env (snd (submit gate client payload sv))"
| sv_task: "sv_reach env sv \<Longrightarrow> sv_reach env (snd (submit_task client run sv))"
| sv_release_now: "sv_reach env sv \<Longrightarrow> sv_reach env (snd (release_now_bypassing_queue client run sv))"
| sv_poll: "sv_reach env sv \<Longrightarrow> sv_reach env (snd (await_reply slot sv))"
| sv_gone: "sv_reach env sv \<Longrightarrow>
    sv_reach env (sv\<lparr>sv_slots := (sv_slots sv)(slot := oneshot_receiver_drop (sv_slots sv slot))\<rparr>)"
| sv_clone: "sv_reach env sv \<Longrightarrow> sv_reach env (sv\<lparr>sv_jobs := sender_clone (sv_jobs sv)\<rparr>)"
| sv_drop: "sv_reach env sv \<Longrightarrow> sv_reach env (sv\<lparr>sv_jobs := snd (sender_drop (sv_jobs sv))\<rparr>)"
| sv_work: "sv_reach env sv \<Longrightarrow> worker_run env sv = Some (ended, sv') \<Longrightarrow> sv_reach env sv'"

text \<open>Queued jobs have reply slots of their own, which nobody has answered yet.\<close>

definition server_ok :: "('s, 'id, 'code) server \<Rightarrow> bool" where
  "server_ok sv \<longleftrightarrow> broker_ok (sv_broker sv) \<and> distinct (map job_reply (queue (sv_jobs sv))) \<and>
     (\<forall>j \<in> set (queue (sv_jobs sv)). job_reply j < sv_fresh sv \<and>
        os_value (sv_slots sv (job_reply j)) = None \<and> \<not> os_sender_dropped (sv_slots sv (job_reply j)))"

lemma enqueue_ok: "server_ok sv \<Longrightarrow> server_ok (snd (enqueue client work sv))"
  by (auto simp: server_ok_def enqueue_def chan_send_def oneshot_def oneshot_sender_drop_def Let_def)

lemma release_now_ok: "server_ok sv \<Longrightarrow> server_ok (snd (release_now_bypassing_queue client run sv))"
  using enqueue_ok [of "sv\<lparr>sv_release := _\<rparr>"]
  by (auto simp: release_now_bypassing_queue_def submit_task_def server_ok_def split: prod.splits sum.splits)

lemma run_work_broker_ok:
  "run_work env work br = Some (wire, br') \<Longrightarrow> broker_ok br \<Longrightarrow> broker_ok br'"
  by (auto simp: run_work_def dest: dispatch_frame split: work.splits)

lemma answers_broker_ok: "answers env js br = Some (wires, br') \<Longrightarrow> broker_ok br \<Longrightarrow> broker_ok br'"
  by (induction js arbitrary: br wires) (auto dest: run_work_broker_ok split: option.splits)

lemma worker_run_ok: "worker_run env sv = Some (ended, sv') \<Longrightarrow> server_ok sv \<Longrightarrow> server_ok sv'"
  by (auto simp: worker_run_answers server_ok_def chan_recv_def dest: answers_broker_ok)

lemma sv_reach_ok: "sv_reach env sv \<Longrightarrow> server_ok sv"
proof (induction rule: sv_reach.induct)
  case (sv_build session table format timeout)
  show ?case by (simp add: server_ok_def build_with_timeout_def channel_def broker_ok_new)
next
  case (sv_submit sv gate client payload)
  then show ?case by (simp add: submit_def enqueue_ok split: option.splits)
next
  case (sv_task sv client run)
  then show ?case by (simp add: submit_task_def enqueue_ok)
next
  case (sv_release_now sv client run)
  then show ?case by (simp add: release_now_ok)
next
  case (sv_poll sv slot)
  then show ?case
    by (auto simp: server_ok_def await_reply_def oneshot_recv_def split: option.splits)
qed (auto simp: server_ok_def oneshot_receiver_drop_def sender_clone_def sender_drop_def Let_def
       dest: worker_run_ok [unfolded server_ok_def])

section \<open>Properties of the broker\<close>

text \<open>
  C39: The broker forwards a request verbatim. Once an ASCII request is validated and routed, its command is declared
  readable or writable as the route needs, and the timer does not cut the call off, the
  bytes that reach the radio session are the client's own bytes, in one exchange for a read and one
  send for a write, and the answer is the session's answer. The session keeps its contract: it never reports a protocol error.
\<close>

theorem broker_forwards_verbatim:
  assumes "cat_session_contract (env_session env)" and "broker_ok br"
    and "br_format br = ascii_line_format debug"
    and "parse (br_table br) (br_format br) request = Inr req"
    and "table_find (br_table br) (req_code req) = Some d"
    and "route (br_format br) d (req_code req) (req_operation req) (length (req_parameters req)) =
      (Inr is_read :: 'e dispatch_error + bool)"
    and "if is_read then readable d else writable d"
    and "env_timer env (br_timeout br) (cl_session (br_client br)) = None"
  shows "dispatch (env :: ('s, 'e) broker_env) request br =
    (if is_read
     then map_option (\<lambda>(r, response, s). (map_sum (SessionError \<circ> ClientTransport) (\<lambda>_. Response response) r,
              br\<lparr>br_client := (br_client br)\<lparr>cl_session := s\<rparr>\<rparr>))
            (ses_execute (env_session env) request [] (cl_session (br_client br)))
     else map_option (\<lambda>(r, s). (map_sum (SessionError \<circ> ClientTransport) (\<lambda>_. NoResponseOutcome) r,
              br\<lparr>br_client := (br_client br)\<lparr>cl_session := s\<rparr>\<rparr>))
            (ses_send (env_session env) request (cl_session (br_client br))))"
proof -
  from assms(4) have request: "request = ascii_encode_request (req_code req) (req_parameters req)"
    unfolding assms(3) by (rule ascii_parse_InrD)
  with assms(3) have wire: "encode_request (br_format br) (req_code req) (req_parameters req) = request" by simp
  note never = cat_session_contract.never_protocol_error [OF assms(1)]
  show ?thesis
  proof (cases is_read)
    case True
    with assms(2,4-8) wire never show ?thesis
      by (fastforce simp: dispatch_def broker_ok_def with_request_timeout_def dispatch_call_def
          query_with_bytes_def validate_code_def execute_query_bytes_def
          split: option.splits sum.splits response_disposition.splits)
  next
    case False
    with assms(2,4-8) wire show ?thesis
      by (auto simp: dispatch_def broker_ok_def with_request_timeout_def dispatch_call_def
          client_set_def validate_code_def split: option.splits sum.splits)
  qed
qed

definition sample_env :: "(scripted_session, transport_error) broker_env" where
  "sample_env = \<lparr>env_session = scripted_session_ops, env_timer = (\<lambda>_ _. None), env_modem_lines = (\<lambda>_. None),
     env_release_lines = (\<lambda>_. None), env_err_display = (\<lambda>_. []), env_duration_debug = decimal\<rparr>"

definition sample_broker :: "(scripted_session, nat, bytes) broker" where
  "sample_broker = broker_with_format_and_timeout
     (with_script [\<lparr>expected_request = [70, 65, 59], ex_response = [70, 65, 49, 59]\<rparr>])
     sample_table (ascii_line_format id) DEFAULT_REQUEST_TIMEOUT"

lemmas sample_broker_eval = sample_env_def sample_broker_def broker_with_format_and_timeout_def
  client_with_format_def

theorem broker_forwards_verbatim_witness:
  "\<exists>br'. dispatch sample_env [70, 65, 59] sample_broker = Some (Inr (Response [70, 65, 49, 59]), br')"
proof -
  have "\<exists>req d. parse (br_table sample_broker) (br_format sample_broker) [70, 65, 59] = Inr req \<and>
      table_find (br_table sample_broker) (req_code req) = Some d \<and> req_operation req = OpQuery \<and> readable d"
    by (simp add: sample_broker_eval sample_eval lit_def)
  then obtain req d where r: "parse (br_table sample_broker) (br_format sample_broker) [70, 65, 59] = Inr req"
    "table_find (br_table sample_broker) (req_code req) = Some d" "req_operation req = OpQuery" "readable d"
    by blast
  have ok: "broker_ok sample_broker" by (simp only: sample_broker_def broker_ok_new)
  have "dispatch sample_env [70, 65, 59] sample_broker =
    map_option (\<lambda>(r, response, s). (map_sum (SessionError \<circ> ClientTransport) (\<lambda>_. Response response) r,
        sample_broker\<lparr>br_client := (br_client sample_broker)\<lparr>cl_session := s\<rparr>\<rparr>))
      (ses_execute (env_session sample_env) [70, 65, 59] [] (cl_session (br_client sample_broker)))"
    using broker_forwards_verbatim [where env = sample_env and is_read = True and br = sample_broker
        and debug = id, OF _ ok _ r(1,2)] r(3,4) scripted.cat_session_contract_axioms
    by (simp add: sample_broker_eval route_def)
  then show ?thesis
    by (simp add: sample_broker_eval model_defs)
qed

text \<open>
  C40: A request that does not parse, or whose routing is refused as malformed, never reaches the
  radio: the broker is left exactly as it was, and the answer does not depend on the session or
  the timer.
\<close>

theorem malformed_never_reaches_session:
  "(case parse (br_table br) (br_format br) request of
      Inl e \<Rightarrow> dispatch env request br = Some (Inl (Malformed e), br)
    | Inr _ \<Rightarrow> True) \<and>
   (case dispatch (env :: ('s, 'e) broker_env) request br of
      Some (Inl (Malformed e), br') \<Rightarrow>
        br' = br \<and> dispatch (any_env :: ('s, 'e) broker_env) request br = Some (Inl (Malformed e), br)
    | _ \<Rightarrow> True)"
proof -
  have "br' = br \<and> dispatch any_env request br = Some (Inl (Malformed e), br)"
    if "dispatch env request br = Some (Inl (Malformed e), br')" for e br'
    using dispatch_Malformed [OF that] by (auto simp: dispatch_def)
  then show ?thesis
    by (auto simp: dispatch_def [of env request br] split: sum.splits option.splits prod.splits dispatch_error.splits)
qed

text \<open>
  C10: A dispatched request is always answered. For every wire format that resolves commands through
  its table the second lookup cannot fail, and if the timer cuts off session calls that do not
  return, the broker returns whatever the radio does.
\<close>

theorem dispatch_always_answers:
  assumes "cat_wire_format (br_format br) framable" and "cuts_off env (br_timeout br)"
  shows "\<exists>r br'. dispatch env request br = Some (r, br')"
  using assms by (rule dispatch_total)

theorem dispatch_always_answers_witness:
  "\<exists>r br'. dispatch (sample_env\<lparr>env_timer := (\<lambda>_ s. Some s)\<rparr>) [70, 66, 59] sample_broker = Some (r, br')"
  by (rule dispatch_always_answers [where framable = ascii_framable])
     (use ascii.cat_wire_format_axioms in \<open>simp_all add: sample_broker_eval cuts_off_def\<close>)

text \<open>
  Reads and writes use different methods of the session: a request routed as a read does not
  depend on what a send would do, a request routed as a write not on what an exchange would do.
  A set-shaped request is a read exactly when its width is marked as a selector read, or the command
  can only be read.
\<close>

theorem dispatch_routes_by_width:
  assumes "parse (br_table br) (br_format br) request = Inr req"
    and "table_find (br_table br) (req_code req) = Some d"
    and "route (br_format br) d (req_code req) (req_operation req) (length (req_parameters req)) =
      (Inr is_read :: 'e dispatch_error + bool)"
  shows "(if is_read
      then dispatch (env\<lparr>env_session := (env_session env)\<lparr>ses_send := any_send\<rparr>\<rparr>) request br = dispatch env request br
      else dispatch (env\<lparr>env_session := (env_session env)\<lparr>ses_execute := any_execute\<rparr>\<rparr>) request br =
        dispatch (env :: ('s, 'e) broker_env) request br) \<and>
    (req_operation req = OpSet \<longrightarrow>
       is_read = (is_selector_read d (length (req_parameters req)) \<or> \<not> writable d))"
  using assms
  by (cases is_read)
     (auto simp: dispatch_def timed_read timed_write route_def split: if_splits command_operation.splits)

definition selector_table :: "(nat, bytes) command_table" where
  "selector_table = \<lparr>definitions = [\<lparr>def_id = 0, def_code = [77, 68], def_name = [], def_description = [],
     query_forms = [], set_forms = [form_selector_read 1, form_fixed OpSet 2], action_forms = [],
     response_forms = [], readable = True, writable = True\<rparr>]\<rparr>"

theorem dispatch_routes_by_width_witness:
  "dispatch (sample_env\<lparr>env_session := scripted_session_ops\<lparr>ses_send := \<lambda>_ _. None\<rparr>\<rparr>) [77, 68, 48, 59]
     (sample_broker\<lparr>br_table := selector_table\<rparr>) =
   dispatch sample_env [77, 68, 48, 59] (sample_broker\<lparr>br_table := selector_table\<rparr>)"
proof -
  let ?br = "sample_broker\<lparr>br_table := selector_table\<rparr>"
  have "\<exists>req d. parse (br_table ?br) (br_format ?br) [77, 68, 48, 59] = Inr req \<and>
      table_find (br_table ?br) (req_code req) = Some d \<and>
      route (br_format ?br) d (req_code req) (req_operation req) (length (req_parameters req)) =
        (Inr True :: transport_error dispatch_error + bool)"
    by (simp add: sample_broker_eval selector_table_def sample_eval route_def)
  then obtain req d where r: "parse (br_table ?br) (br_format ?br) [77, 68, 48, 59] = Inr req"
    "table_find (br_table ?br) (req_code req) = Some d"
    "route (br_format ?br) d (req_code req) (req_operation req) (length (req_parameters req)) =
        (Inr True :: transport_error dispatch_error + bool)"
    by blast
  from dispatch_routes_by_width [OF r, where env = sample_env and any_send = "\<lambda>_ _. None"] show ?thesis
    by (simp add: sample_env_def)
qed

text \<open>
  C8: The worker answers every queued job exactly once, in the order they were queued, each in its
  own reply slot, in every server that can be reached, whatever the radio does, as long as the timer cuts off
  session calls that do not return: job \<open>i\<close>'s slot receives the answer computed after
  the answers of the jobs before it, and a requester that went away changes neither the answers nor
  the radio. The queue is empty afterwards.
\<close>

theorem worker_answers_in_order:
  assumes "sv_reach env sv"
    and "cat_wire_format (br_format (sv_broker sv)) framable" and "cuts_off env (br_timeout (sv_broker sv))"
  shows "\<exists>ended sv' wires. worker_run env sv = Some (ended, sv') \<and> answers env (queue (sv_jobs sv)) (sv_broker sv) = Some (wires, sv_broker sv') \<and>
    length wires = length (queue (sv_jobs sv)) \<and> queue (sv_jobs sv') = [] \<and>
    (\<forall>i < length wires. let slot = job_reply (queue (sv_jobs sv) ! i) in
       (if os_receiver_dropped (sv_slots sv slot) then os_value (sv_slots sv' slot) = None
        else os_value (sv_slots sv' slot) = Some (wires ! i)))"
proof -
  from sv_reach_ok [OF assms(1)] have ok: "distinct (map job_reply (queue (sv_jobs sv)))"
    "\<And>i. i < length (queue (sv_jobs sv)) \<Longrightarrow> os_value (sv_slots sv (job_reply (queue (sv_jobs sv) ! i))) = None"
    by (simp_all add: server_ok_def)
  from answers_total [OF assms(2,3)] obtain wires br where w: "answers env (queue (sv_jobs sv)) (sv_broker sv) = Some (wires, br)"
    by blast
  define sv' where sv': "sv' = sv\<lparr>sv_jobs := snd (chan_recv ((sv_jobs sv)\<lparr>queue := []\<rparr>)), sv_broker := br,
      sv_slots := deliver_all (queue (sv_jobs sv)) wires (sv_slots sv)\<rparr>"
  have run: "worker_run env sv = Some (sender_count (sv_jobs sv) = 0, sv')"
    by (simp add: worker_run_answers w sv')
  have q: "queue (sv_jobs sv') = []" by (simp add: sv' chan_recv_def)
  have "os_value (snd (snd (oneshot_send v s))) = (if os_receiver_dropped s then os_value s else Some v)"
    for v and s :: "bytes oneshot_inner"
    by (simp add: oneshot_send_def oneshot_sender_drop_def)
  with w q ok answers_length [OF w] deliver_all_own [OF ok(1), of wires]
  have "answers env (queue (sv_jobs sv)) (sv_broker sv) = Some (wires, sv_broker sv') \<and>
    length wires = length (queue (sv_jobs sv)) \<and> queue (sv_jobs sv') = [] \<and>
    (\<forall>i < length wires. let slot = job_reply (queue (sv_jobs sv) ! i) in
       (if os_receiver_dropped (sv_slots sv slot) then os_value (sv_slots sv' slot) = None
        else os_value (sv_slots sv' slot) = Some (wires ! i)))"
    by (simp add: sv' Let_def)
  with run show ?thesis by blast
qed

lemma sample_server_queued:
  "sv_reach (sample_env\<lparr>env_timer := (\<lambda>_ s. Some s)\<rparr>) (snd (submit None 7 [70, 65, 59]
     (build_with_timeout (sample_env\<lparr>env_timer := (\<lambda>_ s. Some s)\<rparr>) (with_script [\<lparr>expected_request = [70, 65, 59], ex_response = [70, 65, 49, 59]\<rparr>])
        sample_table (ascii_line_format id) 5000)))"
  by (intro sv_submit sv_build)

lemma scripted_cuts_off: "cuts_off (sample_env\<lparr>env_timer := (\<lambda>_ s. Some s)\<rparr>) d"
  by (simp add: cuts_off_def sample_env_def)

theorem worker_answers_in_order_witness:
  "\<exists>ended sv'. worker_run (sample_env\<lparr>env_timer := (\<lambda>_ s. Some s)\<rparr>) (snd (submit None 7 [70, 65, 59]
     (build_with_timeout (sample_env\<lparr>env_timer := (\<lambda>_ s. Some s)\<rparr>) (with_script [\<lparr>expected_request = [70, 65, 59], ex_response = [70, 65, 49, 59]\<rparr>])
        sample_table (ascii_line_format id) 5000))) = Some (ended, sv') \<and> queue (sv_jobs sv') = []"
  using worker_answers_in_order [OF sample_server_queued, where framable = ascii_framable] ascii.cat_wire_format_axioms
    scripted_cuts_off
  by (auto simp: submit_def enqueue_def build_with_timeout_def broker_with_format_and_timeout_def channel_def chan_send_def Let_def)

text \<open>
  Releasing a line does not wait for the queue. With release lines the task runs at once on
  them and nothing else of the server changes; without them it is queued behind what is there, with
  at most one warning per broker; and after the worker is gone it is refused, never run.
\<close>

theorem release_bypasses_queue:
  "(case rl_lines (sv_release sv) of
      Some lines \<Rightarrow> release_now_bypassing_queue client run sv = (Inl (Some (run_task run (Some lines))), sv)
    | None \<Rightarrow>
        release_now_bypassing_queue client run sv =
          submit_task client run (sv\<lparr>sv_release := snd (should_warn_of_fallback (sv_release sv))\<rparr>)) \<and>
   fst (should_warn_of_fallback (snd (should_warn_of_fallback r))) = False \<and>
   fst (release_now_bypassing_queue client run (worker_drop sv)) = Inl None"
  by (auto simp: server_defs chan_send_def receiver_drop_def Let_def split: option.splits prod.splits)

text \<open>A slot that waits although the worker is gone, and stays so.\<close>

definition abandoned :: "nat \<Rightarrow> ('s, 'id, 'code) server \<Rightarrow> bool" where
  "abandoned slot sv \<longleftrightarrow> receiver_dropped (sv_jobs sv) \<and> sv_slots sv slot = oneshot \<and> slot < sv_fresh sv"

lemma abandoned_submit:
  "abandoned slot sv \<Longrightarrow>
     fst (submit None client p sv) = Inl None \<and> abandoned slot (snd (submit None client p sv))"
  by (simp add: abandoned_def submit_def enqueue_def chan_send_def Let_def)

lemma abandoned_later:
  "abandoned slot sv \<Longrightarrow> abandoned slot (fold (\<lambda>p sv. snd (submit None client p sv)) later sv)"
  by (induction later arbitrary: sv) (simp_all add: abandoned_submit)

text \<open>
  A job that is still queued when the worker is dropped is never answered. The queue outlives
  the receiver as long as a handle does, and the reply sender in it too: the requester's poll stays
  pending after any number of later submissions, although each of those reports at once that the
  broker is gone.
\<close>

theorem abandoned_job_waits_forever:
  fixes env :: "('s, 'e) broker_env" and table :: "('id, 'code) command_table"
  shows
  "case submit None client payload (build_with_timeout env session table format timeout) of
     (Inr slot, sv) \<Rightarrow>
       fst (await_reply slot (fold (\<lambda>p sv. snd (submit None client p sv)) later (worker_drop sv))) = None \<and>
       fst (submit None client payload (worker_drop sv)) = Inl None
   | (Inl _, _) \<Rightarrow> False"
proof -
  let ?new = "build_with_timeout env session table format timeout"
  obtain sv where sv: "submit None client payload ?new = (Inr 0, sv)" and closed: "abandoned 0 (worker_drop sv)"
    by (simp add: submit_def enqueue_def build_with_timeout_def channel_def chan_send_def worker_drop_def
        receiver_drop_def abandoned_def Let_def)
  from abandoned_later [OF closed, of client later] have
    "fst (await_reply 0 (fold (\<lambda>p sv. snd (submit None client p sv)) later (worker_drop sv))) = None"
    by (simp add: abandoned_def await_reply_def oneshot_recv_def oneshot_def)
  with abandoned_submit [OF closed, of client payload] sv show ?thesis by simp
qed

text \<open>
  An error reply can look like a CAT frame. The request \<^verbatim>\<open>X;;\<close> is rejected with a message that
  ends in the unknown code \<^verbatim>\<open>X;\<close>, so the reply starts with two letters and ends with the frame
  terminator.
\<close>

theorem error_reply_can_look_like_frame:
  "\<exists>wire. run_work sample_env (Wire (lit ''X;;'')) sample_broker = Some (wire, sample_broker) \<and>
     wire = lit ''ERR malformed request: unknown command: X;'' \<and> ascii_frame_complete wire"
proof -
  have "dispatch sample_env (lit ''X;;'') sample_broker = Some (Inl (Malformed (UnknownCommand (lit ''X;''))), sample_broker)"
    by (simp add: dispatch_def sample_broker_eval sample_eval)
  then show ?thesis
    by (simp add: run_work_def outcome_to_wire_def ascii_frame_complete_def lit_def)
qed

end
