(* ===== verification/Tcp_Session.thy ===== *)
theory Tcp_Session
  imports Transport_Core
begin

text \<open>
  The TCP transport: the length-prefixed codec (\<^verbatim>\<open>cat-transport-tcp/src/codec.rs\<close>) and the frame
  I/O and session built on it (\<^verbatim>\<open>cat-transport-tcp/src/session.rs\<close>).

  The socket is the third-party \<^verbatim>\<open>monoio::net::TcpStream\<close>: a record of the three calls the source
  makes, a parameter of every definition. What the proofs rely on is stated in the locale
  \<open>tcp_stream\<close>: the peer's bytes arrive in order and unchanged, cut anywhere, with finitely many
  interrupted reads before each of them.
\<close>

section \<open>The codec\<close>

definition MAX_FRAME_SIZE :: u32 where
  "MAX_FRAME_SIZE = 64 * 1024"

datatype tcp_session_error =
    TcpIo io_error
  | FrameTooLarge u32 u32

definition check_frame_len :: "u32 \<Rightarrow> tcp_session_error + unit" where
  "check_frame_len len =
     (if len > MAX_FRAME_SIZE then Inl (FrameTooLarge len MAX_FRAME_SIZE) else Inr ())"

text \<open>\<^verbatim>\<open>u32::try_from(n).unwrap_or(u32::MAX)\<close>.\<close>

definition u32_saturating :: "nat \<Rightarrow> u32" where
  "u32_saturating n = (if n < 2 ^ 32 then of_nat n else - 1)"

definition encode_frame :: "bytes \<Rightarrow> tcp_session_error + bytes" where
  "encode_frame payload =
     (let len = u32_saturating (length payload)
      in case check_frame_len len of
           Inl e \<Rightarrow> Inl e
         | Inr _ \<Rightarrow> Inr (u32_to_be_bytes len @ payload))"

text \<open>The argument is the four bytes of the prefix.\<close>

definition decode_len_prefix :: "bytes \<Rightarrow> tcp_session_error + u32" where
  "decode_len_prefix len_buf =
     (let len = u32_from_be_bytes len_buf
      in case check_frame_len len of Inl e \<Rightarrow> Inl e | Inr _ \<Rightarrow> Inr len)"

section \<open>Frame I/O\<close>

record 's tcp_io =
  io_read :: "nat \<Rightarrow> 's \<Rightarrow> (io_error + bytes) \<times> 's"
  io_read_exact :: "nat \<Rightarrow> 's \<Rightarrow> (io_error + bytes) \<times> 's"
  io_write_all :: "bytes \<Rightarrow> 's \<Rightarrow> (io_error + unit) \<times> 's"

definition tcp_write_frame :: "'s tcp_io \<Rightarrow> bytes \<Rightarrow> 's \<Rightarrow> (tcp_session_error + unit) \<times> 's" where
  "tcp_write_frame io payload s =
     (case encode_frame payload of
        Inl e \<Rightarrow> (Inl e, s)
      | Inr frame \<Rightarrow>
          (case io_write_all io frame s of
             (Inl e, s') \<Rightarrow> (Inl (TcpIo e), s')
           | (Inr _, s') \<Rightarrow> (Inr (), s')))"

text \<open>
  The loop of \<^verbatim>\<open>read_exact_or_eof\<close>; \<open>None\<close> if the socket reports interruptions forever.
\<close>

partial_function (option) read_exact_loop :: "'s tcp_io \<Rightarrow> nat \<Rightarrow> bytes \<Rightarrow> 's \<Rightarrow>
    ((tcp_session_error + bytes option) \<times> 's) option" where
  "read_exact_loop io len out s =
     (let remaining = len - length out
      in if remaining = 0 then Some (Inr (Some out), s)
         else (case io_read io remaining s of
                 (Inr chunk, s') \<Rightarrow>
                   if chunk = [] then
                     Some (if out = [] then Inr None else Inl (TcpIo UnexpectedEof), s')
                   else read_exact_loop io len (out @ chunk) s'
               | (Inl e, s') \<Rightarrow>
                   if e = Interrupted then read_exact_loop io len out s'
                   else Some (Inl (TcpIo e), s')))"

definition read_exact_or_eof :: "'s tcp_io \<Rightarrow> nat \<Rightarrow> 's \<Rightarrow> ((tcp_session_error + bytes option) \<times> 's) option" where
  "read_exact_or_eof io len s = read_exact_loop io len [] s"

definition read_frame_or_eof :: "'s tcp_io \<Rightarrow> 's \<Rightarrow> ((tcp_session_error + bytes option) \<times> 's) option" where
  "read_frame_or_eof io s =
     (case read_exact_or_eof io 4 s of
        None \<Rightarrow> None
      | Some (Inl e, s') \<Rightarrow> Some (Inl e, s')
      | Some (Inr None, s') \<Rightarrow> Some (Inr None, s')
      | Some (Inr (Some len_buf), s') \<Rightarrow>
          (case decode_len_prefix len_buf of
             Inl e \<Rightarrow> Some (Inl e, s')
           | Inr len \<Rightarrow>
               (case io_read_exact io (unat len) s' of
                  (Inl e, s'') \<Rightarrow> Some (Inl (TcpIo e), s'')
                | (Inr payload, s'') \<Rightarrow> Some (Inr (Some payload), s''))))"

definition read_frame :: "'s tcp_io \<Rightarrow> 's \<Rightarrow> ((tcp_session_error + bytes) \<times> 's) option" where
  "read_frame io s =
     (case read_frame_or_eof io s of
        None \<Rightarrow> None
      | Some (Inl e, s') \<Rightarrow> Some (Inl e, s')
      | Some (Inr (Some payload), s') \<Rightarrow> Some (Inr payload, s')
      | Some (Inr None, s') \<Rightarrow> Some (Inl (TcpIo UnexpectedEof), s'))"

definition tcp_execute :: "'s tcp_io \<Rightarrow> bytes \<Rightarrow> bytes \<Rightarrow> 's \<Rightarrow>
    ((tcp_session_error + response_disposition) \<times> bytes \<times> 's) option" where
  "tcp_execute io request response s =
     (case tcp_write_frame io request s of
        (Inl e, s') \<Rightarrow> Some (Inl e, response, s')
      | (Inr _, s') \<Rightarrow>
          (case read_frame io s' of
             None \<Rightarrow> None
           | Some (Inl e, s'') \<Rightarrow> Some (Inl e, response, s'')
           | Some (Inr payload, s'') \<Rightarrow> Some (Inr (disposition_of payload), response @ payload, s'')))"

definition tcp_session_ops :: "'s tcp_io \<Rightarrow> ('s, tcp_session_error) cat_session" where
  "tcp_session_ops io = session_with_defaults (tcp_execute io)"

declare encode_frame_def [wire_defs] decode_len_prefix_def [wire_defs] check_frame_len_def [wire_defs]
  u32_saturating_def [wire_defs] MAX_FRAME_SIZE_def [wire_defs]

interpretation tcp: cat_session_contract "tcp_session_ops io"
  by unfold_locales
     (auto simp: tcp_session_ops_def tcp_execute_def
       split: option.splits sum.splits prod.splits)

section \<open>What a reader gets from a byte stream\<close>

text \<open>
  Specifications over the bytes still to come, with no sockets, chunks or interruptions: an
  exact-length read, and the next frame.
\<close>

definition exact_spec :: "nat \<Rightarrow> bytes \<Rightarrow> tcp_session_error + bytes option" where
  "exact_spec len bs =
     (if len \<le> length bs then Inr (Some (take len bs))
      else if bs = [] then Inr None
      else Inl (TcpIo UnexpectedEof))"

definition frame_spec :: "bytes \<Rightarrow> tcp_session_error + bytes option" where
  "frame_spec bs =
     (if bs = [] then Inr None
      else if length bs < 4 then Inl (TcpIo UnexpectedEof)
      else (case decode_len_prefix (take 4 bs) of
              Inl e \<Rightarrow> Inl e
            | Inr len \<Rightarrow>
                if unat len \<le> length bs - 4 then Inr (Some (take (unat len) (drop 4 bs)))
                else Inl (TcpIo UnexpectedEof)))"

section \<open>What the socket promises\<close>

text \<open>
  \<open>content s\<close> is what the peer will still have sent when it closes, \<open>sent_out s\<close> what has been
  written to it; \<open>budget s\<close> bounds the interruptions before the next byte. Reads may be short and be
  interrupted; a reset connection or a failing write is outside this contract.
\<close>

locale tcp_stream =
  fixes io :: "'s tcp_io" and content :: "'s \<Rightarrow> bytes" and budget :: "'s \<Rightarrow> nat" and sent_out :: "'s \<Rightarrow> bytes"
  assumes read_chunk: "io_read io n s = (Inr chunk, s') \<Longrightarrow> 0 < n \<Longrightarrow>
      content s = chunk @ content s' \<and> length chunk \<le> n \<and> (chunk = [] \<longrightarrow> content s = []) \<and> sent_out s' = sent_out s"
    and read_error: "io_read io n s = (Inl e, s') \<Longrightarrow>
      e = Interrupted \<and> content s' = content s \<and> budget s' < budget s \<and> sent_out s' = sent_out s"
    and read_exact_full: "n \<le> length (content s) \<Longrightarrow>
      \<exists>s'. io_read_exact io n s = (Inr (take n (content s)), s') \<and> content s' = drop n (content s) \<and>
        sent_out s' = sent_out s"
    and read_exact_short: "length (content s) < n \<Longrightarrow>
      \<exists>s'. io_read_exact io n s = (Inl UnexpectedEof, s') \<and> sent_out s' = sent_out s"
    and write_all: "\<exists>s'. io_write_all io bs s = (Inr (), s') \<and> content s' = content s \<and> sent_out s' = sent_out s @ bs"
begin

lemma read_exact_loop_spec:
  "length out \<le> len \<Longrightarrow>
   \<exists>s'. read_exact_loop io len out s = Some (exact_spec len (out @ content s), s') \<and> sent_out s' = sent_out s \<and>
        (len \<le> length (out @ content s) \<longrightarrow> content s' = drop len (out @ content s))"
proof (induction "(out, s)" arbitrary: out s
    rule: wf_induct_rule [OF wf_measures [of "[\<lambda>(out, s). len - length out, \<lambda>(out, s). budget s]"]])
  case (1 out s)
  show ?case
  proof (cases "len - length out = 0")
    case True
    with "1.prems" show ?thesis
      by (subst read_exact_loop.simps) (simp add: exact_spec_def)
  next
    case False
    obtain r s' where r: "io_read io (len - length out) s = (r, s')" by fastforce
    show ?thesis
    proof (cases r)
      case (Inl e)
      with r read_error [of "len - length out" s e s']
      have e: "e = Interrupted" "content s' = content s" "budget s' < budget s" "sent_out s' = sent_out s" by simp_all
      with "1.hyps" [of out s'] "1.prems" show ?thesis
        using r Inl False by (subst read_exact_loop.simps) (simp add: Let_def)
    next
      case (Inr chunk)
      with r False read_chunk [of "len - length out" s chunk s']
      have c: "content s = chunk @ content s'" "length chunk \<le> len - length out"
        "chunk = [] \<longrightarrow> content s = []" "sent_out s' = sent_out s" by auto
      show ?thesis
      proof (cases "chunk = []")
        case True
        with c False r Inr show ?thesis
          by (subst read_exact_loop.simps) (auto simp: Let_def exact_spec_def)
      next
        case ne: False
        from ne c "1.prems" False have "len - (length out + length chunk) < len - length out"
          and "length out + length chunk \<le> len"
          by (cases chunk; simp)+
        with "1.hyps" [of "out @ chunk" s'] c ne False show ?thesis
          using r Inr by (subst read_exact_loop.simps) (simp add: Let_def)
      qed
    qed
  qed
qed

lemma read_frame_or_eof_spec:
  "\<exists>s'. read_frame_or_eof io s = Some (frame_spec (content s), s') \<and> sent_out s' = sent_out s \<and>
     (\<forall>p. frame_spec (content s) = Inr (Some p) \<longrightarrow> content s' = drop (4 + length p) (content s))"
proof -
  obtain s1 where s1: "read_exact_loop io 4 [] s = Some (exact_spec 4 (content s), s1)"
    "4 \<le> length (content s) \<longrightarrow> content s1 = drop 4 (content s)" "sent_out s1 = sent_out s"
    using read_exact_loop_spec [of "[]" 4 s] by auto
  show ?thesis
  proof (cases "4 \<le> length (content s)")
    case False
    with s1 show ?thesis
      by (auto simp: read_frame_or_eof_def read_exact_or_eof_def exact_spec_def frame_spec_def)
  next
    case True
    with s1 have hd: "read_exact_or_eof io 4 s = Some (Inr (Some (take 4 (content s))), s1)"
      and c1: "content s1 = drop 4 (content s)"
      by (auto simp: read_exact_or_eof_def exact_spec_def)
    from True have ne: "content s \<noteq> []" by auto
    show ?thesis
    proof (cases "decode_len_prefix (take 4 (content s))")
      case (Inl e)
      with hd ne True s1(3) show ?thesis by (simp add: read_frame_or_eof_def frame_spec_def)
    next
      case (Inr len)
      with hd ne True c1 s1(3) read_exact_full [of "unat len" s1] read_exact_short [of s1 "unat len"]
      show ?thesis
        by (cases "unat len \<le> length (content s1)")
           (auto simp: read_frame_or_eof_def frame_spec_def add.commute min_absorb2)
    qed
  qed
qed

end

section \<open>A stream of chunks\<close>

text \<open>
  A peer as a sequence of deliveries: what arrives between two interruptions, in pieces of any
  size. It keeps every promise of \<open>tcp_stream\<close>.
\<close>

datatype delivery = Chunk bytes | Interruption

fun delivered :: "delivery list \<Rightarrow> bytes" where
  "delivered [] = []"
| "delivered (Chunk c # ds) = c @ delivered ds"
| "delivered (Interruption # ds) = delivered ds"

fun chunk_read :: "nat \<Rightarrow> delivery list \<Rightarrow> (io_error + bytes) \<times> delivery list" where
  "chunk_read n [] = (Inr [], [])"
| "chunk_read n (Interruption # ds) = (Inl Interrupted, ds)"
| "chunk_read n (Chunk c # ds) =
     (if c = [] then chunk_read n ds
      else if length c \<le> n then (Inr c, ds)
      else (Inr (take n c), Chunk (drop n c) # ds))"

text \<open>The state is what is still to be delivered, and what has been written.\<close>

definition chunk_io :: "(delivery list \<times> bytes) tcp_io" where
  "chunk_io =
     \<lparr>io_read = (\<lambda>n (ds, out). case chunk_read n ds of (r, ds') \<Rightarrow> (r, ds', out)),
      io_read_exact = (\<lambda>n (ds, out). if n \<le> length (delivered ds)
         then (Inr (take n (delivered ds)), [Chunk (drop n (delivered ds))], out)
         else (Inl UnexpectedEof, [], out)),
      io_write_all = (\<lambda>bs (ds, out). (Inr (), ds, out @ bs))\<rparr>"

lemma chunk_read_Inr:
  "chunk_read n ds = (Inr chunk, ds') \<Longrightarrow> 0 < n \<Longrightarrow>
     delivered ds = chunk @ delivered ds' \<and> length chunk \<le> n \<and> (chunk = [] \<longrightarrow> delivered ds = [])"
  by (induction n ds arbitrary: chunk ds' rule: chunk_read.induct) (auto split: if_splits)

lemma chunk_read_Inl:
  "chunk_read n ds = (Inl e, ds') \<Longrightarrow>
     e = Interrupted \<and> delivered ds' = delivered ds \<and> length ds' < length ds"
  by (induction n ds arbitrary: e ds' rule: chunk_read.induct)
     (auto split: if_splits intro: less_SucI)

interpretation chunked: tcp_stream chunk_io "delivered \<circ> fst" "length \<circ> fst" snd
  by unfold_locales
     (auto simp: chunk_io_def dest: chunk_read_Inr chunk_read_Inl split: prod.splits if_splits)

section \<open>Lemmas on frames\<close>

lemma MAX_FRAME_SIZE_unat [simp]: "unat MAX_FRAME_SIZE = 65536"
  by (simp add: MAX_FRAME_SIZE_def)

lemma u32_saturating_le:
  "unat (u32_saturating n) \<le> 65536 \<longleftrightarrow> n \<le> 65536"
  by (simp add: u32_saturating_def unat_of_nat unsigned_minus_1_eq_mask mask_eq_exp_minus_1)

lemma encode_frame_cases:
  "encode_frame payload =
     (if length payload \<le> 65536 then Inr (u32_to_be_bytes (of_nat (length payload)) @ payload)
      else Inl (FrameTooLarge (u32_saturating (length payload)) MAX_FRAME_SIZE))"
proof (cases "length payload \<le> 65536")
  case True
  then have "u32_saturating (length payload) = of_nat (length payload)"
    by (simp add: u32_saturating_def)
  with True u32_saturating_le [of "length payload"] show ?thesis
    by (simp add: encode_frame_def check_frame_len_def word_less_nat_alt)
next
  case False
  with u32_saturating_le [of "length payload"] show ?thesis
    by (simp add: encode_frame_def check_frame_len_def word_less_nat_alt)
qed

lemma frame_spec_encoded:
  assumes "encode_frame payload = Inr frame"
  shows "frame_spec (frame @ rest) = Inr (Some payload)" and "length frame = 4 + length payload"
proof -
  from assms have len: "length payload \<le> 65536"
    and frame: "frame = u32_to_be_bytes (of_nat (length payload)) @ payload"
    by (simp_all add: encode_frame_cases split: if_splits)
  from len have u: "unat (of_nat (length payload) :: u32) = length payload"
    by (simp add: unat_of_nat)
  with len have "decode_len_prefix (u32_to_be_bytes (of_nat (length payload))) = Inr (of_nat (length payload))"
    by (simp add: decode_len_prefix_def check_frame_len_def word_less_nat_alt)
  moreover have "u32_to_be_bytes (of_nat (length payload)) \<noteq> []"
    by (simp flip: length_greater_0_conv)
  ultimately show "frame_spec (frame @ rest) = Inr (Some payload)"
    using u by (simp add: frame frame_spec_def)
  show "length frame = 4 + length payload" by (simp add: frame)
qed

section \<open>Properties of the TCP transport\<close>

text \<open>
  A frame written by the encoder is read back whole from any connection that delivers its
  bytes, however they are cut up and interrupted: the reader returns exactly the payload and
  leaves the stream at the first byte after the frame.
\<close>

theorem tcp_frame_roundtrip:
  assumes "tcp_stream io content budget sent_out" and "encode_frame payload = Inr frame"
    and "content s = frame @ rest"
  shows "\<exists>s'. read_frame_or_eof io s = Some (Inr (Some payload), s') \<and> content s' = rest"
  using tcp_stream.read_frame_or_eof_spec [OF assms(1), of s] frame_spec_encoded [OF assms(2)]
    assms(3)
  by auto

theorem tcp_frame_roundtrip_witness:
  "\<exists>s'. read_frame_or_eof chunk_io ([Chunk [0, 0], Interruption, Chunk [0, 3, 70], Chunk [65, 59, 0]], []) =
     Some (Inr (Some [70, 65, 59]), s') \<and> (delivered \<circ> fst) s' = [0]"
proof (rule tcp_frame_roundtrip [OF chunked.tcp_stream_axioms, of _ "[0, 0, 0, 3, 70, 65, 59]"])
  show "encode_frame [70, 65, 59] = Inr [0, 0, 0, 3, 70, 65, 59]"
    by (simp add: encode_frame_cases u32_to_be_bytes_def be_bytes_def)
qed simp

text \<open>
  C23: Reading a frame always returns, with the answer the specification gives for the bytes still
  to come: a clean end only when nothing at all arrived, an error for a cut or oversized frame, and
  otherwise the payload of the declared length. The socket's reads may be short and be interrupted, and fail in no other way.
\<close>

theorem tcp_read_refines_spec:
  assumes "tcp_stream io content budget sent_out"
  shows "\<exists>s'. read_frame_or_eof io s = Some (frame_spec (content s), s') \<and>
    (case frame_spec (content s) of
       Inr None \<Rightarrow> content s = []
     | Inr (Some p) \<Rightarrow> length p \<le> 65536 \<and> content s' = drop (4 + length p) (content s)
     | Inl _ \<Rightarrow> content s \<noteq> [])"
proof -
  have "length p \<le> 65536" if "frame_spec (content s) = Inr (Some p)" for p
    using that
    by (auto simp: frame_spec_def decode_len_prefix_def check_frame_len_def word_less_nat_alt Let_def
        split: if_splits sum.splits)
  moreover have "content s = []" if "frame_spec (content s) = Inr None"
    using that by (simp add: frame_spec_def split: if_splits sum.splits)
  moreover have "content s \<noteq> []" if "frame_spec (content s) = Inl e" for e
    using that by (auto simp: frame_spec_def)
  ultimately show ?thesis
    using tcp_stream.read_frame_or_eof_spec [OF assms, of s]
    by (auto split: sum.splits option.splits)
qed

theorem tcp_read_refines_spec_witness:
  "\<exists>s'. read_frame_or_eof chunk_io ([Chunk [0], Interruption, Chunk [0, 0, 9, 70]], []) =
     Some (Inl (TcpIo UnexpectedEof), s')"
proof -
  have "frame_spec ((delivered \<circ> fst) ([Chunk [0], Interruption, Chunk [0, 0, 9, 70]], [] :: bytes)) = Inl (TcpIo UnexpectedEof)"
    by (simp add: frame_spec_def decode_len_prefix_def check_frame_len_def u32_from_be_bytes_def
        be_value_def MAX_FRAME_SIZE_def)
  with tcp_read_refines_spec [OF chunked.tcp_stream_axioms, of "([Chunk [0], Interruption, Chunk [0, 0, 9, 70]], [])"]
  show ?thesis by auto
qed

text \<open>
  The encoder accepts a payload exactly up to the maximum frame size, the saturated length of
  a payload of four gigabytes or more included, and a refused request is never written.
\<close>

theorem tcp_oversized_never_written:
  "(case encode_frame payload of
      Inr frame \<Rightarrow> length payload \<le> 65536 \<and> length frame = 4 + length payload
    | Inl e \<Rightarrow> 65536 < length payload \<and> tcp_write_frame io payload s = (Inl e, s) \<and>
        tcp_execute io payload response s = Some (Inl e, response, s))"
  by (simp add: encode_frame_cases tcp_write_frame_def tcp_execute_def)

end
