(* ===== verification/Udp_Session.thy ===== *)
theory Udp_Session
  imports Transport_Core
begin

text \<open>
  The UDP transport: the envelope codec and the client's cache of completed request ids
  (\<^verbatim>\<open>cat-transport-udp/src/codec.rs\<close>) and the session (\<^verbatim>\<open>cat-transport-udp/src/session.rs\<close>).

  The socket and the timer are third-party (\<^verbatim>\<open>monoio\<close>): a record of the calls the session makes.
  The locale \<open>udp_socket\<close> says what is relied on: a receive under a deadline yields the datagrams
  that arrive before it one by one, and then reports that the time is up.
\<close>

section \<open>The envelope codec\<close>

definition SESSION_ID_LEN :: nat where "SESSION_ID_LEN = 8"
definition REQUEST_ID_LEN :: nat where "REQUEST_ID_LEN = 8"
definition ENVELOPE_HEADER_LEN :: nat where "ENVELOPE_HEADER_LEN = SESSION_ID_LEN + REQUEST_ID_LEN"
definition MAX_PAYLOAD_SIZE :: nat where "MAX_PAYLOAD_SIZE = 1024"
definition MAX_DATAGRAM_SIZE :: nat where "MAX_DATAGRAM_SIZE = ENVELOPE_HEADER_LEN + MAX_PAYLOAD_SIZE"
definition DEDUP_CACHE_CAPACITY :: nat where "DEDUP_CACHE_CAPACITY = 32"

lemmas udp_sizes [simp] = SESSION_ID_LEN_def REQUEST_ID_LEN_def ENVELOPE_HEADER_LEN_def
  MAX_PAYLOAD_SIZE_def MAX_DATAGRAM_SIZE_def DEDUP_CACHE_CAPACITY_def

datatype 'addr udp_session_error =
    UdpIo io_error
  | UdpTimeout 'addr nat
  | PayloadTooLarge nat nat

definition encode_envelope :: "u64 \<Rightarrow> u64 \<Rightarrow> bytes \<Rightarrow> 'addr udp_session_error + bytes" where
  "encode_envelope session_id request_id payload =
     (if length payload > MAX_PAYLOAD_SIZE
      then Inl (PayloadTooLarge (length payload) MAX_PAYLOAD_SIZE)
      else Inr (u64_to_be_bytes session_id @ u64_to_be_bytes request_id @ payload))"

definition decode_envelope :: "bytes \<Rightarrow> (u64 \<times> u64 \<times> bytes) option" where
  "decode_envelope datagram =
     (if length datagram < ENVELOPE_HEADER_LEN then None
      else Some (u64_from_be_bytes (take SESSION_ID_LEN datagram),
                 u64_from_be_bytes (take REQUEST_ID_LEN (drop SESSION_ID_LEN datagram)),
                 drop ENVELOPE_HEADER_LEN datagram))"

record request_id_cache =
  entries :: "u64 list"

definition request_id_cache_new :: request_id_cache where
  "request_id_cache_new = \<lparr>entries = []\<rparr>"

definition remember_completed :: "u64 \<Rightarrow> request_id_cache \<Rightarrow> request_id_cache" where
  "remember_completed request_id c =
     (let kept = (if length (entries c) \<ge> DEDUP_CACHE_CAPACITY then drop 1 (entries c) else entries c)
      in c\<lparr>entries := kept @ [request_id]\<rparr>)"

definition is_known_duplicate :: "u64 \<Rightarrow> request_id_cache \<Rightarrow> bool" where
  "is_known_duplicate request_id c \<longleftrightarrow> List.member (entries c) request_id"

section \<open>The session\<close>

datatype 'addr recv_outcome = Received 'addr bytes | RecvError io_error | RecvElapsed

record ('k, 'addr) udp_io =
  send_to :: "bytes \<Rightarrow> 'addr \<Rightarrow> 'k \<Rightarrow> (io_error + unit) \<times> 'k"
  recv_before :: "nat \<Rightarrow> nat \<Rightarrow> 'k \<Rightarrow> 'addr recv_outcome \<times> 'k"
  clock :: "'k \<Rightarrow> nat"

record ('k, 'addr) udp_cat_session =
  socket :: 'k
  peer_addr :: 'addr
  us_session_id :: u64
  next_request_id :: u64
  dedup_cache :: request_id_cache
  response_timeout :: nat

text \<open>The random session id is an argument.\<close>

definition udp_session_new :: "u64 \<Rightarrow> 'k \<Rightarrow> 'addr \<Rightarrow> nat \<Rightarrow> ('k, 'addr) udp_cat_session" where
  "udp_session_new random_session_id sock peer timeout =
     \<lparr>socket = sock, peer_addr = peer, us_session_id = random_session_id, next_request_id = 0,
      dedup_cache = request_id_cache_new, response_timeout = timeout\<rparr>"

text \<open>
  The receive loop of \<^verbatim>\<open>execute\<close>: the payload of the first datagram that passes the three checks.
  \<open>None\<close> if irrelevant datagrams keep arriving before the deadline forever.
\<close>

partial_function (option) udp_wait :: "('k, 'addr) udp_io \<Rightarrow> nat \<Rightarrow> u64 \<Rightarrow> ('k, 'addr) udp_cat_session \<Rightarrow>
    (('addr udp_session_error + bytes) \<times> ('k, 'addr) udp_cat_session) option" where
  "udp_wait io deadline request_id u =
     (case recv_before io deadline MAX_DATAGRAM_SIZE (socket u) of
        (RecvError e, k) \<Rightarrow> Some (Inl (UdpIo e), u\<lparr>socket := k\<rparr>)
      | (RecvElapsed, k) \<Rightarrow> Some (Inl (UdpTimeout (peer_addr u) (response_timeout u)), u\<lparr>socket := k\<rparr>)
      | (Received from datagram, k) \<Rightarrow>
          if from \<noteq> peer_addr u then udp_wait io deadline request_id (u\<lparr>socket := k\<rparr>)
          else (case decode_envelope datagram of
                  None \<Rightarrow> udp_wait io deadline request_id (u\<lparr>socket := k\<rparr>)
                | Some (incoming_session_id, incoming_request_id, payload) \<Rightarrow>
                    if incoming_session_id \<noteq> us_session_id u
                    then udp_wait io deadline request_id (u\<lparr>socket := k\<rparr>)
                    else if incoming_request_id \<noteq> request_id
                    then udp_wait io deadline request_id (u\<lparr>socket := k\<rparr>)
                    else Some (Inr payload,
                           u\<lparr>socket := k, dedup_cache := remember_completed request_id (dedup_cache u)\<rparr>)))"

definition udp_execute :: "('k, 'addr) udp_io \<Rightarrow> bytes \<Rightarrow> bytes \<Rightarrow> ('k, 'addr) udp_cat_session \<Rightarrow>
    (('addr udp_session_error + response_disposition) \<times> bytes \<times> ('k, 'addr) udp_cat_session) option" where
  "udp_execute io request response u0 =
     (let request_id = next_request_id u0 + 1;
          u = u0\<lparr>next_request_id := request_id\<rparr>
      in case encode_envelope (us_session_id u) request_id request of
           Inl e \<Rightarrow> Some (Inl e, response, u)
         | Inr datagram \<Rightarrow>
             (case send_to io datagram (peer_addr u) (socket u) of
                (Inl e, k) \<Rightarrow> Some (Inl (UdpIo e), response, u\<lparr>socket := k\<rparr>)
              | (Inr _, k) \<Rightarrow>
                  (case udp_wait io (clock io k + response_timeout u) request_id (u\<lparr>socket := k\<rparr>) of
                     None \<Rightarrow> None
                   | Some (Inl e, u') \<Rightarrow> Some (Inl e, response, u')
                   | Some (Inr payload, u') \<Rightarrow>
                       Some (Inr (disposition_of payload), response @ payload, u'))))"

definition udp_session_ops :: "('k, 'addr) udp_io \<Rightarrow> (('k, 'addr) udp_cat_session, 'addr udp_session_error) cat_session" where
  "udp_session_ops io = session_with_defaults (udp_execute io)"

interpretation udp: cat_session_contract "udp_session_ops io"
  by unfold_locales
     (auto simp: udp_session_ops_def udp_execute_def Let_def
       split: option.splits sum.splits prod.splits)

section \<open>What the socket promises\<close>

text \<open>The first datagram of a list that answers a request, by the three checks of the session.\<close>

definition accepted :: "'addr \<Rightarrow> u64 \<Rightarrow> u64 \<Rightarrow> 'addr \<times> bytes \<Rightarrow> bytes option" where
  "accepted peer session_id request_id = (\<lambda>(from, datagram).
     case decode_envelope datagram of
       None \<Rightarrow> None
     | Some (s, r, payload) \<Rightarrow>
         if from = peer \<and> s = session_id \<and> r = request_id then Some payload else None)"

fun first_accepted :: "'addr \<Rightarrow> u64 \<Rightarrow> u64 \<Rightarrow> ('addr \<times> bytes) list \<Rightarrow> bytes option" where
  "first_accepted peer s r [] = None"
| "first_accepted peer s r (d # ds) =
     (case accepted peer s r d of Some payload \<Rightarrow> Some payload | None \<Rightarrow> first_accepted peer s r ds)"

text \<open>
  \<open>arrivals deadline k\<close> are the datagrams that reach the socket before the deadline, finitely many. A
  socket whose receive fails is outside this contract.
\<close>

locale udp_socket =
  fixes io :: "('k, 'addr) udp_io" and arrivals :: "nat \<Rightarrow> 'k \<Rightarrow> ('addr \<times> bytes) list"
  assumes recv_quiet: "arrivals deadline k = [] \<Longrightarrow> \<exists>k'. recv_before io deadline n k = (RecvElapsed, k')"
    and recv_next: "arrivals deadline k = (from, datagram) # ds \<Longrightarrow>
      \<exists>k'. recv_before io deadline n k = (Received from (take n datagram), k') \<and> arrivals deadline k' = ds"
begin

lemma udp_wait_spec:
  "\<exists>k. udp_wait io deadline request_id u =
    Some (case first_accepted (peer_addr u) (us_session_id u) request_id
            (map (apsnd (take MAX_DATAGRAM_SIZE)) (arrivals deadline (socket u))) of
        Some payload \<Rightarrow> (Inr payload, u\<lparr>socket := k,
           dedup_cache := remember_completed request_id (dedup_cache u)\<rparr>)
      | None \<Rightarrow> (Inl (UdpTimeout (peer_addr u) (response_timeout u)), u\<lparr>socket := k\<rparr>))"
proof (induction "arrivals deadline (socket u)" arbitrary: u)
  case Nil
  then have "arrivals deadline (socket u) = []" by simp
  with recv_quiet [OF this, of MAX_DATAGRAM_SIZE] show ?case
    by (subst udp_wait.simps) (auto simp del: udp_sizes)
next
  case (Cons d ds)
  obtain src dg where d: "d = (src, dg)" by fastforce
  let ?dg = "take MAX_DATAGRAM_SIZE dg"
  from Cons.hyps(2) d have a: "arrivals deadline (socket u) = (src, dg) # ds" by simp
  obtain k where k: "recv_before io deadline MAX_DATAGRAM_SIZE (socket u) = (Received src ?dg, k)"
    "arrivals deadline k = ds"
    using recv_next [OF a, of MAX_DATAGRAM_SIZE] by auto
  note IH = Cons.hyps(1) [of "u\<lparr>socket := k\<rparr>"]
  show ?case
  proof (cases "accepted (peer_addr u) (us_session_id u) request_id (src, ?dg)")
    case None
    with IH k a show ?thesis
      by (subst udp_wait.simps) (auto simp: accepted_def simp del: udp_sizes split: option.splits if_splits)
  next
    case (Some payload)
    then show ?thesis
      using k a by (subst udp_wait.simps)
        (auto simp: accepted_def simp del: udp_sizes split: option.splits if_splits)
  qed
qed

end

section \<open>A socket with a list of arrivals\<close>

text \<open>A socket that delivers a fixed list of datagrams and then runs into the deadline.\<close>

definition queued_io :: "(('addr \<times> bytes) list, 'addr) udp_io" where
  "queued_io =
     \<lparr>send_to = (\<lambda>_ _ k. (Inr (), k)),
      recv_before = (\<lambda>_ n k. case k of
         [] \<Rightarrow> (RecvElapsed, [])
       | (src, d) # ds \<Rightarrow> (Received src (take n d), ds)),
      clock = (\<lambda>_. 0)\<rparr>"

interpretation queued: udp_socket queued_io "\<lambda>_ k. k"
  by unfold_locales (auto simp: queued_io_def)

section \<open>Lemmas\<close>

lemma decode_encode_envelope:
  "encode_envelope s r payload = Inr datagram \<Longrightarrow> decode_envelope datagram = Some (s, r, payload)"
  by (auto simp: encode_envelope_def decode_envelope_def split: if_splits)

lemma encode_decode_envelope:
  assumes "decode_envelope datagram = Some (s, r, payload)"
  shows "datagram = u64_to_be_bytes s @ u64_to_be_bytes r @ payload"
proof -
  from assms have len: "16 \<le> length datagram"
    and s: "s = u64_from_be_bytes (take 8 datagram)"
    and r: "r = u64_from_be_bytes (take 8 (drop 8 datagram))"
    and p: "payload = drop 16 datagram"
    by (auto simp: decode_envelope_def split: if_splits)
  from len have "u64_to_be_bytes s = take 8 datagram" "u64_to_be_bytes r = take 8 (drop 8 datagram)"
    unfolding s r by (simp_all add: u64_from_to_be_bytes)
  moreover have "datagram = take 8 datagram @ take 8 (drop 8 datagram) @ drop 16 datagram"
    by (metis append_take_drop_id drop_drop numeral_Bit0)
  ultimately show ?thesis by (simp add: p)
qed

lemma remember_completed_entries:
  "entries (remember_completed r c) =
     (if 32 \<le> length (entries c) then drop 1 (entries c) else entries c) @ [r]"
  by (simp add: remember_completed_def Let_def)

lemma remember_many:
  "entries (fold remember_completed ids request_id_cache_new) = drop (length ids - 32) ids"
proof (induction ids rule: rev_induct)
  case Nil
  show ?case by (simp add: request_id_cache_new_def)
next
  case (snoc x ids)
  have "Suc (length ids - 32) = length ids - 31" if "32 \<le> length ids" using that by simp
  with snoc show ?case
    by (cases "32 \<le> length ids") (simp_all add: remember_completed_entries)
qed

section \<open>Properties of the UDP transport\<close>

text \<open>
  Envelope encoding and decoding are inverse: a datagram decodes to a session id, request id
  and payload of legal size exactly when the encoder produces it from them.
\<close>

theorem envelope_roundtrip:
  "decode_envelope datagram = Some (s, r, payload) \<and> length payload \<le> MAX_PAYLOAD_SIZE \<longleftrightarrow>
   encode_envelope s r payload = (Inr datagram :: 'addr udp_session_error + bytes)"
proof
  assume "decode_envelope datagram = Some (s, r, payload) \<and> length payload \<le> MAX_PAYLOAD_SIZE"
  then show "encode_envelope s r payload = (Inr datagram :: 'addr udp_session_error + bytes)"
    using encode_decode_envelope [of datagram s r payload] by (simp add: encode_envelope_def)
next
  assume "encode_envelope s r payload = (Inr datagram :: 'addr udp_session_error + bytes)"
  then show "decode_envelope datagram = Some (s, r, payload) \<and> length payload \<le> MAX_PAYLOAD_SIZE"
    using decode_encode_envelope [of s r payload datagram]
    by (auto simp: encode_envelope_def split: if_splits)
qed

text \<open>
  C27: A UDP exchange whose request was sent always returns. It answers with the payload of the
  first datagram from the peer that carries this session's id and this request's id, whatever else
  arrives before it, and with a timeout if no such datagram arrives before the deadline. Receiving
  does not fail, and finitely many datagrams arrive before the deadline.
\<close>

theorem udp_execute_correlates:
  fixes io :: "('k, 'addr) udp_io" and u :: "('k, 'addr) udp_cat_session"
    and sent :: "bytes \<Rightarrow> 'addr \<Rightarrow> 'k \<Rightarrow> 'k" and request :: bytes
  assumes "udp_socket io arrivals" and "length request \<le> MAX_PAYLOAD_SIZE"
    and "\<And>d a k. send_to io d a k = (Inr (), sent d a k)"
  defines "r \<equiv> next_request_id u + 1"
  defines "datagram \<equiv> u64_to_be_bytes (us_session_id u) @ u64_to_be_bytes r @ request"
  defines "k \<equiv> sent datagram (peer_addr u) (socket u)"
  shows "\<exists>u'. udp_execute io request response u =
      Some (case first_accepted (peer_addr u) (us_session_id u) r
              (map (apsnd (take MAX_DATAGRAM_SIZE)) (arrivals (clock io k + response_timeout u) k)) of
          Some payload \<Rightarrow> (Inr (disposition_of payload), response @ payload, u')
        | None \<Rightarrow> (Inl (UdpTimeout (peer_addr u) (response_timeout u)), response, u')) \<and>
      next_request_id u' = r \<and> us_session_id u' = us_session_id u \<and> peer_addr u' = peer_addr u"
proof -
  have enc: "encode_envelope (us_session_id u) r request = (Inr datagram :: 'addr udp_session_error + bytes)"
    using assms(2) by (simp add: encode_envelope_def datagram_def)
  from udp_socket.udp_wait_spec [OF assms(1), of "clock io k + response_timeout u" r
      "u\<lparr>next_request_id := r, socket := k\<rparr>"] enc
  show ?thesis
    by (auto simp: udp_execute_def Let_def r_def [symmetric] assms(3) k_def [symmetric] simp del: udp_sizes
        split: option.splits)
qed

theorem udp_execute_correlates_witness:
  "\<exists>u'. udp_execute queued_io [70, 65, 59] []
      (udp_session_new 7 [(9, []), (5, u64_to_be_bytes 7 @ u64_to_be_bytes 1 @ [70, 59])] (5 :: nat) 100) =
      Some (Inr ResponseWritten, [70, 59], u')"
proof -
  let ?k = "[(9 :: nat, []), (5, u64_to_be_bytes 7 @ u64_to_be_bytes 1 @ [70, 59])]"
  let ?u = "udp_session_new 7 ?k (5 :: nat) 100"
  have "first_accepted (peer_addr ?u) (us_session_id ?u) (next_request_id ?u + 1)
      (map (apsnd (take MAX_DATAGRAM_SIZE)) (socket ?u)) = Some [70, 59]"
    by (simp add: udp_session_new_def accepted_def decode_envelope_def)
  moreover have "socket ?u = ?k" by (simp add: udp_session_new_def)
  ultimately show ?thesis
    using udp_execute_correlates [OF queued.udp_socket_axioms, 
        where request = "[70, 65, 59]" and sent = "\<lambda>_ _ k. k" and u = ?u and response = "[]"]
    by (auto simp: queued_io_def disposition_of_def)
qed

text \<open>
  The cache of completed requests holds the last thirty-two of them, oldest first, after any
  sequence of completions.
\<close>

theorem request_id_cache_fifo:
  "entries (fold remember_completed ids request_id_cache_new) = drop (length ids - DEDUP_CACHE_CAPACITY) ids \<and>
   length (entries (fold remember_completed ids request_id_cache_new)) \<le> DEDUP_CACHE_CAPACITY \<and>
   (is_known_duplicate r (fold remember_completed ids request_id_cache_new) \<longleftrightarrow>
      r \<in> set (drop (length ids - DEDUP_CACHE_CAPACITY) ids))"
  by (simp add: remember_many is_known_duplicate_def)

end
