(* ===== verification/Net_Server.thy ===== *)
theory Net_Server
  imports Tcp_Session Udp_Session
begin

text \<open>
  The network listeners of \<^verbatim>\<open>cat-server\<close>: the client registry (\<^verbatim>\<open>registry.rs\<close>), the cache that answers
  repeated datagrams (\<^verbatim>\<open>dedup.rs\<close>), the TCP connection handler (\<^verbatim>\<open>tcp.rs\<close>) and the UDP listener
  (\<^verbatim>\<open>udp.rs\<close>).

  A listener reaches the broker only through \<^verbatim>\<open>BrokerHandle::submit\<close>. The TCP handler takes it as a
  function; for UDP, where one task per datagram runs concurrently with all others, a step relation
  lets tasks start and answers arrive in any order.
\<close>

section \<open>The client registry\<close>

record client_registry =
  next_id :: u64
  active :: "u64 set"

definition registry_new :: client_registry where
  "registry_new = \<lparr>next_id = 0, active = {}\<rparr>"

definition register :: "client_registry \<Rightarrow> u64 \<times> client_registry" where
  "register r = (let i = next_id r in (i, r\<lparr>next_id := i + 1, active := insert i (active r)\<rparr>))"

definition unregister :: "u64 \<Rightarrow> client_registry \<Rightarrow> client_registry" where
  "unregister i r = r\<lparr>active := active r - {i}\<rparr>"

definition is_active :: "u64 \<Rightarrow> client_registry \<Rightarrow> bool" where
  "is_active i r \<longleftrightarrow> i \<in> active r"

definition active_count :: "client_registry \<Rightarrow> nat" where
  "active_count r = card (active r)"

section \<open>The cache of answers\<close>

type_synonym 'addr request_key = "'addr \<times> u64 \<times> u64"

definition SERVER_DEDUP_CAPACITY :: nat where "SERVER_DEDUP_CAPACITY = 256"

text \<open>Keys are triples of peer, session id and request id; the cache only compares them.\<close>

record 'k dedup_cache =
  order :: "'k list"
  responses :: "'k \<Rightarrow> bytes option"

definition dedup_new :: "'k dedup_cache" where
  "dedup_new = \<lparr>order = [], responses = (\<lambda>_. None)\<rparr>"

definition dedup_get :: "'k \<Rightarrow> 'k dedup_cache \<Rightarrow> bytes option" where
  "dedup_get key c = responses c key"

definition dedup_insert :: "'k \<Rightarrow> bytes \<Rightarrow> 'k dedup_cache \<Rightarrow> 'k dedup_cache" where
  "dedup_insert key response c =
     (let c1 = (if responses c key = None then
                  (let c0 = (if length (order c) \<ge> SERVER_DEDUP_CAPACITY then
                               (case order c of
                                  [] \<Rightarrow> c
                                | oldest # rest \<Rightarrow> c\<lparr>order := rest, responses := (responses c)(oldest := None)\<rparr>)
                             else c)
                   in c0\<lparr>order := order c0 @ [key]\<rparr>)
                else c)
      in c1\<lparr>responses := (responses c1)(key := Some response)\<rparr>)"

section \<open>The TCP connection handler\<close>

definition tcp_error_display :: "(io_error \<Rightarrow> bytes) \<Rightarrow> tcp_session_error \<Rightarrow> bytes" where
  "tcp_error_display io_display e =
     (case e of
        TcpIo err \<Rightarrow> lit ''I/O error: '' @ io_display err
      | FrameTooLarge len m \<Rightarrow> lit ''frame length '' @ decimal (unat len) @
          lit '' exceeds max frame size '' @ decimal (unat m) @ lit '' bytes'')"

text \<open>
  \<open>submit client payload b\<close> is the answer of the broker in state \<open>b\<close>: \<open>None\<close> if it never comes,
  \<open>Some (None, b')\<close> if the broker is gone.
\<close>

type_synonym 'b submit_fn = "u64 \<Rightarrow> bytes \<Rightarrow> 'b \<Rightarrow> (bytes option \<times> 'b) option"

partial_function (option) connection_loop :: "'s tcp_io \<Rightarrow> (io_error \<Rightarrow> bytes) \<Rightarrow> 'b submit_fn \<Rightarrow> u64 \<Rightarrow>
    's \<Rightarrow> 'b \<Rightarrow> ('s \<times> 'b) option" where
  "connection_loop io io_display submit client s b =
     (case read_frame_or_eof io s of
        None \<Rightarrow> None
      | Some (Inr (Some payload), s1) \<Rightarrow>
          (case submit client payload b of
             None \<Rightarrow> None
           | Some (None, b1) \<Rightarrow> Some (s1, b1)
           | Some (Some response, b1) \<Rightarrow>
               (case tcp_write_frame io response s1 of
                  (Inl _, s2) \<Rightarrow> Some (s2, b1)
                | (Inr _, s2) \<Rightarrow> connection_loop io io_display submit client s2 b1))
      | Some (Inr None, s1) \<Rightarrow> Some (s1, b)
      | Some (Inl e, s1) \<Rightarrow>
          Some (snd (tcp_write_frame io (lit ''ERR '' @ tcp_error_display io_display e) s1), b))"

definition handle_connection :: "'s tcp_io \<Rightarrow> (io_error \<Rightarrow> bytes) \<Rightarrow> 'b submit_fn \<Rightarrow> 's \<Rightarrow> 'b \<Rightarrow>
    client_registry \<Rightarrow> ('s \<times> 'b \<times> client_registry) option" where
  "handle_connection io io_display submit s b reg =
     (case register reg of
        (client, reg1) \<Rightarrow>
          map_option (\<lambda>(s', b'). (s', b', unregister client reg1))
            (connection_loop io io_display submit client s b))"

section \<open>The UDP listener\<close>

text \<open>The datagram a response goes out in; \<open>None\<close> would be the panic of the fallback.\<close>

definition response_datagram :: "u64 \<Rightarrow> u64 \<Rightarrow> bytes \<Rightarrow> bytes option" where
  "response_datagram session_id request_id payload =
     (case encode_envelope session_id request_id payload :: unit udp_session_error + bytes of
        Inr datagram \<Rightarrow> Some datagram
      | Inl _ \<Rightarrow>
          (case encode_envelope session_id request_id (lit ''ERR response too large to send'')
             :: unit udp_session_error + bytes of
             Inr datagram \<Rightarrow> Some datagram
           | Inl _ \<Rightarrow> None))"

record 'addr datagram_task =
  t_from :: 'addr
  t_session :: u64
  t_request :: u64
  t_payload :: bytes

definition task_key :: "'addr datagram_task \<Rightarrow> 'addr request_key" where
  "task_key t = (t_from t, t_session t, t_request t)"

text \<open>
  The state the tasks share: cache, client ids of the peers and registry; the tasks that have been
  spawned and not begun, and those that wait for the broker; what has been sent. \<open>l_executed\<close> and
  \<open>l_answered\<close> record what was submitted to the broker and what it answered.
\<close>

record 'addr listener =
  l_dedup :: "'addr request_key dedup_cache"
  l_peer_ids :: "'addr \<Rightarrow> u64 option"
  l_registry :: client_registry
  l_spawned :: "'addr datagram_task list"
  l_waiting :: "'addr datagram_task list"
  l_sent :: "('addr \<times> bytes) list"
  l_executed :: "(u64 \<times> 'addr datagram_task) list"
  l_answered :: "('addr request_key \<times> bytes) list"

definition listener_new :: "client_registry \<Rightarrow> 'addr listener" where
  "listener_new reg = \<lparr>l_dedup = dedup_new, l_peer_ids = (\<lambda>_. None), l_registry = reg, l_spawned = [],
     l_waiting = [], l_sent = [], l_executed = [], l_answered = []\<rparr>"

definition send_envelope :: "'addr \<Rightarrow> u64 \<Rightarrow> u64 \<Rightarrow> bytes \<Rightarrow> 'addr listener \<Rightarrow> 'addr listener" where
  "send_envelope to session_id request_id payload l =
     (case response_datagram session_id request_id payload of
        None \<Rightarrow> l
      | Some datagram \<Rightarrow> l\<lparr>l_sent := l_sent l @ [(to, datagram)]\<rparr>)"

text \<open>One turn of \<^verbatim>\<open>serve\<close>'s loop on a received datagram.\<close>

definition serve_datagram :: "'addr \<Rightarrow> bytes \<Rightarrow> 'addr listener \<Rightarrow> 'addr listener" where
  "serve_datagram src datagram l =
     (case decode_envelope (take MAX_DATAGRAM_SIZE datagram) of
        None \<Rightarrow> l
      | Some (session_id, request_id, payload) \<Rightarrow>
          l\<lparr>l_spawned := l_spawned l @
             [\<lparr>t_from = src, t_session = session_id, t_request = request_id, t_payload = payload\<rparr>]\<rparr>)"

text \<open>\<^verbatim>\<open>handle_datagram\<close> up to the point where it waits for the broker.\<close>

definition task_start :: "'addr datagram_task \<Rightarrow> 'addr listener \<Rightarrow> 'addr listener" where
  "task_start t l =
     (case dedup_get (task_key t) (l_dedup l) of
        Some cached \<Rightarrow> send_envelope (t_from t) (t_session t) (t_request t) cached l
      | None \<Rightarrow>
          (case l_peer_ids l (t_from t) of
             Some client \<Rightarrow>
               l\<lparr>l_waiting := l_waiting l @ [t], l_executed := l_executed l @ [(client, t)]\<rparr>
           | None \<Rightarrow>
               (case register (l_registry l) of
                  (client, reg) \<Rightarrow>
                    l\<lparr>l_registry := reg, l_peer_ids := (l_peer_ids l)(t_from t := Some client),
                      l_waiting := l_waiting l @ [t], l_executed := l_executed l @ [(client, t)]\<rparr>)))"

text \<open>\<^verbatim>\<open>handle_datagram\<close> from the broker's answer on.\<close>

definition task_reply :: "'addr datagram_task \<Rightarrow> bytes option \<Rightarrow> 'addr listener \<Rightarrow> 'addr listener" where
  "task_reply t reply l =
     (case reply of
        None \<Rightarrow> l
      | Some response \<Rightarrow>
          send_envelope (t_from t) (t_session t) (t_request t) response
            (l\<lparr>l_dedup := dedup_insert (task_key t) response (l_dedup l),
               l_answered := l_answered l @ [(task_key t, response)]\<rparr>))"

inductive udp_step :: "'addr listener \<Rightarrow> 'addr listener \<Rightarrow> bool" where
  Recv: "udp_step l (serve_datagram src datagram l)"
| Start: "l_spawned l = before @ t # after \<Longrightarrow> udp_step l (task_start t (l\<lparr>l_spawned := before @ after\<rparr>))"
| Reply: "l_waiting l = before @ t # after \<Longrightarrow> udp_step l (task_reply t reply (l\<lparr>l_waiting := before @ after\<rparr>))"

inductive_cases udp_stepE: "udp_step l l'"

inductive udp_reach :: "client_registry \<Rightarrow> 'addr listener \<Rightarrow> bool" for reg where
  udp_reach_new: "udp_reach reg (listener_new reg)"
| udp_reach_step: "udp_reach reg l \<Longrightarrow> udp_step l l' \<Longrightarrow> udp_reach reg l'"

declare registry_new_def [model_defs] register_def [model_defs] unregister_def [model_defs]
  dedup_new_def [model_defs] dedup_get_def [model_defs] dedup_insert_def [model_defs]
  task_key_def [model_defs] listener_new_def [model_defs] serve_datagram_def [model_defs]
  task_start_def [model_defs] task_reply_def [model_defs] send_envelope_def [model_defs]

section \<open>The cache contract\<close>

text \<open>
  What the listener relies on: a lookup never returns anything but the last value stored for its key,
  it may forget, and it is bounded.
\<close>

locale bounded_cache =
  fixes get :: "'k \<Rightarrow> 'c \<Rightarrow> 'v option" and put :: "'k \<Rightarrow> 'v \<Rightarrow> 'c \<Rightarrow> 'c" and empty :: 'c
    and valid :: "'c \<Rightarrow> bool" and size_of :: "'c \<Rightarrow> nat" and capacity :: nat
  assumes get_empty: "get k empty = None"
    and valid_empty: "valid empty"
    and valid_put: "valid c \<Longrightarrow> valid (put k v c)"
    and get_put_same: "get k (put k v c) = Some v"
    and get_put_other: "valid c \<Longrightarrow> k' \<noteq> k \<Longrightarrow> get k' (put k v c) = get k' c \<or> get k' (put k v c) = None"
    and bounded: "valid c \<Longrightarrow> size_of c \<le> capacity"
begin

lemma valid_history: "valid c \<Longrightarrow> valid (fold (\<lambda>(k, v). put k v) history c)"
  by (induction history arbitrary: c) (auto simp: valid_put)

lemma get_from_history:
  "valid c \<Longrightarrow> get k (fold (\<lambda>(k, v). put k v) history c) = Some v \<Longrightarrow>
     (k, v) \<in> set history \<or> get k c = Some v"
proof (induction history arbitrary: c)
  case (Cons e history)
  obtain k' v' where e: "e = (k', v')" by fastforce
  from Cons.IH [of "put k' v' c"] Cons.prems e
  have "(k, v) \<in> set history \<or> get k (put k' v' c) = Some v" by (simp add: valid_put)
  then show ?case
    using e get_put_same [of k' v' c] get_put_other [of c k k' v'] Cons.prems(1)
    by (cases "k = k'") auto
qed simp

end

definition dedup_ok :: "'k dedup_cache \<Rightarrow> bool" where
  "dedup_ok c \<longleftrightarrow> distinct (order c) \<and> set (order c) = dom (responses c) \<and> length (order c) \<le> SERVER_DEDUP_CAPACITY"

lemma dedup_insert_ok: "dedup_ok c \<Longrightarrow> dedup_ok (dedup_insert key response c)"
  by (cases "order c") (auto simp: dedup_ok_def dedup_insert_def SERVER_DEDUP_CAPACITY_def Let_def split: if_splits)

lemma dedup_get_insert:
  "dedup_get k (dedup_insert k v c) = Some v"
  by (simp add: dedup_get_def dedup_insert_def Let_def)

lemma dedup_get_insert_other:
  "k' \<noteq> k \<Longrightarrow> dedup_get k' (dedup_insert k v c) = dedup_get k' c \<or> dedup_get k' (dedup_insert k v c) = None"
  by (auto simp: dedup_get_def dedup_insert_def Let_def split: list.splits)

interpretation dedup: bounded_cache dedup_get dedup_insert dedup_new dedup_ok "length \<circ> order" SERVER_DEDUP_CAPACITY
proof unfold_locales
  show "dedup_ok dedup_new" by (simp add: dedup_ok_def dedup_new_def)
  show "dedup_get k dedup_new = None" for k by (simp add: dedup_get_def dedup_new_def)
qed (simp_all add: dedup_insert_ok dedup_get_insert dedup_get_insert_other, simp add: dedup_ok_def)

section \<open>Lemmas\<close>

lemma response_datagram_total: "\<exists>datagram. response_datagram s r payload = Some datagram"
  by (simp add: response_datagram_def encode_envelope_def lit_def)

lemma response_datagram_decodes:
  assumes "response_datagram s r payload = Some datagram"
  shows "decode_envelope datagram = Some (s, r,
    if length payload \<le> MAX_PAYLOAD_SIZE then payload else lit ''ERR response too large to send'')"
  using assms decode_encode_envelope [where ?'a = unit]
  by (auto simp: response_datagram_def encode_envelope_def lit_def decode_envelope_def split: if_splits)

text \<open>Everything sent was answered by the broker for that very request.\<close>

definition listener_ok :: "'addr listener \<Rightarrow> bool" where
  "listener_ok l \<longleftrightarrow> dedup_ok (l_dedup l) \<and>
     (\<forall>k v. dedup_get k (l_dedup l) = Some v \<longrightarrow> (k, v) \<in> set (l_answered l)) \<and>
     (\<forall>(to, d) \<in> set (l_sent l). \<exists>s r v. ((to, s, r), v) \<in> set (l_answered l) \<and> response_datagram s r v = Some d)"

lemma send_envelope_ok:
  "listener_ok l \<Longrightarrow> ((to, s, r), v) \<in> set (l_answered l) \<Longrightarrow> listener_ok (send_envelope to s r v l)"
  by (auto simp: listener_ok_def send_envelope_def split: option.splits)

lemma task_start_ok:
  assumes "listener_ok l"
  shows "listener_ok (task_start t l)"
proof (cases "dedup_get (task_key t) (l_dedup l)")
  case None
  with assms show ?thesis
    by (auto simp: task_start_def register_def listener_ok_def Let_def split: option.splits)
next
  case (Some v)
  with assms have "((t_from t, t_session t, t_request t), v) \<in> set (l_answered l)"
    by (auto simp: listener_ok_def task_key_def)
  with assms Some show ?thesis by (simp add: task_start_def send_envelope_ok)
qed

lemma task_reply_ok: "listener_ok l \<Longrightarrow> listener_ok (task_reply t reply l)"
proof (cases reply)
  case (Some v)
  assume ok: "listener_ok l"
  let ?l = "l\<lparr>l_dedup := dedup_insert (task_key t) v (l_dedup l), l_answered := l_answered l @ [(task_key t, v)]\<rparr>"
  have "(k, w) \<in> set (l_answered ?l)" if "dedup_get k (l_dedup ?l) = Some w" for k w
  proof (cases "k = task_key t")
    case True
    with that show ?thesis by (simp add: dedup_get_insert)
  next
    case False
    with that dedup_get_insert_other [OF False, of v "l_dedup l"] have "dedup_get k (l_dedup l) = Some w" by simp
    with ok have "(k, w) \<in> set (l_answered l)" unfolding listener_ok_def by blast
    then show ?thesis by simp
  qed
  with ok have "listener_ok ?l"
    by (fastforce simp: listener_ok_def dedup_insert_ok)
  then show ?thesis
    using Some by (simp add: task_reply_def task_key_def send_envelope_ok)
qed (simp add: task_reply_def)

lemma listener_ok_frame:
  "listener_ok (l\<lparr>l_spawned := x\<rparr>) = listener_ok l" "listener_ok (l\<lparr>l_waiting := y\<rparr>) = listener_ok l"
  by (simp_all add: listener_ok_def)

lemma udp_step_ok: "udp_step l l' \<Longrightarrow> listener_ok l \<Longrightarrow> listener_ok l'"
  by (elim udp_stepE)
     (auto simp: task_start_ok task_reply_ok listener_ok_frame serve_datagram_def split: option.splits)

lemma udp_reach_ok: "udp_reach reg l \<Longrightarrow> listener_ok l"
proof (induction rule: udp_reach.induct)
  case udp_reach_new
  show ?case by (simp add: listener_ok_def listener_new_def dedup_ok_def dedup_new_def dedup_get_def)
qed (auto dest: udp_step_ok)

lemma dedup_insert_new:
  assumes "dedup_ok c" and "k \<notin> set (order c)"
  shows "order (dedup_insert k v c) = (if length (order c) < 256 then order c else tl (order c)) @ [k]"
    and "responses (dedup_insert k v c) =
      (if length (order c) < 256 then responses c else (responses c)(hd (order c) := None))(k := Some v)"
  using assms
  by (cases "order c"; auto simp: dedup_ok_def dedup_insert_def SERVER_DEDUP_CAPACITY_def Let_def domIff)+

lemma dedup_history:
  fixes kvs :: "('k \<times> bytes) list"
  shows "distinct (map fst kvs) \<Longrightarrow>
    order (fold (\<lambda>(k, v). dedup_insert k v) kvs dedup_new) = map fst (drop (length kvs - 256) kvs) \<and>
    responses (fold (\<lambda>(k, v). dedup_insert k v) kvs dedup_new) = map_of (drop (length kvs - 256) kvs)"
proof (induction kvs rule: rev_induct)
  case Nil
  then show ?case by (simp add: dedup_new_def)
next
  case (snoc e kvs)
  obtain k v where e: "e = (k, v)" by fastforce
  let ?c = "fold (\<lambda>(k, v). dedup_insert k v) kvs dedup_new"
  let ?w = "drop (length kvs - 256) kvs"
  from snoc.IH snoc.prems have IH: "order ?c = map fst ?w" "responses ?c = map_of ?w" by auto
  have ok: "dedup_ok ?c" by (rule dedup.valid_history [OF dedup.valid_empty])
  have dist: "distinct (map fst kvs)" "k \<notin> fst ` set kvs" using snoc.prems e by auto
  then have k: "k \<notin> set (order ?c)" using IH by (auto dest!: in_set_dropD)
  note new = dedup_insert_new [OF ok k, of v]
  have kw: "k \<notin> fst ` set ?w" using dist by (auto dest!: in_set_dropD)
  show ?case
  proof (cases "length kvs < 256")
    case True
    with new IH snoc.prems e map_of_snoc [OF kw, of v] show ?thesis by simp
  next
    case False
    then obtain f w where w: "?w = f # w" by (cases ?w) auto
    have "drop (Suc (length kvs) - 256) kvs = tl (drop (length kvs - 256) kvs)"
    proof -
      from False have "Suc (length kvs) - 256 = Suc (length kvs - 256)" by simp
      then show ?thesis by (simp only: drop_Suc tl_drop)
    qed
    then have w': "drop (Suc (length kvs) - 256) kvs = w" using w by simp
    have "distinct (map fst (f # w))"
      using dist(1) distinct_drop [of "map fst kvs" "length kvs - 256"] unfolding w [symmetric] drop_map by simp
    then have "(map_of (f # w))(fst f := None) = map_of w" by (intro map_of_tail) simp
    moreover have "length w = 255"
    proof -
      from False have "length ?w = 256" by simp
      with w show ?thesis by simp
    qed
    moreover have "k \<notin> fst ` set w" using kw w by auto
    ultimately show ?thesis
      using False new IH snoc.prems e w w' map_of_snoc [of k w v] by simp
  qed
qed

text \<open>Frames on a connection, and the broker's answers to a list of requests.\<close>

definition frame_of :: "bytes \<Rightarrow> bytes" where
  "frame_of payload = u32_to_be_bytes (of_nat (length payload)) @ payload"

fun serve_all :: "'b submit_fn \<Rightarrow> u64 \<Rightarrow> bytes list \<Rightarrow> 'b \<Rightarrow> (bytes list \<times> 'b) option" where
  "serve_all submit client [] b = Some ([], b)"
| "serve_all submit client (p # ps) b =
     (case submit client p b of
        Some (Some r, b1) \<Rightarrow> map_option (\<lambda>(rs, b2). (r # rs, b2)) (serve_all submit client ps b1)
      | _ \<Rightarrow> None)"

lemma encode_frame_of: "length p \<le> 65536 \<Longrightarrow> encode_frame p = Inr (frame_of p)"
  by (simp add: encode_frame_cases frame_of_def)

context tcp_stream
begin

lemma connection_loop_serves:
  assumes "content s = concat (map frame_of ps)" and "list_all (\<lambda>p. length p \<le> 65536) ps"
    and "serve_all submit client ps b = Some (rs, b')" and "list_all (\<lambda>r. length r \<le> 65536) rs"
  shows "\<exists>s'. connection_loop io io_display submit client s b = Some (s', b') \<and>
    sent_out s' = sent_out s @ concat (map frame_of rs)"
  using assms
proof (induction ps arbitrary: s b rs)
  case Nil
  obtain s' where "read_frame_or_eof io s = Some (Inr None, s')" "sent_out s' = sent_out s"
    using read_frame_or_eof_spec [of s] Nil.prems(1) by (auto simp: frame_spec_def)
  with Nil.prems(3) show ?case by (subst connection_loop.simps) simp
next
  case (Cons p ps)
  from Cons.prems(2) have p: "encode_frame p = Inr (frame_of p)" by (simp add: encode_frame_of)
  have "frame_spec (content s) = Inr (Some p)"
    using frame_spec_encoded(1) [OF p, of "concat (map frame_of ps)"] Cons.prems(1) by simp
  moreover have "drop (4 + length p) (content s) = concat (map frame_of ps)"
    using frame_spec_encoded(2) [OF p] Cons.prems(1) by simp
  ultimately obtain s1 where s1: "read_frame_or_eof io s = Some (Inr (Some p), s1)"
    "sent_out s1 = sent_out s" "content s1 = concat (map frame_of ps)"
    using read_frame_or_eof_spec [of s] by auto
  from Cons.prems(3) obtain r b1 rs' where r: "submit client p b = Some (Some r, b1)"
    "serve_all submit client ps b1 = Some (rs', b')" "rs = r # rs'"
    by (auto split: option.splits)
  from Cons.prems(4) r(3) have e: "encode_frame r = Inr (frame_of r)" by (simp add: encode_frame_of)
  obtain s2 where s2: "tcp_write_frame io r s1 = (Inr (), s2)" "content s2 = content s1"
    "sent_out s2 = sent_out s1 @ frame_of r"
    using write_all [of "frame_of r" s1] e by (auto simp: tcp_write_frame_def)
  from Cons.IH [of s2 b1 rs'] s1 s2 r Cons.prems(2,4) obtain s' where
    "connection_loop io io_display submit client s2 b1 = Some (s', b')"
    "sent_out s' = sent_out s2 @ concat (map frame_of rs')" by auto
  with s1 s2 r show ?case by (subst connection_loop.simps) simp
qed

end

section \<open>Properties of the listeners\<close>

text \<open>
  A connection gets exactly one response frame per request frame, in order, and the handler
  ends when the client hangs up after its last request, leaving the registry without the client. This
  holds for every broker that answers and every way the requests arrive.
\<close>

theorem tcp_one_reply_per_request:
  assumes "tcp_stream io content budget sent_out"
    and "content s = concat (map frame_of ps)" and "list_all (\<lambda>p. length p \<le> 65536) ps"
    and "serve_all submit (next_id reg) ps b = Some (rs, b')" and "list_all (\<lambda>r. length r \<le> 65536) rs"
  shows "\<exists>s'. handle_connection io io_display submit s b reg =
      Some (s', b', reg\<lparr>next_id := next_id reg + 1, active := active reg - {next_id reg}\<rparr>) \<and>
    sent_out s' = sent_out s @ concat (map frame_of rs) \<and> length rs = length ps"
proof -
  have "length rs = length ps" using assms(4)
    by (induction ps arbitrary: b rs) (auto split: option.splits)
  with tcp_stream.connection_loop_serves [OF assms, of io_display] show ?thesis
    by (auto simp: handle_connection_def register_def unregister_def Let_def)
qed

theorem tcp_one_reply_per_request_witness:
  "\<exists>s'. handle_connection chunk_io (\<lambda>_. []) (\<lambda>_ p b. Some (Some (p @ p), b)) ([Chunk (frame_of [7]), Chunk (frame_of [])], [])
      () registry_new = Some (s', (), registry_new\<lparr>next_id := 1\<rparr>) \<and>
    snd s' = frame_of [7, 7] @ frame_of []"
proof -
  have "\<exists>s'. handle_connection chunk_io (\<lambda>_. []) (\<lambda>_ p b. Some (Some (p @ p), b))
      ([Chunk (frame_of [7]), Chunk (frame_of [])], []) () registry_new =
        Some (s', (), registry_new\<lparr>next_id := next_id registry_new + 1,
          active := active registry_new - {next_id registry_new}\<rparr>) \<and>
    snd s' = snd ([Chunk (frame_of [7]), Chunk (frame_of [])], []) @ concat (map frame_of [[7, 7], []]) \<and>
    length [[7, 7], [] :: bytes] = length [[7], [] :: bytes]"
    by (rule tcp_one_reply_per_request [OF chunked.tcp_stream_axioms]) simp_all
  then show ?thesis by (simp add: registry_new_def)
qed

text \<open>
  C5: Whatever the interleaving of datagrams, tasks and answers, every datagram the listener sends
  goes to the peer of a request the broker answered, carries that request's ids, and its payload is
  an answer given to that request, replaced by a fixed error if it is too long. The cache keeps its
  bound.
\<close>

theorem udp_replies_sound:
  assumes "udp_reach reg l" and "(to, datagram) \<in> set (l_sent l)"
  shows "\<exists>s r v. ((to, s, r), v) \<in> set (l_answered l) \<and>
    decode_envelope datagram = Some (s, r,
      if length v \<le> MAX_PAYLOAD_SIZE then v else lit ''ERR response too large to send'') \<and>
    length (order (l_dedup l)) \<le> SERVER_DEDUP_CAPACITY"
  using udp_reach_ok [OF assms(1)] assms(2) response_datagram_decodes
  unfolding listener_ok_def dedup_ok_def by blast

text \<open>A listener that has answered one request from peer 5.\<close>

definition sample_task :: "nat datagram_task" where
  "sample_task = \<lparr>t_from = 5, t_session = 1, t_request = 1, t_payload = [7]\<rparr>"

definition waiting_listener :: "nat listener" where
  "waiting_listener = task_start sample_task (listener_new registry_new)"

lemma sample_datagram:
  "serve_datagram 5 (u64_to_be_bytes 1 @ u64_to_be_bytes 1 @ [7]) l = l\<lparr>l_spawned := l_spawned l @ [sample_task]\<rparr>"
  by (simp add: serve_datagram_def decode_envelope_def sample_task_def)

lemma waiting_reach: "udp_reach registry_new waiting_listener"
proof -
  have "udp_step (listener_new registry_new) ((listener_new registry_new)\<lparr>l_spawned := [sample_task]\<rparr>)"
    using Recv [of "listener_new registry_new" "5 :: nat" "u64_to_be_bytes 1 @ u64_to_be_bytes 1 @ [7]"]
    by (simp add: sample_datagram listener_new_def)
  then have "udp_reach registry_new ((listener_new registry_new)\<lparr>l_spawned := [sample_task]\<rparr>)"
    by (rule udp_reach_step [OF udp_reach_new])
  then show ?thesis
    using Start [of "(listener_new registry_new)\<lparr>l_spawned := [sample_task]\<rparr>" "[]" sample_task "[]"]
    by (auto simp: waiting_listener_def listener_new_def intro: udp_reach_step)
qed

theorem udp_replies_sound_witness:
  "\<exists>s r v. ((5, s, r), v) \<in> set (l_answered (task_reply sample_task (Some [9]) (waiting_listener\<lparr>l_waiting := []\<rparr>)))"
proof -
  let ?l = "task_reply sample_task (Some [9]) (waiting_listener\<lparr>l_waiting := []\<rparr>)"
  have w: "l_waiting waiting_listener = [] @ sample_task # []"
    by (simp add: waiting_listener_def task_start_def listener_new_def dedup_get_def dedup_new_def register_def Let_def)
  have "udp_reach registry_new ?l"
    by (rule udp_reach_step [OF waiting_reach]) (use Reply [OF w, of "Some [9]"] in simp)
  moreover have "(5, u64_to_be_bytes 1 @ u64_to_be_bytes 1 @ [9]) \<in> set (l_sent ?l)"
    by (simp add: task_reply_def send_envelope_def response_datagram_def encode_envelope_def sample_task_def)
  ultimately have "\<exists>s r v. ((5, s, r), v) \<in> set (l_answered ?l) \<and>
    decode_envelope (u64_to_be_bytes 1 @ u64_to_be_bytes 1 @ [9]) = Some (s, r,
      if length v \<le> MAX_PAYLOAD_SIZE then v else lit ''ERR response too large to send'') \<and>
    length (order (l_dedup ?l)) \<le> SERVER_DEDUP_CAPACITY"
    by (rule udp_replies_sound)
  then show ?thesis by blast
qed

text \<open>
  A repeated datagram whose answer is in the cache is answered from it with the same bytes and
  is not executed again.
\<close>

theorem udp_duplicate_served_from_cache:
  assumes "dedup_get (task_key t) (l_dedup l) = Some v"
  shows "\<exists>datagram. response_datagram (t_session t) (t_request t) v = Some datagram \<and>
    task_start t l = l\<lparr>l_sent := l_sent l @ [(t_from t, datagram)]\<rparr> \<and>
    l_executed (task_start t l) = l_executed l"
  using assms response_datagram_total [of "t_session t" "t_request t" v]
  by (auto simp: task_start_def send_envelope_def)

theorem udp_duplicate_served_from_cache_witness:
  "l_executed (task_start sample_task ((listener_new registry_new)\<lparr>l_dedup := dedup_insert (task_key sample_task) [9] dedup_new\<rparr>)) = []"
proof -
  let ?l = "(listener_new registry_new)\<lparr>l_dedup := dedup_insert (task_key sample_task) [9] dedup_new\<rparr> :: nat listener"
  have "dedup_get (task_key sample_task) (l_dedup ?l) = Some [9]" by (simp add: dedup_get_insert)
  from udp_duplicate_served_from_cache [OF this] show ?thesis by (auto simp: listener_new_def)
qed

text \<open>
  A repeated datagram that arrives while the first one is still being executed is executed a
  second time: the cache holds finished answers only.
\<close>

theorem udp_inflight_duplicate_reexecuted:
  "\<exists>l :: nat listener. udp_reach registry_new l \<and> (\<exists>t c. l_executed l = [(c, t), (c, t)])"
proof -
  let ?l = "waiting_listener\<lparr>l_spawned := [sample_task]\<rparr>"
  have spawned: "l_spawned waiting_listener = []"
    by (simp add: waiting_listener_def task_start_def listener_new_def dedup_get_def dedup_new_def register_def Let_def)
  then have "udp_step waiting_listener ?l"
    using Recv [of waiting_listener 5 "u64_to_be_bytes 1 @ u64_to_be_bytes 1 @ [7]"] by (simp add: sample_datagram)
  then have "udp_reach registry_new ?l" by (rule udp_reach_step [OF waiting_reach])
  then have "udp_reach registry_new (task_start sample_task (?l\<lparr>l_spawned := [] @ []\<rparr>))"
    by (rule udp_reach_step) (rule Start, simp)
  moreover have "l_executed (task_start sample_task (?l\<lparr>l_spawned := [] @ []\<rparr>)) = [(0, sample_task), (0, sample_task)]"
    by (simp add: waiting_listener_def task_start_def listener_new_def dedup_get_def dedup_new_def register_def
        registry_new_def sample_task_def Let_def)
  ultimately show ?thesis by blast
qed

text \<open>
  The cache answers for exactly the last two hundred and fifty-six requests: after answers to
  any number of different requests, a lookup finds the answer of a request among those and nothing for
  an older one.
\<close>

theorem dedup_cache_window:
  assumes "distinct (map fst kvs)"
  shows "dedup_get k (fold (\<lambda>(k, v). dedup_insert k v) kvs dedup_new) =
    map_of (drop (length kvs - SERVER_DEDUP_CAPACITY) kvs) k"
  using dedup_history [OF assms] by (simp add: dedup_get_def SERVER_DEDUP_CAPACITY_def)

theorem dedup_cache_window_witness:
  "dedup_get (2 :: nat) (fold (\<lambda>(k, v). dedup_insert k v) [(1, [9]), (2, [8])] dedup_new) = Some [8]"
  by (subst dedup_cache_window) (simp_all add: SERVER_DEDUP_CAPACITY_def)

text \<open>A history of a registry: clients come and go.\<close>

datatype registry_op = RegisterClient | UnregisterClient u64

definition registry_step :: "registry_op \<Rightarrow> client_registry \<Rightarrow> client_registry" where
  "registry_step registry_op r =
     (case registry_op of RegisterClient \<Rightarrow> snd (register r) | UnregisterClient i \<Rightarrow> unregister i r)"

definition registrations :: "registry_op list \<Rightarrow> nat" where
  "registrations ops = length (filter (\<lambda>x. x = RegisterClient) ops)"

lemma registry_history:
  "registrations ops < 2 ^ 64 \<Longrightarrow>
     next_id (fold registry_step ops registry_new) = of_nat (registrations ops) \<and>
     active (fold registry_step ops registry_new) \<subseteq> of_nat ` {..< registrations ops}"
proof (induction ops rule: rev_induct)
  case Nil
  show ?case by (simp add: registry_new_def registrations_def)
next
  case (snoc x ops)
  then show ?case
    by (cases x)
       (force simp: registry_step_def register_def unregister_def registrations_def Let_def lessThan_Suc)+
qed

text \<open>
  A client id is never handed out twice: after any history with fewer than two to the
  sixty-fourth registrations the next id is not active, and registering makes it active and counts
  it once.
\<close>

theorem registry_ids_fresh:
  assumes "registrations ops < 2 ^ 64"
  shows "case register (fold registry_step ops registry_new) of (i, r) \<Rightarrow>
    \<not> is_active i (fold registry_step ops registry_new) \<and> is_active i r \<and>
    active_count r = active_count (fold registry_step ops registry_new) + 1"
proof -
  let ?r = "fold registry_step ops registry_new"
  have fresh: "next_id ?r \<notin> active ?r"
  proof
    assume "next_id ?r \<in> active ?r"
    with registry_history [OF assms] obtain m where "m < registrations ops"
      "(of_nat m :: u64) = of_nat (registrations ops)" by auto
    with assms show False by (auto dest!: arg_cong [of _ _ unat] simp: unat_of_nat)
  qed
  moreover have "finite (active ?r)" 
    using registry_history [OF assms] finite_subset [OF _ finite_imageI [OF finite_lessThan]] by blast
  ultimately show ?thesis
    by (simp add: register_def is_active_def active_count_def Let_def)
qed

theorem registry_ids_fresh_witness:
  "\<not> is_active 1 (fold registry_step [RegisterClient, UnregisterClient 0] registry_new)"
  using registry_ids_fresh [of "[RegisterClient, UnregisterClient 0]"]
  by (simp add: registrations_def registry_step_def register_def unregister_def registry_new_def Let_def)

end
