(* ===== verification/Broker_Session.thy ===== *)
theory Broker_Session
  imports Broker Net_Server
begin

text \<open>
  The broker as a session, \<^verbatim>\<open>cat-server/src/broker_session.rs\<close>, and the broker behind the network
  listeners: one request submitted to the queue, the worker run until it has nothing to do, and the
  reply collected. This is the schedule of a caller that waits for its reply before it does anything
  else.
\<close>

section \<open>One submission, awaited\<close>

definition broker_submit :: "('s, 'e) broker_env \<Rightarrow> submit_gate option \<Rightarrow> ('s, 'id, 'code) server submit_fn" where
  "broker_submit env gate client payload sv =
     (case submit gate client payload sv of
        (Inl reply, sv1) \<Rightarrow> Some (reply, sv1)
      | (Inr slot, sv1) \<Rightarrow>
          (case worker_run env sv1 of
             None \<Rightarrow> None
           | Some (_, sv2) \<Rightarrow>
               (case await_reply slot sv2 of
                  (None, _) \<Rightarrow> None
                | (Some reply, sv3) \<Rightarrow> Some (reply, sv3))))"

section \<open>Submissions among other traffic\<close>

text \<open>
  What happens to a server around one connection's submissions: another handle queues a request or a
  task, or the worker takes the next job and answers it. A dispatch reads nothing of the queue, so a job
  that arrives while one is being dispatched is a job that arrives after it.
\<close>

datatype sv_event = Arrive u64 work | Take

definition worker_step :: "('s, 'e) broker_env \<Rightarrow> ('s, 'id, 'code) server \<Rightarrow> ('s, 'id, 'code) server option" where
  "worker_step env sv =
     (case chan_recv (sv_jobs sv) of
        (Some (Some job), c) \<Rightarrow>
          map_option (\<lambda>(wire, br). sv\<lparr>sv_jobs := c, sv_broker := br,
              sv_slots := deliver (job_reply job) wire (sv_slots sv)\<rparr>)
            (run_work env (job_work job) (sv_broker sv))
      | (_, c) \<Rightarrow> Some (sv\<lparr>sv_jobs := c\<rparr>))"

fun run_events :: "('s, 'e) broker_env \<Rightarrow> sv_event list \<Rightarrow> ('s, 'id, 'code) server \<Rightarrow> ('s, 'id, 'code) server option" where
  "run_events env [] sv = Some sv"
| "run_events env (Arrive client work # es) sv = run_events env es (snd (enqueue client work sv))"
| "run_events env (Take # es) sv = Option.bind (worker_step env sv) (run_events env es)"

text \<open>
  Around one submission: what happens before it, what the gate says when it is made, and what
  happens while it waits. A script that has run out is a server left alone.
\<close>

record turn =
  t_before :: "sv_event list"
  t_refusal :: "bytes option"
  t_waiting :: "sv_event list"

definition quiet_turn :: turn where
  "quiet_turn = \<lparr>t_before = [], t_refusal = None, t_waiting = []\<rparr>"

fun next_turn :: "turn list \<Rightarrow> turn \<times> turn list" where
  "next_turn [] = (quiet_turn, [])"
| "next_turn (t # ts) = (t, ts)"

definition contended_submit :: "('s, 'e) broker_env \<Rightarrow> (('s, 'id, 'code) server \<times> turn list) submit_fn" where
  "contended_submit env client payload = (\<lambda>(sv, turns).
     (case next_turn turns of (t, turns') \<Rightarrow>
        (case run_events env (t_before t) sv of
           None \<Rightarrow> None
         | Some sv1 \<Rightarrow>
             (case submit (Some (\<lambda>_. t_refusal t)) client payload sv1 of
                (Inl reply, sv2) \<Rightarrow> Some (reply, sv2, turns')
              | (Inr slot, sv2) \<Rightarrow>
                  (case Option.bind (run_events env (t_waiting t) sv2) (worker_run env) of
                     None \<Rightarrow> None
                   | Some (_, sv3) \<Rightarrow>
                       (case await_reply slot sv3 of
                          (None, _) \<Rightarrow> None
                        | (Some reply, sv4) \<Rightarrow> Some (reply, sv4, turns')))))))"

text \<open>
  The reference: all jobs of the server in the order they were queued, one after the other on one
  broker, and of their answers those to the connection's own requests.
\<close>

fun run_all :: "('s, 'e) broker_env \<Rightarrow> work list \<Rightarrow> ('s, 'id, 'code) broker \<Rightarrow> ('s, 'id, 'code) broker option" where
  "run_all env [] br = Some br"
| "run_all env (w # ws) br = Option.bind (run_work env w br) (\<lambda>(_, br'). run_all env ws br')"

definition arrivals :: "sv_event list \<Rightarrow> work list" where
  "arrivals es = concat (map (\<lambda>e. case e of Arrive _ w \<Rightarrow> [w] | Take \<Rightarrow> []) es)"

fun in_order :: "('s, 'e) broker_env \<Rightarrow> turn list \<Rightarrow> bytes list \<Rightarrow> ('s, 'id, 'code) broker \<Rightarrow>
    (bytes list \<times> ('s, 'id, 'code) broker) option" where
  "in_order env turns [] br = Some ([], br)"
| "in_order env turns (p # ps) br =
     (case next_turn turns of (t, turns') \<Rightarrow>
        Option.bind (run_all env (arrivals (t_before t)) br) (\<lambda>br1.
          case t_refusal t of
            Some reason \<Rightarrow> map_option (\<lambda>(wires, br2). ((lit ''ERR '' @ reason) # wires, br2)) (in_order env turns' ps br1)
          | None \<Rightarrow>
              Option.bind (run_work env (Wire p) br1) (\<lambda>(wire, br2).
                Option.bind (run_all env (arrivals (t_waiting t)) br2) (\<lambda>br3.
                  map_option (\<lambda>(wires, br4). (wire # wires, br4)) (in_order env turns' ps br3)))))"

section \<open>The session\<close>

text \<open>How the session reads the reply: nothing, an error, or the radio's bytes.\<close>

definition read_wire :: "bytes option \<Rightarrow> bytes \<Rightarrow> (transport_error + response_disposition) \<times> bytes" where
  "read_wire reply response =
     (case reply of
        None \<Rightarrow> (Inl (TransportOther (lit ''broker worker has shut down'')), response)
      | Some wire \<Rightarrow>
          if wire = [] then (Inr NoResponse, response)
          else (case strip_prefix (lit ''ERR '') wire of
                  Some message \<Rightarrow> (Inl (TransportOther (from_utf8_lossy message)), response)
                | None \<Rightarrow> (Inr ResponseWritten, response @ wire)))"

definition broker_execute :: "('s, 'e) broker_env \<Rightarrow> submit_gate option \<Rightarrow> u64 \<Rightarrow> bytes \<Rightarrow> bytes \<Rightarrow>
    ('s, 'id, 'code) server \<Rightarrow> ((transport_error + response_disposition) \<times> bytes \<times> ('s, 'id, 'code) server) option" where
  "broker_execute env gate client request response sv =
     map_option (\<lambda>(reply, sv'). case read_wire reply response of (r, response') \<Rightarrow> (r, response', sv'))
       (broker_submit env gate client request sv)"

definition broker_session_ops :: "('s, 'e) broker_env \<Rightarrow> submit_gate option \<Rightarrow> u64 \<Rightarrow>
    (('s, 'id, 'code) server, transport_error) cat_session" where
  "broker_session_ops env gate client = session_with_defaults (broker_execute env gate client)"

lemma read_wire_contract:
  "case read_wire reply [] of (Inr d, response) \<Rightarrow> d = disposition_of response | (Inl e, response) \<Rightarrow> response = []"
proof (cases reply)
  case (Some wire)
  then show ?thesis
    by (cases "wire = []"; cases "strip_prefix (lit ''ERR '') wire") (simp_all add: read_wire_def disposition_of_def)
qed (simp add: read_wire_def)

lemma broker_execute_result:
  assumes "broker_execute env gate client request [] sv = Some (r, response, sv')"
  obtains reply where "read_wire reply [] = (r, response)"
proof -
  from assms obtain reply sv1 where "broker_submit env gate client request sv = Some (reply, sv1)"
    unfolding broker_execute_def by (cases "broker_submit env gate client request sv") auto
  with assms have "read_wire reply [] = (r, response)"
    unfolding broker_execute_def by (cases "read_wire reply []") simp
  then show ?thesis by (rule that)
qed

interpretation broker_session: cat_session_contract "broker_session_ops env gate client"
proof
  fix request s d response s'
  assume "ses_execute (broker_session_ops env gate client) request [] s = Some (Inr d, response, s')"
  then obtain reply where "read_wire reply [] = (Inr d, response)"
    unfolding broker_session_ops_def session_with_defaults_simps by (rule broker_execute_result)
  then show "d = disposition_of response" using read_wire_contract [of reply] by simp
next
  fix request s e response s'
  assume "ses_execute (broker_session_ops env gate client) request [] s = Some (Inl e, response, s')"
  then obtain reply where "read_wire reply [] = (Inl e, response)"
    unfolding broker_session_ops_def session_with_defaults_simps by (rule broker_execute_result)
  then show "response = []" using read_wire_contract [of reply] by simp
qed

section \<open>Lemmas\<close>

text \<open>A server with nothing to do and its worker alive.\<close>

definition idle :: "('s, 'id, 'code) server \<Rightarrow> bool" where
  "idle sv \<longleftrightarrow> queue (sv_jobs sv) = [] \<and> \<not> receiver_dropped (sv_jobs sv)"

lemma broker_submit_idle:
  assumes "idle sv"
  shows "case run_work env (Wire payload) (sv_broker sv) of
      None \<Rightarrow> broker_submit env None client payload sv = None
    | Some (wire, br) \<Rightarrow> (\<exists>sv'. broker_submit env None client payload sv = Some (Some wire, sv') \<and>
        sv_broker sv' = br \<and> idle sv')"
proof -
  let ?job = "\<lparr>job_client = client, job_request_id = sv_next_request_id sv, job_work = Wire payload,
    job_reply = sv_fresh sv\<rparr>"
  obtain sv1 where sv1: "submit None client payload sv = (Inr (sv_fresh sv), sv1)"
    and q: "queue (sv_jobs sv1) = [?job]" and r: "\<not> receiver_dropped (sv_jobs sv1)"
    and slot: "sv_slots sv1 (sv_fresh sv) = oneshot" and br: "sv_broker sv1 = sv_broker sv"
    using assms by (simp add: idle_def submit_def enqueue_def chan_send_def Let_def)
  show ?thesis
  proof (cases "run_work env (Wire payload) (sv_broker sv)")
    case None
    with sv1 q br show ?thesis by (simp add: broker_submit_def worker_run_answers)
  next
    case (Some p)
    obtain wire br' where p: "p = (wire, br')" by fastforce
    have "\<exists>sv'. broker_submit env None client payload sv = Some (Some wire, sv') \<and> sv_broker sv' = br' \<and> idle sv'"
      using sv1 q br slot r Some p
      by (simp add: broker_submit_def worker_run_answers deliver_all_def deliver_def await_reply_def
          oneshot_send_def oneshot_sender_drop_def oneshot_recv_def oneshot_def idle_def chan_recv_def)
    with Some p show ?thesis by simp
  qed
qed

lemma broker_submit_Some:
  assumes "idle sv" and "run_work env (Wire payload) (sv_broker sv) = Some (wire, br)"
  obtains sv' where "broker_submit env None client payload sv = Some (Some wire, sv')"
    "sv_broker sv' = br" "idle sv'"
  using broker_submit_idle [OF assms(1), where env = env and payload = payload and client = client] assms(2) by auto

text \<open>Submissions among other traffic.\<close>

lemma run_all_append: "run_all env (ws @ vs) br = Option.bind (run_all env ws br) (run_all env vs)"
  by (induction ws arbitrary: br) (auto split: Option.bind_splits)

lemma run_all_total:
  assumes "cat_wire_format (br_format br) framable" and "cuts_off env (br_timeout br)"
  shows "\<exists>br'. run_all env ws br = Some br' \<and> br_format br' = br_format br \<and> br_timeout br' = br_timeout br"
  using assms
proof (induction ws arbitrary: br)
  case (Cons w ws)
  obtain wire br1 where r: "run_work env w br = Some (wire, br1)" "br_format br1 = br_format br" "br_timeout br1 = br_timeout br"
    using run_work_total [OF Cons.prems] by blast
  with Cons.IH [of br1] Cons.prems show ?case by simp
qed simp

lemma in_order_total:
  assumes "cat_wire_format (br_format br) framable" and "cuts_off env (br_timeout br)"
  shows "\<exists>wires br'. in_order env turns ps br = Some (wires, br') \<and> length wires = length ps"
  using assms
proof (induction ps arbitrary: turns br)
  case (Cons p ps)
  obtain t turns' where t: "next_turn turns = (t, turns')" by fastforce
  obtain br1 where 1: "run_all env (arrivals (t_before t)) br = Some br1" "br_format br1 = br_format br" "br_timeout br1 = br_timeout br"
    using run_all_total [OF Cons.prems] by blast
  with Cons.prems have p1: "cat_wire_format (br_format br1) framable" "cuts_off env (br_timeout br1)" by simp_all
  obtain wire br2 where 2: "run_work env (Wire p) br1 = Some (wire, br2)" "br_format br2 = br_format br1" "br_timeout br2 = br_timeout br1"
    using run_work_total [OF p1] by blast
  with p1 have p2: "cat_wire_format (br_format br2) framable" "cuts_off env (br_timeout br2)" by simp_all
  obtain br3 where 3: "run_all env (arrivals (t_waiting t)) br2 = Some br3" "br_format br3 = br_format br2" "br_timeout br3 = br_timeout br2"
    using run_all_total [OF p2] by blast
  with p2 have p3: "cat_wire_format (br_format br3) framable" "cuts_off env (br_timeout br3)" by simp_all
  show ?case
    using Cons.IH [OF p1, of turns'] Cons.IH [OF p3, of turns'] by (auto simp: t 1(1) 2(1) 3(1) split: option.split)
qed simp

text \<open>
  A live server whose queue, run to its end, takes the broker to \<open>br\<close>; and a reply slot that holds its answer
  or whose job is queued and will be answered so.
\<close>

definition leads_to :: "('s, 'e) broker_env \<Rightarrow> ('s, 'id, 'code) server \<Rightarrow> ('s, 'id, 'code) broker \<Rightarrow> bool" where
  "leads_to env sv br \<longleftrightarrow> server_ok sv \<and> \<not> receiver_dropped (sv_jobs sv) \<and>
     run_all env (map job_work (queue (sv_jobs sv))) (sv_broker sv) = Some br"

definition owed :: "('s, 'e) broker_env \<Rightarrow> nat \<Rightarrow> bytes \<Rightarrow> ('s, 'id, 'code) server \<Rightarrow> bool" where
  "owed env slot wire sv \<longleftrightarrow> slot < sv_fresh sv \<and>
     (os_value (sv_slots sv slot) = Some wire \<and> slot \<notin> job_reply ` set (queue (sv_jobs sv)) \<or>
      \<not> os_receiver_dropped (sv_slots sv slot) \<and>
      (\<exists>before j behind br1 br2. queue (sv_jobs sv) = before @ j # behind \<and> job_reply j = slot \<and>
         run_all env (map job_work before) (sv_broker sv) = Some br1 \<and> run_work env (job_work j) br1 = Some (wire, br2)))"

lemma owed_queued:
  assumes "slot < sv_fresh sv" and "\<not> os_receiver_dropped (sv_slots sv slot)" and "queue (sv_jobs sv) = before @ j # behind"
    and "job_reply j = slot" and "run_all env (map job_work before) (sv_broker sv) = Some br1"
    and "run_work env (job_work j) br1 = Some (wire, br2)"
  shows "owed env slot wire sv"
  using assms unfolding owed_def by blast

lemma enqueue_alive:
  assumes "\<not> receiver_dropped (sv_jobs sv)"
  shows "fst (enqueue client work sv) = Inr (sv_fresh sv)"
    and "queue (sv_jobs (snd (enqueue client work sv))) = queue (sv_jobs sv) @
      [\<lparr>job_client = client, job_request_id = sv_next_request_id sv, job_work = work, job_reply = sv_fresh sv\<rparr>]"
    and "\<not> receiver_dropped (sv_jobs (snd (enqueue client work sv)))"
    and "sv_broker (snd (enqueue client work sv)) = sv_broker sv"
    and "sv_fresh (snd (enqueue client work sv)) = sv_fresh sv + 1"
    and "sv_slots (snd (enqueue client work sv)) = (sv_slots sv)(sv_fresh sv := oneshot)"
  using assms by (simp_all add: enqueue_def chan_send_def Let_def)

lemma enqueue_leads:
  "leads_to env sv br \<Longrightarrow> run_work env work br = Some (wire, br') \<Longrightarrow> leads_to env (snd (enqueue client work sv)) br'"
  by (simp add: leads_to_def enqueue_ok enqueue_alive run_all_append)

lemma enqueue_owed:
  assumes "leads_to env sv br" and "run_work env work br = Some (wire, br')"
  shows "owed env (sv_fresh sv) wire (snd (enqueue client work sv))"
  using assms by (intro owed_queued [where behind = "[]"]) (auto simp: leads_to_def enqueue_alive oneshot_def)

lemma enqueue_owed_other:
  assumes "leads_to env sv br" and "owed env slot wire sv"
  shows "owed env slot wire (snd (enqueue client work sv))"
  using assms by (fastforce simp: leads_to_def owed_def enqueue_alive)

lemma worker_step_Cons:
  assumes "queue (sv_jobs sv) = j # js" and "run_work env (job_work j) (sv_broker sv) = Some (wire, br)"
  shows "worker_step env sv = Some (sv\<lparr>sv_jobs := (sv_jobs sv)\<lparr>queue := js\<rparr>, sv_broker := br,
    sv_slots := deliver (job_reply j) wire (sv_slots sv)\<rparr>)"
  using assms by (simp add: worker_step_def chan_recv_def)

lemma worker_run_step:
  "worker_run env sv = (if queue (sv_jobs sv) = [] then Some (sender_count (sv_jobs sv) = 0, sv\<lparr>sv_jobs := snd (chan_recv (sv_jobs sv))\<rparr>)
     else Option.bind (worker_step env sv) (worker_run env))"
  by (subst worker_run.simps) (auto simp: worker_step_def chan_recv_def split: list.splits option.splits)

lemma worker_step_leads:
  assumes "leads_to env sv br"
  shows "\<exists>sv'. worker_step env sv = Some sv' \<and> leads_to env sv' br \<and> (\<forall>slot wire. owed env slot wire sv \<longrightarrow> owed env slot wire sv') \<and>
    queue (sv_jobs sv') = tl (queue (sv_jobs sv))"
proof (cases "queue (sv_jobs sv)")
  case Nil
  with assms show ?thesis by (auto simp: leads_to_def owed_def worker_step_def chan_recv_def server_ok_def)
next
  case (Cons j js)
  with assms obtain wire br1 where w: "run_work env (job_work j) (sv_broker sv) = Some (wire, br1)"
    "run_all env (map job_work js) br1 = Some br"
    by (auto simp: leads_to_def Option.bind_eq_Some_conv)
  let ?sv = "sv\<lparr>sv_jobs := (sv_jobs sv)\<lparr>queue := js\<rparr>, sv_broker := br1, sv_slots := deliver (job_reply j) wire (sv_slots sv)\<rparr>"
  have ok: "server_ok sv" using assms by (simp add: leads_to_def)
  with Cons have other: "\<forall>i \<in> set js. job_reply i \<noteq> job_reply j" by (auto simp: server_ok_def intro: rev_image_eqI)
  with ok Cons w have "leads_to env ?sv br"
    using assms by (auto simp: leads_to_def server_ok_def deliver_apply dest: run_work_broker_ok)
  moreover have "owed env slot wire' ?sv" if "owed env slot wire' sv" for slot wire'
  proof (cases "job_reply j = slot")
    case True
    with Cons ok have "slot \<notin> job_reply ` set js" by (auto simp: server_ok_def)
    with that Cons True w(1) show ?thesis
      by (auto simp: owed_def deliver_apply oneshot_send_def oneshot_sender_drop_def append_eq_Cons_conv Cons_eq_append_conv)
  next
    case False
    with that Cons w(1) show ?thesis
      by (auto simp: owed_def deliver_apply append_eq_Cons_conv Cons_eq_append_conv; blast)
  qed
  ultimately show ?thesis using worker_step_Cons [OF Cons w(1)] Cons by auto
qed

lemma run_events_leads:
  "leads_to env sv br \<Longrightarrow> run_all env (arrivals es) br = Some br' \<Longrightarrow>
   \<exists>sv'. run_events env es sv = Some sv' \<and> leads_to env sv' br' \<and> (\<forall>slot wire. owed env slot wire sv \<longrightarrow> owed env slot wire sv')"
proof (induction env es sv arbitrary: br rule: run_events.induct)
  case (2 env client work es sv)
  from "2.prems"(2) obtain wire br1 where w: "run_work env work br = Some (wire, br1)" "run_all env (arrivals es) br1 = Some br'"
    by (auto simp: arrivals_def Option.bind_eq_Some_conv)
  from "2.IH" [OF enqueue_leads [OF "2.prems"(1) w(1)] w(2)] enqueue_owed_other [OF "2.prems"(1)] show ?case by fastforce
next
  case (3 env es sv)
  obtain sv1 where s: "worker_step env sv = Some sv1" "leads_to env sv1 br" "\<And>slot wire. owed env slot wire sv \<Longrightarrow> owed env slot wire sv1"
    using worker_step_leads [OF "3.prems"(1)] by blast
  from "3.IH" [OF s(1,2)] "3.prems"(2) s show ?case by (fastforce simp: arrivals_def)
qed (simp add: arrivals_def)

lemma worker_run_leads:
  assumes "leads_to env sv br"
  shows "\<exists>ended sv'. worker_run env sv = Some (ended, sv') \<and> leads_to env sv' br \<and> queue (sv_jobs sv') = [] \<and>
    (\<forall>slot wire. owed env slot wire sv \<longrightarrow> owed env slot wire sv')"
  using assms
proof (induction "length (queue (sv_jobs sv))" arbitrary: sv)
  case 0
  then show ?case by (auto simp: worker_run_step leads_to_def owed_def chan_recv_def server_ok_def)
next
  case (Suc n)
  obtain sv1 where s: "worker_step env sv = Some sv1" "leads_to env sv1 br" "queue (sv_jobs sv1) = tl (queue (sv_jobs sv))"
    "\<And>slot wire. owed env slot wire sv \<Longrightarrow> owed env slot wire sv1"
    using worker_step_leads [OF Suc.prems] by blast
  from Suc.hyps(2) s(3) have "n = length (queue (sv_jobs sv1))" by simp
  from Suc.hyps(1) [OF this s(2)] Suc.hyps(2) s show ?case by (fastforce simp: worker_run_step [of env sv])
qed

lemma await_owed:
  assumes "leads_to env sv br" and "owed env slot wire sv" and "queue (sv_jobs sv) = []"
  obtains sv' where "await_reply slot sv = (Some (Some wire), sv')" "leads_to env sv' br"
  using assms by (auto simp: owed_def leads_to_def server_ok_def await_reply_def oneshot_recv_def)

lemma contended_submit_in_order:
  assumes "leads_to env sv br" and "next_turn turns = (t, turns')" and "run_all env (arrivals (t_before t)) br = Some br1"
  shows "(\<forall>reason. t_refusal t = Some reason \<longrightarrow>
      (\<exists>sv'. contended_submit env client p (sv, turns) = Some (Some (lit ''ERR '' @ reason), sv', turns') \<and> leads_to env sv' br1)) \<and>
    (\<forall>wire br2 br3. t_refusal t = None \<and> run_work env (Wire p) br1 = Some (wire, br2) \<and>
        run_all env (arrivals (t_waiting t)) br2 = Some br3 \<longrightarrow>
      (\<exists>sv'. contended_submit env client p (sv, turns) = Some (Some wire, sv', turns') \<and> leads_to env sv' br3))"
proof -
  obtain sv1 where 1: "run_events env (t_before t) sv = Some sv1" "leads_to env sv1 br1"
    using run_events_leads [OF assms(1,3)] by blast
  have "\<exists>sv'. contended_submit env client p (sv, turns) = Some (Some wire, sv', turns') \<and> leads_to env sv' br3"
    if "t_refusal t = None" and w: "run_work env (Wire p) br1 = Some (wire, br2)" and a: "run_all env (arrivals (t_waiting t)) br2 = Some br3"
    for wire br2 br3
  proof -
    obtain sv2 where sv2: "enqueue client (Wire p) sv1 = (Inr (sv_fresh sv1), sv2)" "leads_to env sv2 br2" "owed env (sv_fresh sv1) wire sv2"
      using enqueue_leads [OF 1(2) w, of client] enqueue_owed [OF 1(2) w, of client] 1(2) enqueue_alive(1) [of sv1 client "Wire p"]
      by (metis leads_to_def prod.collapse)
    obtain sv3 where sv3: "run_events env (t_waiting t) sv2 = Some sv3" "leads_to env sv3 br3" "owed env (sv_fresh sv1) wire sv3"
      using run_events_leads [OF sv2(2) a] sv2(3) by blast
    obtain ended sv4 where sv4: "worker_run env sv3 = Some (ended, sv4)" "leads_to env sv4 br3" "queue (sv_jobs sv4) = []"
      "owed env (sv_fresh sv1) wire sv4"
      using worker_run_leads [OF sv3(2)] sv3(3) by blast
    obtain sv5 where "await_reply (sv_fresh sv1) sv4 = (Some (Some wire), sv5)" "leads_to env sv5 br3"
      using await_owed [OF sv4(2,4,3)] .
    with that(1) 1(1) sv2(1) sv3(1) sv4(1) show ?thesis by (simp add: contended_submit_def assms(2) submit_def)
  qed
  with 1 show ?thesis by (auto simp: contended_submit_def assms(2) submit_def)
qed

lemma serve_all_in_order:
  "leads_to env sv br \<Longrightarrow> in_order env turns ps br = Some (wires, br') \<Longrightarrow>
   \<exists>sv' turns'. serve_all (contended_submit env) client ps (sv, turns) = Some (wires, sv', turns') \<and> leads_to env sv' br'"
proof (induction ps arbitrary: sv br turns wires)
  case (Cons p ps)
  obtain t turns1 where t: "next_turn turns = (t, turns1)" by fastforce
  from Cons.prems(2) t obtain br1 where 1: "run_all env (arrivals (t_before t)) br = Some br1"
    by (auto simp: Option.bind_eq_Some_conv)
  note submitted = contended_submit_in_order [OF Cons.prems(1) t 1, of client p]
  show ?case
  proof (cases "t_refusal t")
    case None
    with Cons.prems(2) t 1 obtain wire br2 br3 wires1 where w: "run_work env (Wire p) br1 = Some (wire, br2)"
      "run_all env (arrivals (t_waiting t)) br2 = Some br3" "in_order env turns1 ps br3 = Some (wires1, br')" "wires = wire # wires1"
      by (auto simp: Option.bind_eq_Some_conv)
    with None submitted obtain sv1 where "contended_submit env client p (sv, turns) = Some (Some wire, sv1, turns1)" "leads_to env sv1 br3"
      by blast
    with Cons.IH [OF this(2) w(3)] w(4) show ?thesis by auto
  next
    case (Some reason)
    with Cons.prems(2) t 1 obtain wires1 where w: "in_order env turns1 ps br1 = Some (wires1, br')" "wires = (lit ''ERR '' @ reason) # wires1"
      by auto
    from Some submitted obtain sv1 where "contended_submit env client p (sv, turns) = Some (Some (lit ''ERR '' @ reason), sv1, turns1)"
      "leads_to env sv1 br1" by blast
    with Cons.IH [OF this(2) w(1)] w(2) show ?thesis by auto
  qed
qed simp

lemma sv_reach_alive: "sv_reach env sv \<Longrightarrow> \<not> receiver_dropped (sv_jobs sv)"
proof (induction rule: sv_reach.induct)
  case (sv_work sv ended sv')
  then show ?case by (auto simp: worker_run_answers chan_recv_def)
qed (auto simp: build_with_timeout_def channel_def submit_def enqueue_def chan_send_def Let_def submit_task_def release_now_bypassing_queue_def
    await_reply_def sender_clone_def sender_drop_def split: option.splits prod.splits sum.splits)

lemma err_response_misread:
  "fst (read_wire (Some (outcome_to_wire disp dur (Inr (Response (lit ''ERR 1;''))))) []) =
     Inl (TransportOther (lit ''1;''))"
proof -
  have "strip_prefix (lit ''ERR '') (lit ''ERR 1;'') = Some (lit ''1;'')" by (simp add: strip_prefix_def lit_def)
  moreover have "from_utf8_lossy (lit ''1;'') = lit ''1;''"
    by (rule from_utf8_lossy_valid) (simp add: lit_def)
  moreover have "lit ''ERR 1;'' \<noteq> []" by (simp add: lit_def)
  ultimately show ?thesis by (simp add: read_wire_def outcome_to_wire_def)
qed

section \<open>Properties\<close>

text \<open>
  C26: A session over the broker answers as the radio does: on an idle server one exchange is one
  dispatch, its response comes back unchanged, a write comes back as no response, and every failure
  comes back as an error with the broker's message, unless the radio's own answer starts with
  \<^verbatim>\<open>ERR\<close> and a space, which is read as a failure too.
\<close>

theorem broker_session_exchange:
  assumes "idle sv" and "dispatch env request (sv_broker sv) = Some (r, br)"
  shows "\<exists>sv'. sv_broker sv' = br \<and> idle sv' \<and>
    broker_execute env None client request [] sv = Some
      (case r of
         Inr NoResponseOutcome \<Rightarrow> (Inr NoResponse, [], sv')
       | Inr (Response bs) \<Rightarrow>
           (if bs = [] then (Inr NoResponse, [], sv')
            else case strip_prefix (lit ''ERR '') bs of
                   None \<Rightarrow> (Inr ResponseWritten, bs, sv')
                 | Some message \<Rightarrow> (Inl (TransportOther (from_utf8_lossy message)), [], sv'))
       | Inl e \<Rightarrow> (Inl (TransportOther (from_utf8_lossy
           (dispatch_error_display (env_err_display env) (env_duration_debug env) e))), [], sv'))"
proof -
  let ?wire = "outcome_to_wire (env_err_display env) (env_duration_debug env) r"
  from assms(2) have "run_work env (Wire request) (sv_broker sv) = Some (?wire, br)"
    by (simp add: run_work_def)
  then obtain sv' where sv': "broker_submit env None client request sv = Some (Some ?wire, sv')"
    "sv_broker sv' = br" "idle sv'"
    using broker_submit_Some [OF assms(1)] by blast
  have "lit ''ERR '' @ m \<noteq> []" for m by (simp add: lit_def)
  with sv' show ?thesis
    by (auto simp: broker_execute_def read_wire_def outcome_to_wire_def strip_prefix_append
        split: sum.splits dispatch_outcome.splits option.splits)
qed

definition sample_server :: "(scripted_session, nat, bytes) server" where
  "sample_server = (build_with_timeout sample_env (with_script []) sample_table (ascii_line_format id) 5000)
     \<lparr>sv_broker := sample_broker\<rparr>"

lemma sample_server_idle: "idle sample_server"
  by (simp add: idle_def sample_server_def build_with_timeout_def channel_def)

theorem broker_session_exchange_witness:
  "\<exists>message sv'. broker_execute sample_env None 1 (lit ''X;;'') [] sample_server = Some (Inl (TransportOther message), [], sv')"
proof -
  have "dispatch sample_env (lit ''X;;'') (sv_broker sample_server) =
      Some (Inl (Malformed (UnknownCommand (lit ''X;''))), sample_broker)"
    by (simp add: sample_server_def dispatch_def sample_broker_eval sample_eval)
  from broker_session_exchange [OF sample_server_idle this, of 1] show ?thesis by auto
qed

end
