(* ===== verification/Cat_Text.thy ===== *)
theory Cat_Text
  imports Cat_Prelude
begin

text \<open>
  Text as the console protocol handles it: a \<^verbatim>\<open>String\<close> as the list of its characters
  (\<^verbatim>\<open>char\<close>, a Unicode scalar value), where the byte-level components use UTF-8 byte lists. The
  functions of the standard library the code uses on such strings (\<^verbatim>\<open>chars\<close>, \<^verbatim>\<open>len\<close>, \<^verbatim>\<open>trim\<close>,
  \<^verbatim>\<open>split_whitespace\<close>, \<^verbatim>\<open>to_ascii_uppercase\<close>, \<^verbatim>\<open>join\<close>) are written out, with the lemmas on words
  that the components share.
\<close>

type_synonym u16 = "16 word"
type_synonym uchar = u32
type_synonym ustr = "uchar list"

definition ulit :: "string \<Rightarrow> ustr" where
  "ulit s = map of_char s"

text \<open>\<^verbatim>\<open>char::is_whitespace\<close>: the Unicode property White\_Space.\<close>

definition is_whitespace :: "uchar \<Rightarrow> bool" where
  "is_whitespace c \<longleftrightarrow> 9 \<le> c \<and> c \<le> 13 \<or> c = 32 \<or> c = 0x85 \<or> c = 0xA0 \<or> c = 0x1680 \<or>
     0x2000 \<le> c \<and> c \<le> 0x200A \<or> c = 0x2028 \<or> c = 0x2029 \<or> c = 0x202F \<or> c = 0x205F \<or> c = 0x3000"

definition is_ascii_alphabetic :: "uchar \<Rightarrow> bool" where
  "is_ascii_alphabetic c \<longleftrightarrow> 65 \<le> c \<and> c \<le> 90 \<or> 97 \<le> c \<and> c \<le> 122"

definition is_ascii_digit :: "uchar \<Rightarrow> bool" where
  "is_ascii_digit c \<longleftrightarrow> 48 \<le> c \<and> c \<le> 57"

definition to_ascii_uppercase :: "uchar \<Rightarrow> uchar" where
  "to_ascii_uppercase c = (if 97 \<le> c \<and> c \<le> 122 then c - 32 else c)"

text \<open>\<^verbatim>\<open>str::len\<close> counts the bytes of the UTF-8 form.\<close>

definition char_len_utf8 :: "uchar \<Rightarrow> nat" where
  "char_len_utf8 c = (if c < 0x80 then 1 else if c < 0x800 then 2 else if c < 0x10000 then 3 else 4)"

definition str_len :: "ustr \<Rightarrow> nat" where
  "str_len t = sum_list (map char_len_utf8 t)"

definition trim_end :: "ustr \<Rightarrow> ustr" where
  "trim_end t = rev (dropWhile is_whitespace (rev t))"

definition str_trim :: "ustr \<Rightarrow> ustr" where
  "str_trim t = trim_end (dropWhile is_whitespace t)"

fun split_on :: "('a \<Rightarrow> bool) \<Rightarrow> 'a list \<Rightarrow> 'a list list" where
  "split_on P [] = [[]]"
| "split_on P (c # cs) =
     (if P c then [] # split_on P cs
      else (case split_on P cs of [] \<Rightarrow> [[c]] | w # ws \<Rightarrow> (c # w) # ws))"

definition split_whitespace :: "ustr \<Rightarrow> ustr list" where
  "split_whitespace t = filter (\<lambda>w. w \<noteq> []) (split_on is_whitespace t)"

fun join_words :: "ustr list \<Rightarrow> ustr" where
  "join_words [] = []"
| "join_words [w] = w"
| "join_words (w # ws) = w @ [32] @ join_words ws"

section \<open>Lemmas\<close>

lemma split_on_ne [simp]: "split_on P t \<noteq> []"
  by (induction t) (auto split: list.splits)

lemma split_on_words: "w \<in> set (split_on P t) \<Longrightarrow> \<forall>c \<in> set w. \<not> P c"
  by (induction t arbitrary: w) (fastforce split: if_splits list.splits)+

lemma split_on_concat: "concat (split_on P t) = filter (\<lambda>c. \<not> P c) t"
proof (induction t)
  case (Cons c t)
  then show ?case by (cases "split_on P t") auto
qed simp

lemma split_whitespace_words:
  "w \<in> set (split_whitespace t) \<Longrightarrow> w \<noteq> [] \<and> (\<forall>c \<in> set w. \<not> is_whitespace c)"
  by (auto simp: split_whitespace_def dest: split_on_words)

lemma concat_filter_ne: "concat (filter (\<lambda>w. w \<noteq> []) ws) = concat ws"
  by (induction ws) auto

lemma split_whitespace_concat:
  "concat (split_whitespace t) = filter (\<lambda>c. \<not> is_whitespace c) t"
  by (simp add: split_whitespace_def concat_filter_ne split_on_concat)

lemma space_is_whitespace [simp]: "is_whitespace 32"
  by (simp add: is_whitespace_def)

lemma join_words_Cons: "ws \<noteq> [] \<Longrightarrow> join_words (w # ws) = w @ 32 # join_words ws"
  by (cases ws) auto

lemma split_on_word: "\<forall>c \<in> set w. \<not> P c \<Longrightarrow> split_on P w = [w]"
  by (induction w) auto

lemma split_on_append:
  "\<forall>c \<in> set w. \<not> P c \<Longrightarrow> P s \<Longrightarrow> split_on P (w @ s # t) = w # split_on P t"
  by (induction w) auto

text \<open>Joining words and splitting again gives the words back.\<close>

lemma split_join_words:
  assumes "\<forall>w \<in> set ws. w \<noteq> [] \<and> (\<forall>c \<in> set w. \<not> is_whitespace c)"
  shows "split_whitespace (join_words ws) = ws"
  using assms
proof (induction ws)
  case Nil
  then show ?case by (simp add: split_whitespace_def)
next
  case (Cons w ws)
  show ?case
  proof (cases "ws = []")
    case True
    with Cons.prems show ?thesis by (simp add: split_whitespace_def split_on_word)
  next
    case False
    with Cons show ?thesis
      by (simp add: join_words_Cons split_whitespace_def split_on_append)
  qed
qed

lemma str_trim_Nil_iff: "str_trim t = [] \<longleftrightarrow> (\<forall>c \<in> set t. is_whitespace c)"
proof -
  have "dropWhile is_whitespace t = [] \<or> \<not> is_whitespace (hd (dropWhile is_whitespace t))"
    by (metis hd_dropWhile)
  then have "(\<forall>c \<in> set (dropWhile is_whitespace t). is_whitespace c) \<longleftrightarrow> dropWhile is_whitespace t = []"
    by (metis list.set_intros(1) list.exhaust_sel empty_iff list.set(1))
  then show ?thesis by (simp add: str_trim_def trim_end_def)
qed

lemma split_whitespace_Nil_iff: "split_whitespace t = [] \<longleftrightarrow> (\<forall>c \<in> set t. is_whitespace c)"
proof -
  have "split_whitespace t = [] \<longleftrightarrow> concat (split_whitespace t) = []"
    using split_whitespace_words by auto
  then show ?thesis by (simp add: split_whitespace_concat filter_empty_conv)
qed

lemma to_ascii_uppercase_idem [simp]: "to_ascii_uppercase (to_ascii_uppercase c) = to_ascii_uppercase c"
  by (simp add: to_ascii_uppercase_def) unat_arith

end
