(* ===== verification/Capabilities.thy ===== *)
theory Capabilities
  imports Cat_Text
begin

text \<open>
  What a radio model can do (\<^verbatim>\<open>cat-framework/src/capabilities.rs\<close>) and what one station has wired
  (\<^verbatim>\<open>cat-framework/src/installation.rs\<close>): the capability records with their range tests, the check a
  CW capability must pass before a server offers it, and the questions a console asks of an
  installation. \<^verbatim>\<open>&'static\<close> slices are lists. \<^verbatim>\<open>RawRange::fraction\<close>, a division of floating-point
  numbers, is not modelled. The Unicode table behind \<^verbatim>\<open>char::is_lowercase\<close> is a parameter.
\<close>

type_synonym i32 = "32 word"

section \<open>Definitions\<close>

subsection \<open>Ranges, endpoints, modes, filters and meters\<close>

datatype signal_support = SupportNone | SupportNativeScope u32 u16 | IfTapPoint u64 bool

definition is_possible :: "signal_support \<Rightarrow> bool" where
  "is_possible s \<longleftrightarrow> s \<noteq> SupportNone"

record raw_range =
  rr_min :: u16
  rr_max :: u16

record frequency_range =
  fr_min_hz :: u64
  fr_max_hz :: u64

definition fr_contains :: "frequency_range \<Rightarrow> u64 \<Rightarrow> bool" where
  "fr_contains r hz \<longleftrightarrow> hz \<ge> fr_min_hz r \<and> hz \<le> fr_max_hz r"

datatype endpoint_role = RoleCat | RoleKeying | RoleAudio

record endpoint_descriptor =
  ep_role :: endpoint_role
  ep_required :: bool
  ep_shareable_with :: "endpoint_role list"

type_synonym endpoint_set = "endpoint_descriptor list"

definition ep_find :: "endpoint_set \<Rightarrow> endpoint_role \<Rightarrow> endpoint_descriptor option" where
  "ep_find es role = List.find (\<lambda>e. ep_role e = role) es"

definition ep_serves :: "endpoint_set \<Rightarrow> endpoint_role \<Rightarrow> bool" where
  "ep_serves es role \<longleftrightarrow> list_ex (\<lambda>e. ep_role e = role \<or> role \<in> set (ep_shareable_with e)) es"

definition handle_count :: "endpoint_set \<Rightarrow> nat" where
  "handle_count es = length es"

record vfo_capability =
  vfo_count :: u8
  vfo_split :: bool
  rit_hz :: "i32 option"
  xit_hz :: "i32 option"

datatype mode_kind = KindSsb | KindCw | KindAm | KindFm | KindData | KindDigitalVoice
datatype sideband = Lower | Upper
datatype mode_id = Lsb | Usb | CwUpper | CwLower | Am | AmNarrow | Fm | FmNarrow
  | RttyLsb | RttyUsb | DataLsb | DataUsb | DataFm | C4fm

record mode_descriptor =
  md_id :: mode_id
  md_label :: ustr
  md_kind :: mode_kind
  md_sideband :: "sideband option"
  md_default_bandwidth_hz :: u32

record filter_capability =
  if_shift_hz :: "i32 option"
  widths_hz :: "u32 list option"
  notch :: bool

datatype meter_kind = MeterS | MeterPo | MeterSwr | MeterAlc | MeterId | MeterVdd | MeterComp

definition S_UNIT_LABELS :: "ustr list" where
  "S_UNIT_LABELS = map ulit [''S0'', ''S1'', ''S2'', ''S3'', ''S4'', ''S5'', ''S6'', ''S7'', ''S8'', ''S9'',
     ''S9+10'', ''S9+20'', ''S9+30'', ''S9+40'', ''S9+50'', ''S9+60'']"

record s_unit_scale =
  thresholds :: "u16 list"

definition s_unit_scale_new :: "u16 list \<Rightarrow> s_unit_scale" where
  "s_unit_scale_new ts = \<lparr>thresholds = ts\<rparr>"

definition TS570D :: s_unit_scale where
  "TS570D = s_unit_scale_new [0, 1, 2, 3, 4, 5, 6, 7, 8, 9, 10, 11, 12, 13, 14, 65535]"

text \<open>The loop of \<^verbatim>\<open>SUnitScale::label\<close>: the labels from index \<open>i\<close> on.\<close>

fun label_from :: "nat \<Rightarrow> u16 list \<Rightarrow> u16 \<Rightarrow> ustr" where
  "label_from i [] raw = S_UNIT_LABELS ! (length S_UNIT_LABELS - 1)"
| "label_from i (bound # bounds) raw =
     (if raw \<le> bound then S_UNIT_LABELS ! i else label_from (i + 1) bounds raw)"

definition s_unit_label :: "s_unit_scale \<Rightarrow> u16 \<Rightarrow> ustr" where
  "s_unit_label scale raw = label_from 0 (thresholds scale) raw"

record meter_descriptor =
  mt_kind :: meter_kind
  mt_raw_range :: raw_range
  mt_active_on_transmit :: bool
  mt_s_units :: "s_unit_scale option"

definition meter_find :: "meter_descriptor list \<Rightarrow> meter_kind \<Rightarrow> meter_descriptor option" where
  "meter_find ms kind = List.find (\<lambda>m. mt_kind m = kind) ms"

definition meter_has :: "meter_descriptor list \<Rightarrow> meter_kind \<Rightarrow> bool" where
  "meter_has ms kind \<longleftrightarrow> meter_find ms kind \<noteq> None"

record memory_capability =
  mem_channels :: raw_range
  mem_named :: bool
  stores_mode :: bool
  mem_scan :: bool

record menu_capability =
  item_count :: u16
  menu_writable :: bool

subsection \<open>CW\<close>

record hz_range =
  hz_min :: u32
  hz_max :: u32
  hz_step :: "u32 option"

definition hz_stepped :: "u32 \<Rightarrow> u32 \<Rightarrow> u32 \<Rightarrow> hz_range" where
  "hz_stepped lo hi step = \<lparr>hz_min = lo, hz_max = hi, hz_step = Some step\<rparr>"

definition hz_continuous :: "u32 \<Rightarrow> u32 \<Rightarrow> hz_range" where
  "hz_continuous lo hi = \<lparr>hz_min = lo, hz_max = hi, hz_step = None\<rparr>"

definition hz_contains :: "hz_range \<Rightarrow> u32 \<Rightarrow> bool" where
  "hz_contains r hz =
     (if hz < hz_min r \<or> hz > hz_max r then False
      else (case hz_step r of
              Some step \<Rightarrow> if step > 0 then (hz - hz_min r) mod step = 0 else True
            | None \<Rightarrow> True))"

record wpm_range =
  wpm_min :: u16
  wpm_max :: u16

definition wpm_contains :: "wpm_range \<Rightarrow> u16 \<Rightarrow> bool" where
  "wpm_contains r wpm \<longleftrightarrow> wpm \<ge> wpm_min r \<and> wpm \<le> wpm_max r"

datatype break_in_kind = BreakInOff | BreakInSemi | BreakInFull
datatype cw_pacing = BufferFlag | Estimated
datatype cw_abort = RadioStop | DrainOnly

record cw_send_text =
  max_chunk_chars :: u16
  charset :: ustr
  pacing :: cw_pacing
  abort_kind :: cw_abort
  requires_break_in :: "break_in_kind option"

definition rejected_char :: "cw_send_text \<Rightarrow> ustr \<Rightarrow> uchar option" where
  "rejected_char s t = List.find (\<lambda>c. c \<noteq> 32 \<and> to_ascii_uppercase c \<notin> set (charset s)) t"

definition cw_accepts :: "cw_send_text \<Rightarrow> ustr \<Rightarrow> bool" where
  "cw_accepts s t \<longleftrightarrow> rejected_char s t = None"

record tx_gate_capability =
  low_power_raw :: u16
  low_power_label :: ustr
  power_raw_range :: raw_range

record cw_capability =
  cw_pitch :: "hz_range option"
  pitch_writable :: bool
  keyer_wpm :: "wpm_range option"
  keyer_wpm_writable :: bool
  cw_break_in :: "break_in_kind list"
  send_text :: "cw_send_text option"
  tx_gate :: "tx_gate_capability option"

datatype cw_capability_error = EmptyPitchRange | EmptyWpmRange | WritableWithoutRange | ZeroChunk | EmptyCharset
  | CharsetNotUppercase | RequiredBreakInNotSelectable | SendWithoutTxGate | LowPowerOutOfRange

definition check_pitch :: "cw_capability \<Rightarrow> bool" where
  "check_pitch c \<longleftrightarrow> (case cw_pitch c of Some p \<Rightarrow> \<not> hz_min p > hz_max p | None \<Rightarrow> True)"

definition check_wpm :: "cw_capability \<Rightarrow> bool" where
  "check_wpm c \<longleftrightarrow> (case keyer_wpm c of Some w \<Rightarrow> \<not> wpm_min w > wpm_max w | None \<Rightarrow> True)"

text \<open>The block of \<^verbatim>\<open>validate\<close> on \<^verbatim>\<open>send_text\<close>.\<close>

definition validate_send :: "(uchar \<Rightarrow> bool) \<Rightarrow> cw_capability \<Rightarrow> cw_send_text \<Rightarrow> cw_capability_error + unit" where
  "validate_send is_lowercase c send =
     (if max_chunk_chars send = 0 then Inl ZeroChunk
      else if charset send = [] then Inl EmptyCharset
      else if list_ex is_lowercase (charset send) then Inl CharsetNotUppercase
      else if (case requires_break_in send of Some kind \<Rightarrow> kind \<notin> set (cw_break_in c) | None \<Rightarrow> False)
        then Inl RequiredBreakInNotSelectable
      else if tx_gate c = None then Inl SendWithoutTxGate
      else Inr ())"

definition cw_validate :: "(uchar \<Rightarrow> bool) \<Rightarrow> cw_capability \<Rightarrow> cw_capability_error + unit" where
  "cw_validate is_lowercase c =
     (if \<not> check_pitch c then Inl EmptyPitchRange
      else if \<not> check_wpm c then Inl EmptyWpmRange
      else if pitch_writable c \<and> cw_pitch c = None \<or> keyer_wpm_writable c \<and> keyer_wpm c = None
        then Inl WritableWithoutRange
      else (case (case send_text c of Some send \<Rightarrow> validate_send is_lowercase c send | None \<Rightarrow> Inr ()) of
              Inl e \<Rightarrow> Inl e
            | Inr _ \<Rightarrow>
                (case tx_gate c of
                   Some gate \<Rightarrow>
                     (let r = power_raw_range gate
                      in if low_power_raw gate < rr_min r \<or> low_power_raw gate > rr_max r
                         then Inl LowPowerOutOfRange else Inr ())
                 | None \<Rightarrow> Inr ())))"

subsection \<open>The radio\<close>

record radio_capabilities =
  model :: ustr
  endpoints :: endpoint_set
  vfos :: vfo_capability
  modes :: "mode_descriptor list"
  tuning_steps_hz :: "u32 list"
  rx_range :: frequency_range
  filters :: filter_capability
  meters :: "meter_descriptor list"
  memory :: "memory_capability option"
  menu :: "menu_capability option"
  signal :: signal_support
  cw :: "cw_capability option"

definition supports_mode :: "radio_capabilities \<Rightarrow> mode_id \<Rightarrow> bool" where
  "supports_mode r m \<longleftrightarrow> list_ex (\<lambda>d. md_id d = m) (modes r)"

definition mode_of :: "radio_capabilities \<Rightarrow> mode_id \<Rightarrow> mode_descriptor option" where
  "mode_of r m = List.find (\<lambda>d. md_id d = m) (modes r)"

subsection \<open>Installations\<close>

record if_tap_config =
  if_center_hz :: u64
  if_inverted :: bool
  trim_hz :: i32

datatype signal_capability = CapNone | CapNativeScope u32 u16 | CapIfTap if_tap_config
  | CapDirectSdr "u64 \<times> u64" | CapAudioDerived u32

definition cap_is_band_panorama :: "signal_capability \<Rightarrow> bool" where
  "cap_is_band_panorama c \<longleftrightarrow>
     (case c of CapNativeScope _ _ \<Rightarrow> True | CapIfTap _ \<Rightarrow> True | CapDirectSdr _ \<Rightarrow> True | _ \<Rightarrow> False)"

definition cap_is_present :: "signal_capability \<Rightarrow> bool" where
  "cap_is_present c \<longleftrightarrow> c \<noteq> CapNone"

datatype source_state = Configured | Streaming
datatype audio_origin = RadioOutput | TapDemodulated

record installed_source =
  is_capability :: signal_capability
  is_state :: source_state
  is_label :: ustr
  is_audio_origin :: "audio_origin option"

definition installed_source_new :: "signal_capability \<Rightarrow> source_state \<Rightarrow> ustr \<Rightarrow> installed_source" where
  "installed_source_new capability state label =
     \<lparr>is_capability = capability, is_state = state, is_label = label, is_audio_origin = None\<rparr>"

definition from_origin :: "audio_origin \<Rightarrow> installed_source \<Rightarrow> installed_source" where
  "from_origin origin s = s\<lparr>is_audio_origin := Some origin\<rparr>"

definition reflects_radio_dsp :: "installed_source \<Rightarrow> bool" where
  "reflects_radio_dsp s \<longleftrightarrow> is_audio_origin s = Some RadioOutput"

definition is_band_panorama :: "installed_source \<Rightarrow> bool" where
  "is_band_panorama s \<longleftrightarrow> cap_is_band_panorama (is_capability s)"

definition is_streaming :: "installed_source \<Rightarrow> bool" where
  "is_streaming s \<longleftrightarrow> is_state s = Streaming"

record installation =
  connected :: "endpoint_role list"
  sources :: "installed_source list"

definition installation_default :: installation where
  "installation_default = \<lparr>connected = [], sources = []\<rparr>"

definition bare :: "endpoint_role list \<Rightarrow> installation" where
  "bare roles = \<lparr>connected = roles, sources = []\<rparr>"

definition with_source :: "installed_source \<Rightarrow> installation \<Rightarrow> installation" where
  "with_source s i = i\<lparr>sources := sources i @ [s]\<rparr>"

definition is_connected :: "endpoint_role \<Rightarrow> installation \<Rightarrow> bool" where
  "is_connected role i \<longleftrightarrow> role \<in> set (connected i)"

definition band_panorama :: "installation \<Rightarrow> installed_source option" where
  "band_panorama i = List.find is_band_panorama (sources i)"

definition is_audio_derived :: "installed_source \<Rightarrow> bool" where
  "is_audio_derived s \<longleftrightarrow> (case is_capability s of CapAudioDerived _ \<Rightarrow> True | _ \<Rightarrow> False)"

definition audio_sources :: "installation \<Rightarrow> installed_source list" where
  "audio_sources i = filter is_audio_derived (sources i)"

definition radio_audio :: "installation \<Rightarrow> installed_source option" where
  "radio_audio i = List.find reflects_radio_dsp (audio_sources i)"

definition has_multiple_audio_sources :: "installation \<Rightarrow> bool" where
  "has_multiple_audio_sources i \<longleftrightarrow> length (audio_sources i) > 1"

definition if_tap_from :: "radio_capabilities \<Rightarrow> i32 \<Rightarrow> source_state \<Rightarrow> ustr \<Rightarrow> installed_source option" where
  "if_tap_from radio trim state label =
     (case signal radio of
        IfTapPoint center inverted \<Rightarrow>
          Some (installed_source_new
            (CapIfTap \<lparr>if_center_hz = center, if_inverted = inverted, trim_hz = trim\<rparr>) state label)
      | _ \<Rightarrow> None)"

record session =
  ses_radio :: radio_capabilities
  ses_installation :: installation

definition has_panorama :: "session \<Rightarrow> bool" where
  "has_panorama s \<longleftrightarrow> band_panorama (ses_installation s) \<noteq> None"

definition panorama_possible_but_absent :: "session \<Rightarrow> bool" where
  "panorama_possible_but_absent s \<longleftrightarrow> is_possible (signal (ses_radio s)) \<and> \<not> has_panorama s"

lemmas capability_defs [model_defs] = is_possible_def fr_contains_def ep_find_def ep_serves_def meter_find_def
  meter_has_def hz_contains_def wpm_contains_def rejected_char_def cw_accepts_def supports_mode_def mode_of_def
  cap_is_band_panorama_def is_band_panorama_def band_panorama_def is_audio_derived_def audio_sources_def
  radio_audio_def reflects_radio_dsp_def if_tap_from_def installed_source_new_def has_panorama_def

section \<open>Lemmas\<close>

lemma find_list_ex: "(List.find P xs \<noteq> None) = list_ex P xs"
  by (induction xs) auto

lemma find_Some: "List.find P xs = Some x \<Longrightarrow> x \<in> set xs \<and> P x"
  by (induction xs) (auto split: if_splits)

lemma rejected_char_None:
  "rejected_char s t = None \<longleftrightarrow> (\<forall>c \<in> set t. c = 32 \<or> to_ascii_uppercase c \<in> set (charset s))"
  by (auto simp: rejected_char_def find_None_iff)

lemma supports_mode_find: "supports_mode r m \<longleftrightarrow> mode_of r m \<noteq> None"
  by (simp only: supports_mode_def mode_of_def find_list_ex)

section \<open>Properties\<close>

text \<open>
  A stepped range with a step that is not zero contains exactly its lower end and the values whole steps above it up to its
  upper end, computed without wrap-around.
\<close>

theorem hz_stepped_exact:
  assumes "step > 0"
  shows "hz_contains (hz_stepped lo hi step) hz \<longleftrightarrow>
    (\<exists>k. unat hz = unat lo + k * unat step) \<and> unat hz \<le> unat hi"
proof (cases "hz < lo")
  case True
  then have "unat hz < unat lo" by (simp add: word_less_nat_alt)
  then show ?thesis using True by (auto simp: hz_contains_def hz_stepped_def)
next
  case False
  then have le: "unat lo \<le> unat hz" by (simp add: word_less_nat_alt)
  have sub: "unat (hz - lo) = unat hz - unat lo"
    using le by (simp add: unat_sub word_le_nat_alt)
  have "((hz - lo) mod step = 0) \<longleftrightarrow> unat step dvd (unat hz - unat lo)"
    by (simp add: word_eq_iff_unsigned unat_mod sub dvd_eq_mod_eq_0 flip: unat_eq_zero)
  also have "\<dots> \<longleftrightarrow> (\<exists>k. unat hz = unat lo + k * unat step)"
    using le by (auto simp: dvd_def mult.commute intro: exI[of _ "_ - _"]) (metis add_diff_inverse_nat not_less mult.commute)
  finally show ?thesis
    using assms False by (auto simp: hz_contains_def hz_stepped_def word_less_nat_alt not_less)
qed

theorem hz_stepped_exact_witness:
  "hz_contains (hz_stepped 400 1000 50) 650 \<longleftrightarrow> (\<exists>k. (650 :: nat) = 400 + k * 50) \<and> (650 :: nat) \<le> 1000"
  using hz_stepped_exact [of 50 400 1000 650] by simp

text \<open>
  C37: A CW capability passes validation exactly when its ranges are not empty, whatever is writable
  has a range, text that can be sent comes with a chunk size, an upper-case alphabet, a break-in
  setting the radio offers and a way to clamp power, and the clamp lies inside the power range.
\<close>

theorem cw_validate_exact:
  "cw_validate is_lowercase c = Inr () \<longleftrightarrow>
     (\<forall>p. cw_pitch c = Some p \<longrightarrow> hz_min p \<le> hz_max p) \<and>
     (\<forall>w. keyer_wpm c = Some w \<longrightarrow> wpm_min w \<le> wpm_max w) \<and>
     (pitch_writable c \<longrightarrow> cw_pitch c \<noteq> None) \<and> (keyer_wpm_writable c \<longrightarrow> keyer_wpm c \<noteq> None) \<and>
     (\<forall>send. send_text c = Some send \<longrightarrow>
        max_chunk_chars send > 0 \<and> charset send \<noteq> [] \<and> \<not> list_ex is_lowercase (charset send) \<and>
        (\<forall>k. requires_break_in send = Some k \<longrightarrow> k \<in> set (cw_break_in c)) \<and> tx_gate c \<noteq> None) \<and>
     (\<forall>g. tx_gate c = Some g \<longrightarrow>
        rr_min (power_raw_range g) \<le> low_power_raw g \<and> low_power_raw g \<le> rr_max (power_raw_range g))"
  by (cases "send_text c"; cases "tx_gate c"; cases "cw_pitch c"; cases "keyer_wpm c")
     (auto simp: cw_validate_def validate_send_def check_pitch_def check_wpm_def Let_def not_less word_gt_0
      split: sum.splits option.splits if_splits)

definition sample_cw :: cw_capability where
  "sample_cw = \<lparr>cw_pitch = None, pitch_writable = False,
     keyer_wpm = Some \<lparr>wpm_min = 10, wpm_max = 60\<rparr>, keyer_wpm_writable = True, cw_break_in = [BreakInFull],
     send_text = Some \<lparr>max_chunk_chars = 24, charset = ulit ''ABCDEFGHIJKLMNOPQRSTUVWXYZ0123456789/?'',
       pacing = BufferFlag, abort_kind = DrainOnly, requires_break_in = Some BreakInFull\<rparr>,
     tx_gate = Some \<lparr>low_power_raw = 5, low_power_label = [], power_raw_range = \<lparr>rr_min = 5, rr_max = 100\<rparr>\<rparr>\<rparr>"

theorem cw_validate_exact_witness:
  "cw_validate (\<lambda>c. 97 \<le> c \<and> c \<le> 122) sample_cw = Inr ()"
  using cw_validate_exact [of "\<lambda>c. 97 \<le> c \<and> c \<le> 122" sample_cw]
  by (simp add: sample_cw_def ulit_def)

text \<open>The label of a reading is the one of the first threshold that is not below it.\<close>

lemma label_from_takeWhile:
  "label_from i ts raw =
     (if length (takeWhile (\<lambda>b. b < raw) ts) < length ts
      then S_UNIT_LABELS ! (i + length (takeWhile (\<lambda>b. b < raw) ts))
      else S_UNIT_LABELS ! (length S_UNIT_LABELS - 1))"
  by (induction ts arbitrary: i) (auto simp: not_less)

theorem s_unit_label_spec:
  "s_unit_label scale raw =
     (let n = length (takeWhile (\<lambda>b. b < raw) (thresholds scale))
      in S_UNIT_LABELS ! (if n < length (thresholds scale) then n else 15))"
  by (simp add: s_unit_label_def label_from_takeWhile Let_def S_UNIT_LABELS_def)

text \<open>
  What drives a band panorama is never an audio source, and the audio a console may overlay the radio's
  filter on is an audio source that came out of the radio.
\<close>

theorem panorama_is_not_audio:
  "(\<forall>s. band_panorama i = Some s \<longrightarrow> s \<in> set (sources i) \<and> \<not> is_audio_derived s) \<and>
   (\<forall>s. radio_audio i = Some s \<longrightarrow> s \<in> set (sources i) \<and> is_audio_derived s \<and> is_audio_origin s = Some RadioOutput)"
proof -
  have "\<not> is_audio_derived s" if "is_band_panorama s" for s
    using that by (auto simp: is_band_panorama_def cap_is_band_panorama_def is_audio_derived_def split: signal_capability.splits)
  then show ?thesis
    by (auto simp: band_panorama_def radio_audio_def audio_sources_def reflects_radio_dsp_def dest!: find_Some)
qed


end
