(* ===== verification/Cw_Types.thy ===== *)
theory Cw_Types imports Capabilities begin

text \<open>
  The data the CW transmit supervisor exchanges with the radio
  (\<^verbatim>\<open>cat-rigctl/src/native_bridge/cw.rs\<close>): the actions it asks for, the answers to them, the steps of
  its plan, and the texts it shows an operator. A duration or an instant is a number of nanoseconds.
\<close>

type_synonym duration = nat
type_synonym instant = nat

datatype cw_action =
    ReadStatus
  | ReadPower
  | ActSetPower u16
  | ReadBreakIn
  | ActSetBreakIn break_in_kind
  | ActReady
  | SendChunk ustr
  | ActStop

datatype cw_outcome =
    Done
  | Status bool bool "u16 option"
  | Power u16
  | BreakIn break_in_kind
  | Ready bool
  | Failed ustr

datatype chunk = CwChunk (ch_text: ustr) (ch_last: bool) (ch_ends_id: bool)

datatype step =
    StepStatus
  | SnapPower
  | SnapBreakIn
  | SetPower u16
  | VerifyPower u16
  | SetBreakIn break_in_kind
  | VerifyBreakIn break_in_kind
  | PowerAtMost u16
  | WaitReady
  | WaitKeyed duration
  | CheckSpeed
  | Send chunk
  | StepStop

definition step_action :: "step \<Rightarrow> cw_action option" where
  "step_action s =
     (case s of
        StepStatus \<Rightarrow> Some ReadStatus | CheckSpeed \<Rightarrow> Some ReadStatus
      | SnapPower \<Rightarrow> Some ReadPower | VerifyPower _ \<Rightarrow> Some ReadPower | PowerAtMost _ \<Rightarrow> Some ReadPower
      | SnapBreakIn \<Rightarrow> Some ReadBreakIn | VerifyBreakIn _ \<Rightarrow> Some ReadBreakIn
      | SetPower raw \<Rightarrow> Some (ActSetPower raw)
      | SetBreakIn kind \<Rightarrow> Some (ActSetBreakIn kind)
      | WaitReady \<Rightarrow> Some ActReady
      | Send chunk \<Rightarrow> Some (SendChunk (ch_text chunk))
      | StepStop \<Rightarrow> Some ActStop
      | WaitKeyed _ \<Rightarrow> None)"

text \<open>One constructor per text; the arguments are what the text is formatted from.\<close>

datatype cw_text =
    CwShuttingDown | CwStillRestoring | CwRestoreUnverified cw_text | CwAlreadyArmed | CwOtherHolds
  | CwNotArmed | CwSendInProgress | CwOverCap duration u16 bool duration | CwArmingInProgress
  | CwAlreadyDisarming | CwHungUp | CwNotCwMode | CwTransmitting | CwLeftCwMode | CwAlreadyTransmitting
  | CwTakesTooLong u16 duration duration | CwSpeedChanged u16 duration duration duration
  | CwWatchdog duration | CwPowerReadBack u16 u16 | CwPowerAbove u16 u16
  | CwBreakInReadBack break_in_kind break_in_kind | CwUnexpected cw_outcome step
  | CwRestoreFailed cw_text | CwRadio ustr

end
