(* ===== verification/Native_Protocol.thy ===== *)
theory Native_Protocol
  imports Cw_Types
begin

text \<open>
  The native console protocol (\<^verbatim>\<open>cat-native/src/lib.rs\<close>): framing, the published form of the
  capabilities, the messages, the per-connection session with its validation of commands, and the
  binary spectrum and audio payloads.

  A \<^verbatim>\<open>f32\<close> is only stored and copied here, so it is its 32-bit pattern. The text of an error message
  is a constructor per format string, with the arguments of the format. Layouts and palettes are
  published as they are and are type parameters. Integer overflow wraps, as in a release build.
\<close>

section \<open>Definitions\<close>

definition PROTOCOL_VERSION :: u16 where "PROTOCOL_VERSION = 2"
definition MAX_CW_TEXT_CHARS :: nat where "MAX_CW_TEXT_CHARS = 256"
definition MAX_KEY_DOWN_CAP_S :: u16 where "MAX_KEY_DOWN_CAP_S = 60"
definition MAX_CONTROL_BYTES :: nat where "MAX_CONTROL_BYTES = 2 ^ 20"

subsection \<open>Framing\<close>

datatype frame_kind = Control | Spectrum | Audio

definition frame_kind_u8 :: "frame_kind \<Rightarrow> u8" where
  "frame_kind_u8 k = (case k of Control \<Rightarrow> 1 | Spectrum \<Rightarrow> 2 | Audio \<Rightarrow> 3)"

definition frame_kind_from_u8 :: "u8 \<Rightarrow> frame_kind option" where
  "frame_kind_from_u8 v =
     (if v = 1 then Some Control else if v = 2 then Some Spectrum else if v = 3 then Some Audio else None)"

datatype frame_error = Incomplete | UnknownKind u8 | TooLarge nat

definition native_encode_frame :: "frame_kind \<Rightarrow> bytes \<Rightarrow> bytes" where
  "native_encode_frame kind payload =
     frame_kind_u8 kind # u32_to_be_bytes (of_nat (length payload)) @ payload"

definition native_decode_frame :: "bytes \<Rightarrow> frame_error + (frame_kind \<times> bytes \<times> nat)" where
  "native_decode_frame buf =
     (if length buf < 5 then Inl Incomplete
      else case frame_kind_from_u8 (buf ! 0) of
             None \<Rightarrow> Inl (UnknownKind (buf ! 0))
           | Some kind \<Rightarrow>
               (let len = unat (u32_from_be_bytes (take 4 (drop 1 buf)))
                in if kind = Control \<and> len > MAX_CONTROL_BYTES then Inl (TooLarge len)
                   else if length buf < 5 + len then Inl Incomplete
                   else Inr (kind, take len (drop 5 buf), 5 + len)))"

subsection \<open>Capabilities, in owned form\<close>

record cw_send_text_wire =
  stw_max_chunk_chars :: u16
  stw_charset :: ustr
  stw_pacing :: cw_pacing
  stw_abort :: cw_abort
  stw_requires_break_in :: "break_in_kind option"

record tx_gate_wire =
  tgw_low_power_raw :: u16
  tgw_low_power_label :: ustr
  tgw_power_raw :: raw_range

record cw_capability_wire =
  cww_pitch :: "hz_range option"
  cww_pitch_writable :: bool
  cww_keyer_wpm :: "wpm_range option"
  cww_keyer_wpm_writable :: bool
  cww_break_in :: "break_in_kind list"
  cww_send_text :: "cw_send_text_wire option"
  cww_tx_gate :: "tx_gate_wire option"

record endpoint_wire =
  epw_role :: endpoint_role
  epw_required :: bool
  epw_shareable_with :: "endpoint_role list"

record mode_wire =
  mdw_id :: mode_id
  mdw_label :: ustr
  mdw_kind :: mode_kind
  mdw_sideband :: "sideband option"
  mdw_default_bandwidth_hz :: u32

record filter_wire =
  fw_if_shift_hz :: "i32 option"
  fw_widths_hz :: "u32 list option"
  fw_notch :: bool

record meter_descriptor_wire =
  mtw_kind :: meter_kind
  mtw_raw_range :: raw_range
  mtw_active_on_transmit :: bool
  mtw_s_units :: "s_unit_scale option"

record ('l, 't) capabilities_wire =
  cpw_model :: ustr
  cpw_endpoints :: "endpoint_wire list"
  cpw_vfos :: vfo_capability
  cpw_modes :: "mode_wire list"
  cpw_tuning_steps_hz :: "u32 list"
  cpw_rx_range :: frequency_range
  cpw_filters :: filter_wire
  cpw_meters :: "meter_descriptor_wire list"
  cpw_memory :: "memory_capability option"
  cpw_menu :: "menu_capability option"
  cpw_signal :: signal_support
  cpw_layout :: "'l option"
  cpw_theme :: "'t option"
  cpw_installation :: installation
  cpw_cw :: "cw_capability_wire option"

definition cw_capability_wire_from :: "cw_capability \<Rightarrow> cw_capability_wire" where
  "cw_capability_wire_from c =
     \<lparr>cww_pitch = cw_pitch c, cww_pitch_writable = pitch_writable c, cww_keyer_wpm = keyer_wpm c,
      cww_keyer_wpm_writable = keyer_wpm_writable c, cww_break_in = cw_break_in c,
      cww_send_text = map_option (\<lambda>t. \<lparr>stw_max_chunk_chars = max_chunk_chars t, stw_charset = charset t,
        stw_pacing = pacing t, stw_abort = abort_kind t, stw_requires_break_in = requires_break_in t\<rparr>) (send_text c),
      cww_tx_gate = map_option (\<lambda>g. \<lparr>tgw_low_power_raw = low_power_raw g, tgw_low_power_label = low_power_label g,
        tgw_power_raw = power_raw_range g\<rparr>) (tx_gate c)\<rparr>"

definition capabilities_wire_from :: "radio_capabilities \<Rightarrow> ('l, 't) capabilities_wire" where
  "capabilities_wire_from c =
     \<lparr>cpw_model = model c,
      cpw_endpoints = map (\<lambda>e. \<lparr>epw_role = ep_role e, epw_required = ep_required e,
        epw_shareable_with = ep_shareable_with e\<rparr>) (endpoints c),
      cpw_vfos = vfos c,
      cpw_modes = map (\<lambda>m. \<lparr>mdw_id = md_id m, mdw_label = md_label m, mdw_kind = md_kind m,
        mdw_sideband = md_sideband m, mdw_default_bandwidth_hz = md_default_bandwidth_hz m\<rparr>) (modes c),
      cpw_tuning_steps_hz = tuning_steps_hz c,
      cpw_rx_range = rx_range c,
      cpw_filters = \<lparr>fw_if_shift_hz = if_shift_hz (filters c), fw_widths_hz = widths_hz (filters c),
        fw_notch = notch (filters c)\<rparr>,
      cpw_meters = map (\<lambda>m. \<lparr>mtw_kind = mt_kind m, mtw_raw_range = mt_raw_range m,
        mtw_active_on_transmit = mt_active_on_transmit m, mtw_s_units = mt_s_units m\<rparr>) (meters c),
      cpw_memory = memory c, cpw_menu = menu c, cpw_signal = signal c,
      cpw_layout = None, cpw_theme = None, cpw_installation = installation_default,
      cpw_cw = map_option cw_capability_wire_from (cw c)\<rparr>"

definition capabilities_wire_from_session :: "session \<Rightarrow> ('l, 't) capabilities_wire" where
  "capabilities_wire_from_session s =
     (capabilities_wire_from (ses_radio s))\<lparr>cpw_installation := ses_installation s\<rparr>"

subsection \<open>Messages\<close>

datatype device_kind = AudioInput | Sdr | AudioOutput

datatype native_command =
    SetFrequency u8 u64
  | SetMode mode_id
  | SetSplit bool
  | SetMemoryChannel u16
  | SetFilterWidth u32
  | SetIfShift i32
  | ReadMeter meter_kind
  | Retune u64
  | ReadDevices
  | AttachDevice device_kind ustr
  | ReadState
  | SetKeyerSpeed u16
  | ArmCwTransmit ustr bool "u16 option"
  | SendCwText ustr
  | AbortCw
  | DisarmCw

record meter_sample =
  ms_kind :: meter_kind
  ms_raw :: u16

record radio_levels =
  af_gain :: u8
  rf_gain :: u8
  squelch :: u8
  mic_gain :: u8
  power_pct :: u8
  agc :: u8
  noise_reduction :: u8
  antenna :: u8
  noise_blanker :: bool
  preamp :: bool
  attenuator :: bool
  speech_processor :: bool
  vox :: bool
  freq_lock :: bool

datatype stop_reason = Completed | Aborted | KeyDownCap | Disconnected | StopError

text \<open>The text of the error messages of the protocol and of the CW supervisor.\<close>

datatype message =
    MsgVersion u16 | MsgHelloFirst | MsgNotHeardYet | MsgNoReading meter_kind | MsgNoDeviceSelection
  | MsgVfoCount u8 u8 | MsgOutside u64 u64 u64 | MsgOutsideRadio u64 | MsgNoMode mode_id | MsgNoSplit
  | MsgNoMemory | MsgChannel u16 u16 u16 | MsgNoWidths | MsgWidth u32 | MsgNoIfShift | MsgIfShift i32
  | MsgNoMeter meter_kind | MsgNoCw | MsgNoKeyerWrite | MsgWpm u16 u16 u16 | MsgNoSendText
  | MsgDummyLoad | MsgNotCallsign ustr | MsgCannotIdentify uchar ustr | MsgZeroCap | MsgNothingToSend
  | MsgTooLong nat | MsgCannotSend uchar | MsgText ustr | MsgCw cw_text

record armed_state =
  as_callsign :: ustr
  as_power_raw :: u16
  as_mine :: bool

record restore_status =
  rs_attempts :: u32
  rs_last_error :: cw_text

datatype sender_state = SenderIdle | SenderSending u32 u32 u32 | SenderDraining u32
  | SenderStopped u32 stop_reason "cw_text option"

record cw_state =
  cs_pitch_hz :: "u32 option"
  cs_keyer_wpm :: "u16 option"
  cs_break_in :: "break_in_kind option"
  cs_armed :: "armed_state option"
  cs_sender :: sender_state
  cs_restore :: "restore_status option"
  cs_id_owed :: "ustr option"

record radio_state =
  st_vfo_a_hz :: u64
  st_vfo_b_hz :: u64
  st_mode :: mode_id
  st_split :: bool
  st_transmitting :: bool
  st_memory_channel :: "u16 option"
  st_if_shift_hz :: "i32 option"
  st_filter_width_hz :: "u32 option"
  st_meters :: "meter_sample list"
  st_levels :: "radio_levels option"
  st_cw :: "cw_state option"

definition state_meter :: "radio_state \<Rightarrow> meter_kind \<Rightarrow> u16 option" where
  "state_meter s kind = map_option ms_raw (List.find (\<lambda>m. ms_kind m = kind) (st_meters s))"

record device_info =
  di_kind :: device_kind
  di_spec :: ustr
  di_label :: ustr
  di_detail :: "ustr option"
  di_is_default :: bool

record device_list =
  dl_kind :: device_kind
  dl_devices :: "device_info list"
  dl_error :: "ustr option"

datatype client_message = Hello u16 bool bool "u8 option" | Command native_command | Ping

datatype error_code = NotReady | VersionMismatch | Unsupported | OutOfRange | MalformedMessage | Forbidden

datatype ('l, 't) server_message =
    Welcome u16 "('l, 't) capabilities_wire"
  | Ack
  | Pong
  | StateMessage radio_state
  | Meter meter_sample
  | Devices "device_list list"
  | ErrorMessage error_code message

subsection \<open>The session\<close>

definition MIN_FPS :: nat where "MIN_FPS = 1"
definition MAX_FPS :: nat where "MAX_FPS = 60"

text \<open>Durations in microseconds.\<close>

definition MAX_FPS_INTERVAL :: nat where "MAX_FPS_INTERVAL = 1000000 div MAX_FPS"
definition DEFAULT_FRAME_INTERVAL :: nat where "DEFAULT_FRAME_INTERVAL = 100000"

record ('l, 't) native_session =
  ns_capabilities :: radio_capabilities
  ns_installation :: installation
  handshaken :: bool
  ns_spectrum :: bool
  ns_audio :: bool
  max_fps :: "u8 option"
  ns_state :: "radio_state option"
  ns_layout :: "'l option"
  ns_theme :: "'t option"
  ns_devices :: "device_list list option"
  ns_serves_cw :: bool

definition with_installation :: "radio_capabilities \<Rightarrow> installation \<Rightarrow> ('l, 't) native_session" where
  "with_installation caps inst =
     \<lparr>ns_capabilities = caps, ns_installation = inst, handshaken = False, ns_spectrum = False, ns_audio = False,
      max_fps = None, ns_state = None, ns_layout = None, ns_theme = None, ns_devices = None, ns_serves_cw = False\<rparr>"

definition native_session_new :: "radio_capabilities \<Rightarrow> ('l, 't) native_session" where
  "native_session_new caps = with_installation caps installation_default"

definition set_serves_cw :: "bool \<Rightarrow> ('l, 't) native_session \<Rightarrow> ('l, 't) native_session" where
  "set_serves_cw b s = s\<lparr>ns_serves_cw := b\<rparr>"

definition reaches_host :: "('l, 't) native_session \<Rightarrow> native_command \<Rightarrow> bool" where
  "reaches_host s command =
     (case command of AbortCw \<Rightarrow> ns_serves_cw s \<and> cw (ns_capabilities s) \<noteq> None | _ \<Rightarrow> True)"

definition set_layout :: "'l option \<Rightarrow> ('l, 't) native_session \<Rightarrow> ('l, 't) native_session" where
  "set_layout l s = s\<lparr>ns_layout := l\<rparr>"

definition set_theme :: "'t option \<Rightarrow> ('l, 't) native_session \<Rightarrow> ('l, 't) native_session" where
  "set_theme t s = s\<lparr>ns_theme := t\<rparr>"

definition publish_state :: "radio_state \<Rightarrow> ('l, 't) native_session \<Rightarrow> ('l, 't) native_session" where
  "publish_state st s = s\<lparr>ns_state := Some st\<rparr>"

definition publish_devices :: "device_list list \<Rightarrow> ('l, 't) native_session \<Rightarrow> ('l, 't) native_session" where
  "publish_devices ds s = s\<lparr>ns_devices := Some ds\<rparr>"

definition frame_interval :: "('l, 't) native_session \<Rightarrow> nat" where
  "frame_interval s =
     (case max_fps s of
        Some fps \<Rightarrow> (let fps = max MIN_FPS (min MAX_FPS (unat fps)) in 1000000 div fps)
      | None \<Rightarrow> DEFAULT_FRAME_INTERVAL)"

definition wants_spectrum :: "('l, 't) native_session \<Rightarrow> bool" where
  "wants_spectrum s \<longleftrightarrow> handshaken s \<and> ns_spectrum s"

definition wants_audio :: "('l, 't) native_session \<Rightarrow> bool" where
  "wants_audio s \<longleftrightarrow> ns_audio s"

text \<open>\<^verbatim>\<open>i32::abs\<close>; the least value has no positive counterpart and is its own result.\<close>

definition i32_abs :: "i32 \<Rightarrow> i32" where
  "i32_abs x = (if sint x < 0 then - x else x)"

definition is_callsign :: "ustr \<Rightarrow> bool" where
  "is_callsign call \<longleftrightarrow> 3 \<le> str_len call \<and> str_len call \<le> 10 \<and>
     list_all (\<lambda>c. is_ascii_alphabetic c \<or> is_ascii_digit c \<or> c = 47) call \<and>
     list_ex is_ascii_alphabetic call \<and> list_ex is_ascii_digit call"

definition validate_arm :: "cw_send_text \<Rightarrow> ustr \<Rightarrow> bool \<Rightarrow> u16 option \<Rightarrow> (error_code \<times> message) + unit" where
  "validate_arm send callsign dummy_load_acknowledged key_down_cap_s =
     (if \<not> dummy_load_acknowledged then Inl (Forbidden, MsgDummyLoad)
      else if \<not> is_callsign callsign then Inl (Forbidden, MsgNotCallsign callsign)
      else (case rejected_char send callsign of
              Some c \<Rightarrow> Inl (Forbidden, MsgCannotIdentify c callsign)
            | None \<Rightarrow> if key_down_cap_s = Some 0 then Inl (OutOfRange, MsgZeroCap) else Inr ()))"

definition validate_text :: "cw_send_text \<Rightarrow> ustr \<Rightarrow> (error_code \<times> message) + unit" where
  "validate_text send t =
     (if str_trim t = [] then Inl (OutOfRange, MsgNothingToSend)
      else if length t > MAX_CW_TEXT_CHARS then Inl (OutOfRange, MsgTooLong (length t))
      else (case rejected_char send t of
              Some c \<Rightarrow> Inl (OutOfRange, MsgCannotSend c)
            | None \<Rightarrow> Inr ()))"

definition validate_cw :: "('l, 't) native_session \<Rightarrow> native_command \<Rightarrow> (error_code \<times> message) + unit" where
  "validate_cw s command =
     (case (if ns_serves_cw s then cw (ns_capabilities s) else None) of
        None \<Rightarrow> Inl (Unsupported, MsgNoCw)
      | Some c \<Rightarrow>
          (case command of
             SetKeyerSpeed wpm \<Rightarrow>
               (case (if keyer_wpm_writable c then keyer_wpm c else None) of
                  None \<Rightarrow> Inl (Unsupported, MsgNoKeyerWrite)
                | Some rg \<Rightarrow>
                    if \<not> wpm_contains rg wpm then Inl (OutOfRange, MsgWpm wpm (wpm_min rg) (wpm_max rg))
                    else Inr ())
           | _ \<Rightarrow>
               (case send_text c of
                  None \<Rightarrow> Inl (Unsupported, MsgNoSendText)
                | Some send \<Rightarrow>
                    (case command of
                       ArmCwTransmit callsign dummy cap \<Rightarrow> validate_arm send callsign dummy cap
                     | SendCwText t \<Rightarrow> validate_text send t
                     | _ \<Rightarrow> Inr ()))))"

definition validate :: "('l, 't) native_session \<Rightarrow> native_command \<Rightarrow> (error_code \<times> message) + unit" where
  "validate s command =
     (let caps = ns_capabilities s
      in case command of
           SetFrequency vfo hz \<Rightarrow>
             if vfo \<ge> vfo_count (vfos caps) then Inl (Unsupported, MsgVfoCount (vfo_count (vfos caps)) vfo)
             else if \<not> fr_contains (rx_range caps) hz
             then Inl (OutOfRange, MsgOutside hz (fr_min_hz (rx_range caps)) (fr_max_hz (rx_range caps)))
             else Inr ()
         | Retune hz \<Rightarrow>
             if \<not> fr_contains (rx_range caps) hz then Inl (OutOfRange, MsgOutsideRadio hz) else Inr ()
         | SetMode m \<Rightarrow> if \<not> supports_mode caps m then Inl (Unsupported, MsgNoMode m) else Inr ()
         | SetSplit _ \<Rightarrow> if \<not> vfo_split (vfos caps) then Inl (Unsupported, MsgNoSplit) else Inr ()
         | SetMemoryChannel channel \<Rightarrow>
             (case memory caps of
                None \<Rightarrow> Inl (Unsupported, MsgNoMemory)
              | Some mem \<Rightarrow>
                  if channel < rr_min (mem_channels mem) \<or> channel > rr_max (mem_channels mem)
                  then Inl (OutOfRange, MsgChannel channel (rr_min (mem_channels mem)) (rr_max (mem_channels mem)))
                  else Inr ())
         | SetFilterWidth hz \<Rightarrow>
             (case widths_hz (filters caps) of
                None \<Rightarrow> Inl (Unsupported, MsgNoWidths)
              | Some widths \<Rightarrow> if hz \<notin> set widths then Inl (OutOfRange, MsgWidth hz) else Inr ())
         | SetIfShift hz \<Rightarrow>
             (case if_shift_hz (filters caps) of
                None \<Rightarrow> Inl (Unsupported, MsgNoIfShift)
              | Some limit \<Rightarrow>
                  if sint (i32_abs hz) > sint limit then Inl (OutOfRange, MsgIfShift limit) else Inr ())
         | ReadMeter kind \<Rightarrow> if \<not> meter_has (meters caps) kind then Inl (Unsupported, MsgNoMeter kind) else Inr ()
         | ReadState \<Rightarrow> Inr ()
         | ReadDevices \<Rightarrow> Inr ()
         | AttachDevice _ _ \<Rightarrow> Inr ()
         | AbortCw \<Rightarrow> Inr ()
         | SetKeyerSpeed _ \<Rightarrow> validate_cw s command
         | ArmCwTransmit _ _ _ \<Rightarrow> validate_cw s command
         | SendCwText _ \<Rightarrow> validate_cw s command
         | DisarmCw \<Rightarrow> validate_cw s command)"

definition handle_hello :: "u16 \<Rightarrow> bool \<Rightarrow> bool \<Rightarrow> u8 option \<Rightarrow> ('l, 't) native_session \<Rightarrow>
    ('l, 't) server_message \<times> ('l, 't) native_session" where
  "handle_hello version spectrum audio fps s =
     (if version \<noteq> PROTOCOL_VERSION then (ErrorMessage VersionMismatch (MsgVersion version), s)
      else (Welcome PROTOCOL_VERSION
              ((capabilities_wire_from (ns_capabilities s))\<lparr>cpw_layout := ns_layout s, cpw_theme := ns_theme s,
                 cpw_installation := ns_installation s,
                 cpw_cw := map_option cw_capability_wire_from
                   (if ns_serves_cw s then cw (ns_capabilities s) else None)\<rparr>),
            s\<lparr>handshaken := True, ns_spectrum := spectrum, ns_audio := audio, max_fps := fps\<rparr>))"

definition answer_command :: "native_command \<Rightarrow> ('l, 't) native_session \<Rightarrow> ('l, 't) server_message" where
  "answer_command command s =
     (case validate s command of
        Inl (code, msg) \<Rightarrow> ErrorMessage code msg
      | Inr _ \<Rightarrow>
          (case command of
             ReadState \<Rightarrow>
               (case ns_state s of
                  Some st \<Rightarrow> StateMessage st
                | None \<Rightarrow> ErrorMessage NotReady MsgNotHeardYet)
           | ReadMeter kind \<Rightarrow>
               (case Option.bind (ns_state s) (\<lambda>st. state_meter st kind) of
                  Some raw \<Rightarrow> Meter \<lparr>ms_kind = kind, ms_raw = raw\<rparr>
                | None \<Rightarrow> ErrorMessage NotReady (MsgNoReading kind))
           | ReadDevices \<Rightarrow>
               (case ns_devices s of
                  Some ds \<Rightarrow> Devices ds
                | None \<Rightarrow> ErrorMessage Unsupported MsgNoDeviceSelection)
           | _ \<Rightarrow> Ack))"

definition native_handle :: "client_message \<Rightarrow> ('l, 't) native_session \<Rightarrow>
    ('l, 't) server_message \<times> ('l, 't) native_session" where
  "native_handle msg s =
     (case msg of
        Hello version spectrum audio fps \<Rightarrow> handle_hello version spectrum audio fps s
      | _ \<Rightarrow>
          if \<not> handshaken s then (ErrorMessage NotReady MsgHelloFirst, s)
          else (case msg of
                  Ping \<Rightarrow> (Pong, s)
                | Command command \<Rightarrow> (answer_command command s, s)
                | Hello version spectrum audio fps \<Rightarrow> handle_hello version spectrum audio fps s))"

subsection \<open>Binary payloads\<close>

record spectrum_frame =
  sf_center_hz :: u64
  sf_span_hz :: u32
  sf_ref_level_dbm :: u32
  sf_bins :: "u32 list"
  sf_sequence :: u64

record audio_scope_frame =
  sc_sample_rate_hz :: u32
  sc_samples :: "u32 list"
  sc_sequence :: u64

record audio_spectrum_frame =
  ap_start_hz :: u32
  ap_span_hz :: u32
  ap_bins :: "u32 list"
  ap_sequence :: u64

record audio_frame =
  af_scope :: audio_scope_frame
  af_spectrum :: audio_spectrum_frame

definition audio_sequence :: "audio_frame \<Rightarrow> u64" where
  "audio_sequence f = sc_sequence (af_scope f)"

definition encode_spectrum_payload :: "spectrum_frame \<Rightarrow> bytes" where
  "encode_spectrum_payload f =
     u64_to_be_bytes (sf_center_hz f) @ u32_to_be_bytes (sf_span_hz f) @ u32_to_be_bytes (sf_ref_level_dbm f) @
     u64_to_be_bytes (sf_sequence f) @ u32_to_be_bytes (of_nat (length (sf_bins f))) @
     concat (map u32_to_be_bytes (sf_bins f))"

text \<open>\<^verbatim>\<open>chunks_exact(4)\<close> with each chunk read as a big-endian number.\<close>

fun be_u32s :: "bytes \<Rightarrow> u32 list" where
  "be_u32s (a # b # c # d # rest) = u32_from_be_bytes [a, b, c, d] # be_u32s rest"
| "be_u32s _ = []"

definition slice :: "nat \<Rightarrow> nat \<Rightarrow> bytes \<Rightarrow> bytes" where
  "slice from_pos to_pos xs = take (to_pos - from_pos) (drop from_pos xs)"

definition decode_spectrum_payload :: "bytes \<Rightarrow> spectrum_frame option" where
  "decode_spectrum_payload p =
     (if length p < 28 then None
      else (let count = unat (u32_from_be_bytes (slice 24 28 p))
            in if length p < 28 + count * 4 then None
               else Some \<lparr>sf_center_hz = u64_from_be_bytes (slice 0 8 p), sf_span_hz = u32_from_be_bytes (slice 8 12 p),
                          sf_ref_level_dbm = u32_from_be_bytes (slice 12 16 p),
                          sf_bins = be_u32s (slice 28 (28 + count * 4) p),
                          sf_sequence = u64_from_be_bytes (slice 16 24 p)\<rparr>))"

definition encode_audio_payload :: "audio_frame \<Rightarrow> bytes" where
  "encode_audio_payload f =
     u64_to_be_bytes (sc_sequence (af_scope f)) @ u32_to_be_bytes (sc_sample_rate_hz (af_scope f)) @
     u32_to_be_bytes (ap_start_hz (af_spectrum f)) @ u32_to_be_bytes (ap_span_hz (af_spectrum f)) @
     u32_to_be_bytes (of_nat (length (sc_samples (af_scope f)))) @
     u32_to_be_bytes (of_nat (length (ap_bins (af_spectrum f)))) @
     concat (map u32_to_be_bytes (sc_samples (af_scope f))) @ concat (map u32_to_be_bytes (ap_bins (af_spectrum f)))"

definition decode_audio_payload :: "bytes \<Rightarrow> audio_frame option" where
  "decode_audio_payload p =
     (if length p < 28 then None
      else (let sequence = u64_from_be_bytes (slice 0 8 p);
                samples = unat (u32_from_be_bytes (slice 20 24 p));
                bins = unat (u32_from_be_bytes (slice 24 28 p))
            in if length p < 28 + samples * 4 + bins * 4 then None
               else Some \<lparr>af_scope = \<lparr>sc_sample_rate_hz = u32_from_be_bytes (slice 8 12 p),
                            sc_samples = be_u32s (slice 28 (28 + samples * 4) p), sc_sequence = sequence\<rparr>,
                          af_spectrum = \<lparr>ap_start_hz = u32_from_be_bytes (slice 12 16 p),
                            ap_span_hz = u32_from_be_bytes (slice 16 20 p),
                            ap_bins = be_u32s (slice (28 + samples * 4) (28 + samples * 4 + bins * 4) p),
                            ap_sequence = sequence\<rparr>\<rparr>))"

definition encode_spectrum :: "('l, 't) native_session \<Rightarrow> spectrum_frame \<Rightarrow> bytes option" where
  "encode_spectrum s f =
     (if \<not> wants_spectrum s then None else Some (native_encode_frame Spectrum (encode_spectrum_payload f)))"

section \<open>Lemmas on frames\<close>

text \<open>A frame that can be read back.\<close>

definition frame_ok :: "frame_kind \<times> bytes \<Rightarrow> bool" where
  "frame_ok = (\<lambda>(k, p). length p < 2 ^ 32 \<and> (k = Control \<longrightarrow> length p \<le> MAX_CONTROL_BYTES))"

lemma frame_kind_roundtrip [simp]: "frame_kind_from_u8 (frame_kind_u8 k) = Some k"
  by (cases k) (simp_all add: frame_kind_u8_def frame_kind_from_u8_def)

lemma unat_of_nat_u32: "n < 2 ^ 32 \<Longrightarrow> unat (of_nat n :: u32) = n"
  by (simp add: unat_of_nat take_bit_nat_eq_self)

lemma length_native_encode_frame [simp]: "length (native_encode_frame k p) = 5 + length p"
  by (simp add: native_encode_frame_def)

lemma decode_encode_frame:
  assumes "frame_ok (k, p)"
  shows "native_decode_frame (native_encode_frame k p @ rest) = Inr (k, p, 5 + length p)"
  using assms by (simp add: frame_ok_def native_decode_frame_def native_encode_frame_def unat_of_nat_u32 not_less Let_def)

lemma decode_frame_used:
  "native_decode_frame buf = Inr (k, p, n) \<Longrightarrow> 5 \<le> n \<and> n \<le> length buf \<and> length p = n - 5"
  by (auto simp: native_decode_frame_def Let_def split: if_splits option.splits)

lemma frame_kind_u8_from: "frame_kind_from_u8 v = Some k \<Longrightarrow> frame_kind_u8 k = v"
  by (auto simp: frame_kind_u8_def frame_kind_from_u8_def split: if_splits)

text \<open>What decodes is the encoding of what was decoded.\<close>

lemma decode_frame_encode:
  assumes "native_decode_frame buf = Inr (k, p, n)"
  shows "take n buf = native_encode_frame k p \<and> frame_ok (k, p)"
proof -
  let ?len = "unat (u32_from_be_bytes (take 4 (drop 1 buf)))"
  from assms have a: "length buf \<ge> 5" "frame_kind_from_u8 (buf ! 0) = Some k" "n = 5 + ?len" "p = take ?len (drop 5 buf)"
    "length buf \<ge> 5 + ?len" "k = Control \<longrightarrow> ?len \<le> MAX_CONTROL_BYTES"
    by (auto simp: native_decode_frame_def Let_def split: if_splits option.splits)
  from a have lp: "length p = ?len" by simp
  have l4: "length (take 4 (drop 1 buf)) = 4" using a(1) by simp
  have "take n buf = take 1 buf @ take 4 (drop 1 buf) @ p"
  proof -
    have "take n buf = take (1 + (4 + ?len)) buf" using a(3) by simp
    also have "\<dots> = take 1 buf @ take 4 (drop 1 buf) @ take ?len (drop 4 (drop 1 buf))"
      by (simp only: take_add)
    finally show ?thesis using a(4) by simp
  qed
  moreover have "take 1 buf = [frame_kind_u8 k]"
    using a(1) frame_kind_u8_from [OF a(2)] by (cases buf) auto
  moreover have "take 4 (drop 1 buf) = u32_to_be_bytes (of_nat (length p))"
    using u32_from_to_be_bytes [OF l4] lp by simp
  moreover have "?len < 2 ^ 32" using unsigned_less [of "u32_from_be_bytes (take 4 (drop 1 buf))"] by simp
  ultimately show ?thesis using lp a(6) by (simp add: native_encode_frame_def frame_ok_def)
qed

lemma decode_frame_append:
  assumes "native_decode_frame buf \<noteq> Inl Incomplete"
  shows "native_decode_frame (buf @ more_bytes) = native_decode_frame buf"
  using assms
  by (auto simp: native_decode_frame_def Let_def nth_append split: if_splits option.splits)

text \<open>
  The loop both ends of a connection run over the bytes they have: the complete frames at the front,
  what is left, and why the loop stopped.
\<close>

function decode_frames :: "bytes \<Rightarrow> (frame_kind \<times> bytes) list \<times> bytes \<times> frame_error" where
  "decode_frames buf =
     (case native_decode_frame buf of
        Inl e \<Rightarrow> ([], buf, e)
      | Inr (k, p, n) \<Rightarrow> (case decode_frames (drop n buf) of (fs, rest, e) \<Rightarrow> ((k, p) # fs, rest, e)))"
  by pat_completeness auto
termination
  by (relation "measure length") (auto dest!: decode_frame_used)

declare decode_frames.simps [simp del]

lemma decode_frames_Inl: "native_decode_frame buf = Inl e \<Longrightarrow> decode_frames buf = ([], buf, e)"
  by (subst decode_frames.simps) simp

lemma decode_frames_Inr:
  "native_decode_frame buf = Inr (k, p, n) \<Longrightarrow>
     decode_frames buf = (case decode_frames (drop n buf) of (fs, rest, e) \<Rightarrow> ((k, p) # fs, rest, e))"
  by (subst decode_frames.simps) simp

text \<open>Where the bytes are cut into reads makes no difference.\<close>

lemma decode_frames_append:
  "decode_frames (buf @ next_bytes) =
     (case decode_frames buf of (fs, rest, e) \<Rightarrow>
        if e = Incomplete then (case decode_frames (rest @ next_bytes) of (gs, rest', e') \<Rightarrow> (fs @ gs, rest', e'))
        else (fs, rest @ next_bytes, e))"
proof (induction buf rule: decode_frames.induct)
  case (1 buf)
  show ?case
  proof (cases "native_decode_frame buf")
    case (Inl e)
    show ?thesis
    proof (cases "e = Incomplete")
      case True
      with Inl show ?thesis by (simp add: decode_frames_Inl split: prod.splits)
    next
      case False
      with Inl have "native_decode_frame (buf @ next_bytes) = Inl e"
        using decode_frame_append [of buf next_bytes] by simp
      with Inl False show ?thesis by (simp add: decode_frames_Inl)
    qed
  next
    case (Inr r)
    obtain k p n where r: "r = (k, p, n)" by (cases r) auto
    with Inr have d: "native_decode_frame buf = Inr (k, p, n)" by simp
    then have "native_decode_frame (buf @ next_bytes) = Inr (k, p, n)"
      using decode_frame_append [of buf next_bytes] by simp
    moreover have "n \<le> length buf" using decode_frame_used [OF d] by simp
    ultimately show ?thesis
      using 1 [OF d refl refl] d
      by (auto simp: decode_frames_Inr split: prod.splits if_splits)
  qed
qed

lemma decode_frames_encode:
  "list_all frame_ok fs \<Longrightarrow>
     decode_frames (concat (map (\<lambda>(k, p). native_encode_frame k p) fs) @ rest) =
       (case decode_frames rest of (gs, rest', e) \<Rightarrow> (fs @ gs, rest', e))"
proof (induction fs)
  case Nil
  then show ?case by (simp split: prod.splits)
next
  case (Cons f fs)
  obtain k p where f: "f = (k, p)" by fastforce
  with Cons.prems have "native_decode_frame (native_encode_frame k p @ (concat (map (\<lambda>(k, p). native_encode_frame k p) fs) @ rest)) =
      Inr (k, p, 5 + length p)"
    using decode_encode_frame by simp
  from decode_frames_Inr [OF this] Cons f show ?case by (simp split: prod.splits)
qed

text \<open>The frames that come out are the bytes that went in.\<close>

lemma decode_frames_sound:
  "decode_frames buf = (fs, rest, e) \<Longrightarrow>
     buf = concat (map (\<lambda>(k, p). native_encode_frame k p) fs) @ rest \<and> list_all frame_ok fs \<and>
     native_decode_frame rest = Inl e"
proof (induction buf arbitrary: fs rule: decode_frames.induct)
  case (1 buf)
  show ?case
  proof (cases "native_decode_frame buf")
    case (Inl e')
    with 1(2) show ?thesis by (simp add: decode_frames_Inl)
  next
    case (Inr r)
    obtain k p n where r: "r = (k, p, n)" by (cases r) auto
    with Inr have d: "native_decode_frame buf = Inr (k, p, n)" by simp
    obtain fs' where fs: "fs = (k, p) # fs'" "decode_frames (drop n buf) = (fs', rest, e)"
      using 1(2) decode_frames_Inr [OF d] by (auto split: prod.splits)
    from 1(1) [OF d refl refl fs(2)] decode_frame_encode [OF d] fs(1) show ?thesis
      by simp (metis append_take_drop_id append.assoc)
  qed
qed

section \<open>Lemmas on payloads\<close>

lemma u32_to_be_bytes_list: "\<exists>a b c d. u32_to_be_bytes w = [a, b, c, d]"
  by (simp add: u32_to_be_bytes_def be_bytes_def)

lemma be_u32s_Cons [simp]: "be_u32s (u32_to_be_bytes w @ xs) = w # be_u32s xs"
proof -
  obtain a b c d where e: "u32_to_be_bytes w = [a, b, c, d]" using u32_to_be_bytes_list by blast
  then have "u32_from_be_bytes [a, b, c, d] = w" using u32_be_roundtrip [of w] by simp
  with e show ?thesis by simp
qed

lemma be_u32s_concat [simp]: "be_u32s (concat (map u32_to_be_bytes ws)) = ws"
  by (induction ws) auto

lemma length_concat_u32 [simp]: "length (concat (map u32_to_be_bytes ws)) = length ws * 4"
  by (induction ws) auto

text \<open>Reading a field by its place, one field after the other.\<close>

lemma slice_here: "length a = n \<Longrightarrow> slice 0 n (a @ rest) = a"
  by (simp add: slice_def)

lemma slice_later: "length a \<le> i \<Longrightarrow> slice i j (a @ rest) = slice (i - length a) (j - length a) rest"
  by (simp add: slice_def)

lemma spectrum_payload_roundtrip_lemma:
  assumes "length (sf_bins f) < 2 ^ 32"
  shows "decode_spectrum_payload (encode_spectrum_payload f) = Some f"
  using assms
  by (simp add: decode_spectrum_payload_def encode_spectrum_payload_def slice_here slice_later unat_of_nat_u32 Let_def)
     (simp add: slice_def)

lemma audio_payload_roundtrip_lemma:
  assumes "length (sc_samples (af_scope f)) < 2 ^ 32" and "length (ap_bins (af_spectrum f)) < 2 ^ 32"
  shows "decode_audio_payload (encode_audio_payload f) =
    Some (f\<lparr>af_spectrum := (af_spectrum f)\<lparr>ap_sequence := audio_sequence f\<rparr>\<rparr>)"
  using assms
  by (simp add: decode_audio_payload_def encode_audio_payload_def slice_here slice_later unat_of_nat_u32 Let_def
      audio_sequence_def)
     (simp add: slice_def)

section \<open>Lemmas on sessions\<close>

text \<open>What the protocol promises about a command it accepts, in terms of the radio.\<close>

definition possible :: "('l, 't) native_session \<Rightarrow> native_command \<Rightarrow> bool" where
  "possible s command =
     (let caps = ns_capabilities s
      in case command of
           SetFrequency vfo hz \<Rightarrow> unat vfo < unat (vfo_count (vfos caps)) \<and>
             unat (fr_min_hz (rx_range caps)) \<le> unat hz \<and> unat hz \<le> unat (fr_max_hz (rx_range caps))
         | Retune hz \<Rightarrow> unat (fr_min_hz (rx_range caps)) \<le> unat hz \<and> unat hz \<le> unat (fr_max_hz (rx_range caps))
         | SetMode m \<Rightarrow> m \<in> md_id ` set (modes caps)
         | SetSplit _ \<Rightarrow> vfo_split (vfos caps)
         | SetMemoryChannel ch \<Rightarrow>
             (\<exists>mem. memory caps = Some mem \<and> rr_min (mem_channels mem) \<le> ch \<and> ch \<le> rr_max (mem_channels mem))
         | SetFilterWidth hz \<Rightarrow> (\<exists>ws. widths_hz (filters caps) = Some ws \<and> hz \<in> set ws)
         | SetIfShift hz \<Rightarrow> (\<exists>limit. if_shift_hz (filters caps) = Some limit \<and> \<bar>sint hz\<bar> \<le> sint limit)
         | ReadMeter kind \<Rightarrow> kind \<in> mt_kind ` set (meters caps)
         | SetKeyerSpeed wpm \<Rightarrow> ns_serves_cw s \<and>
             (\<exists>c rg. cw caps = Some c \<and> keyer_wpm c = Some rg \<and> keyer_wpm_writable c \<and> wpm_min rg \<le> wpm \<and> wpm \<le> wpm_max rg)
         | ArmCwTransmit call dummy cap \<Rightarrow> ns_serves_cw s \<and> dummy \<and> is_callsign call \<and> cap \<noteq> Some 0 \<and>
             (\<exists>c send. cw caps = Some c \<and> send_text c = Some send \<and> cw_accepts send call)
         | SendCwText t \<Rightarrow> ns_serves_cw s \<and> split_whitespace t \<noteq> [] \<and> length t \<le> 256 \<and>
             (\<exists>c send. cw caps = Some c \<and> send_text c = Some send \<and> cw_accepts send t)
         | DisarmCw \<Rightarrow> ns_serves_cw s \<and> (\<exists>c. cw caps = Some c \<and> send_text c \<noteq> None)
         | _ \<Rightarrow> True)"

lemma i32_abs_spec: "sint x \<noteq> - (2 ^ 31) \<Longrightarrow> sint (i32_abs x) = \<bar>sint x\<bar>"
proof -
  assume a: "sint x \<noteq> - (2 ^ 31)"
  have b: "- (2 ^ 31) \<le> sint x" "sint x < 2 ^ 31" using sint_range_size [of x] by (simp_all add: word_size)
  show ?thesis
  proof (cases "sint x < 0")
    case True
    have "sint (- x) = - sint x"
      using a b True by (simp add: sint_word_ariths signed_take_bit_int_eq_self)
    with True show ?thesis by (simp add: i32_abs_def)
  qed (simp add: i32_abs_def)
qed

lemma i32_abs_least: "sint x = - (2 ^ 31) \<Longrightarrow> sint (i32_abs x) = - (2 ^ 31)"
  by (simp add: i32_abs_def sint_word_ariths)

lemma supports_mode_image: "supports_mode caps m \<longleftrightarrow> m \<in> md_id ` set (modes caps)"
  by (auto simp: supports_mode_def list_ex_iff)

lemma meter_has_image: "meter_has ms kind \<longleftrightarrow> kind \<in> mt_kind ` set ms"
  by (auto simp: meter_has_def meter_find_def find_None_iff)

lemma fr_contains_unat:
  "fr_contains r hz \<longleftrightarrow> unat (fr_min_hz r) \<le> unat hz \<and> unat hz \<le> unat (fr_max_hz r)"
  by (simp add: fr_contains_def word_le_nat_alt)

text \<open>Everything that happens to a session: messages of the client, and what the host publishes.\<close>

datatype session_event = Received client_message | StatePublished radio_state
  | DevicesPublished "device_list list" | ServesCw bool

definition session_step :: "session_event \<Rightarrow> ('l, 't) native_session \<Rightarrow> ('l, 't) native_session" where
  "session_step ev s =
     (case ev of
        Received m \<Rightarrow> snd (native_handle m s)
      | StatePublished st \<Rightarrow> publish_state st s
      | DevicesPublished ds \<Rightarrow> publish_devices ds s
      | ServesCw b \<Rightarrow> set_serves_cw b s)"

text \<open>What the last accepted greeting asked for.\<close>

fun last_hello :: "session_event list \<Rightarrow> (bool \<times> bool \<times> u8 option) option" where
  "last_hello [] = None"
| "last_hello (ev # evs) =
     (case last_hello evs of
        Some h \<Rightarrow> Some h
      | None \<Rightarrow>
          (case ev of
             Received (Hello version sp au fps) \<Rightarrow> if version = PROTOCOL_VERSION then Some (sp, au, fps) else None
           | _ \<Rightarrow> None))"

lemma last_hello_append:
  "last_hello (evs @ fs) = (case last_hello fs of Some h \<Rightarrow> Some h | None \<Rightarrow> last_hello evs)"
  by (induction evs) (auto split: option.splits)

lemma session_step_frame:
  "ns_capabilities (session_step ev s) = ns_capabilities s \<and> ns_installation (session_step ev s) = ns_installation s"
  by (auto simp: session_step_def native_handle_def handle_hello_def publish_state_def publish_devices_def
      set_serves_cw_def split: session_event.splits client_message.splits)

lemma session_step_streams:
  "(handshaken (session_step ev s), ns_spectrum (session_step ev s), ns_audio (session_step ev s), max_fps (session_step ev s)) =
     (case last_hello [ev] of
        Some (sp, au, fps) \<Rightarrow> (True, sp, au, fps)
      | None \<Rightarrow> (handshaken s, ns_spectrum s, ns_audio s, max_fps s))"
  by (auto simp: session_step_def native_handle_def handle_hello_def publish_state_def publish_devices_def
      set_serves_cw_def split: session_event.splits client_message.splits)

lemma session_run:
  "(handshaken (fold session_step evs s), ns_spectrum (fold session_step evs s), ns_audio (fold session_step evs s),
      max_fps (fold session_step evs s)) =
     (case last_hello evs of
        Some (sp, au, fps) \<Rightarrow> (True, sp, au, fps)
      | None \<Rightarrow> (handshaken s, ns_spectrum s, ns_audio s, max_fps s))"
proof (induction evs rule: rev_induct)
  case (snoc ev evs)
  then show ?case
    using session_step_streams [of ev "fold session_step evs s"] by (auto simp: last_hello_append split: option.splits)
qed simp

lemma session_run_frame:
  "ns_capabilities (fold session_step evs s) = ns_capabilities s \<and> ns_installation (fold session_step evs s) = ns_installation s"
  by (induction evs arbitrary: s) (auto simp: session_step_frame)

section \<open>Properties\<close>

text \<open>
  C12: The session accepts a command exactly when the radio it was built for can carry it out: the VFO
  exists, the frequency, channel, width, shift and speed are inside the published ranges, the mode and
  meter exist, and CW needs a host that supervises it, an acknowledged dummy load, a callsign the
  keyer can send, a time limit that is not zero if one is given, and text of at most 256 characters the keyer
  can send. The one exception is an IF shift of the least 32-bit number,
  whose absolute value overflows: it is accepted by every radio that has an IF shift at all.
\<close>

theorem native_validate_exact:
  "validate s command = Inr () \<longleftrightarrow> possible s command \<or>
     (\<exists>hz. command = SetIfShift hz \<and> sint hz = - (2 ^ 31) \<and> if_shift_hz (filters (ns_capabilities s)) \<noteq> None)"
proof (cases command)
  case (SetIfShift hz)
  show ?thesis
  proof (cases "sint hz = - (2 ^ 31)")
    case True
    have "\<not> sint (i32_abs hz) > sint limit" for limit :: i32
      using i32_abs_least [OF True] sint_range_size [of limit] by (simp add: word_size)
    with SetIfShift True show ?thesis
      by (auto simp: validate_def possible_def Let_def split: option.splits)
  next
    case False
    with SetIfShift show ?thesis
      by (auto simp: validate_def possible_def Let_def i32_abs_spec split: option.splits)
  qed
next
  case (ArmCwTransmit call dummy cap)
  then show ?thesis
    by (cases "cw (ns_capabilities s)")
       (simp_all add: validate_def possible_def Let_def validate_cw_def validate_arm_def cw_accepts_def split: option.split)
next
  case (SendCwText t)
  have "str_trim t = [] \<longleftrightarrow> split_whitespace t = []"
    by (simp only: str_trim_Nil_iff split_whitespace_Nil_iff)
  with SendCwText show ?thesis
    by (cases "cw (ns_capabilities s)")
       (simp_all add: validate_def possible_def Let_def validate_cw_def validate_text_def cw_accepts_def
          MAX_CW_TEXT_CHARS_def not_less split: option.split)
next
  case (SetFrequency vfo hz)
  then show ?thesis
    by (auto simp: validate_def possible_def Let_def fr_contains_unat word_le_nat_alt)
next
  case (SetMemoryChannel ch)
  then show ?thesis
    by (auto simp: validate_def possible_def Let_def split: option.split)
next
  case (SetFilterWidth hz)
  then show ?thesis
    by (simp add: validate_def possible_def Let_def split: option.split)
next
  case (SetKeyerSpeed wpm)
  then show ?thesis
    by (cases "cw (ns_capabilities s)")
       (simp_all add: validate_def possible_def Let_def validate_cw_def wpm_contains_def split: option.split)
next
  case DisarmCw
  then show ?thesis
    by (cases "cw (ns_capabilities s)")
       (simp_all add: validate_def possible_def Let_def validate_cw_def split: option.split)
qed (simp_all add: validate_def possible_def Let_def fr_contains_unat supports_mode_image meter_has_image)

text \<open>
  C34: A client is sent what it asked for. After any sequence of messages and host updates, spectrum
  and audio are on exactly if the last greeting with the right version asked for them; a greeting with
  another version changes nothing; before the first such greeting every other message is refused and
  changes nothing.
\<close>

theorem native_streams_follow_hello:
  "let s = fold session_step evs (with_installation caps inst :: ('l, 't) native_session) in
     wants_spectrum s = (case last_hello evs of Some (sp, _, _) \<Rightarrow> sp | None \<Rightarrow> False) \<and>
     wants_audio s = (case last_hello evs of Some (_, au, _) \<Rightarrow> au | None \<Rightarrow> False) \<and>
     ns_capabilities s = caps \<and>
     (case last_hello evs of
        Some _ \<Rightarrow> True
      | None \<Rightarrow> native_handle Ping s = (ErrorMessage NotReady MsgHelloFirst, s) \<and>
          native_handle (Command command) s = (ErrorMessage NotReady MsgHelloFirst, s))"
proof -
  let ?s = "fold session_step evs (with_installation caps inst :: ('l, 't) native_session)"
  have "(handshaken ?s, ns_spectrum ?s, ns_audio ?s) =
      (case last_hello evs of Some (sp, au, _) \<Rightarrow> (True, sp, au) | None \<Rightarrow> (False, False, False))"
    using session_run [of evs "with_installation caps inst :: ('l, 't) native_session"]
    by (auto simp: with_installation_def split: option.splits)
  moreover have "ns_capabilities ?s = caps"
    using session_run_frame [of evs "with_installation caps inst :: ('l, 't) native_session"]
    by (simp add: with_installation_def)
  moreover have "native_handle m s' = (ErrorMessage NotReady MsgHelloFirst, s')"
    if "\<not> handshaken s'" "m = Ping \<or> m = Command command" for m and s' :: "('l, 't) native_session"
    using that by (auto simp: native_handle_def)
  ultimately show ?thesis
    unfolding Let_def wants_spectrum_def wants_audio_def
    by (cases "last_hello evs") (simp_all split: prod.splits)
qed

text \<open>
  C21: Frames survive the stream. However the bytes of a connection are cut into reads, decoding what
  has arrived gives the frames that were written, in order, and keeps exactly the bytes of the frame
  still under way; every frame that is decoded is one whose encoding is in the stream. The frames written
  are those whose length fits the header, and control frames those within the control limit.
\<close>

theorem native_frames_stream:
  assumes "list_all frame_ok fs" and "buf @ next_bytes = concat (map (\<lambda>(k, p). native_encode_frame k p) fs)"
  shows "\<exists>gs rest hs. decode_frames buf = (gs, rest, Incomplete) \<and> decode_frames (rest @ next_bytes) = (hs, [], Incomplete) \<and>
    fs = gs @ hs \<and> buf = concat (map (\<lambda>(k, p). native_encode_frame k p) gs) @ rest"
proof -
  have nil: "decode_frames [] = ([], [], Incomplete)"
    by (rule decode_frames_Inl) (simp add: native_decode_frame_def)
  have all: "decode_frames (buf @ next_bytes) = (fs, [], Incomplete)"
    using decode_frames_encode [OF assms(1), of "[]"] by (simp add: assms(2) nil)
  obtain gs rest e where d: "decode_frames buf = (gs, rest, e)" by (cases "decode_frames buf") auto
  have app: "decode_frames (buf @ next_bytes) =
      (if e = Incomplete then (case decode_frames (rest @ next_bytes) of (hs, rest', e') \<Rightarrow> (gs @ hs, rest', e'))
       else (gs, rest @ next_bytes, e))"
    using decode_frames_append [of buf next_bytes] d by simp
  with all have e: "e = Incomplete" by (auto split: if_splits)
  with all app obtain hs where "decode_frames (rest @ next_bytes) = (hs, [], Incomplete)" "fs = gs @ hs"
    by (cases "decode_frames (rest @ next_bytes)") auto
  moreover have "buf = concat (map (\<lambda>(k, p). native_encode_frame k p) gs) @ rest"
    using decode_frames_sound [OF d] by simp
  ultimately show ?thesis using d e by (intro exI [of _ gs] exI [of _ rest] exI [of _ hs] conjI) simp_all
qed

theorem native_frames_stream_witness:
  "\<exists>gs rest hs. decode_frames [1, 0, 0, 0, 1, 7, 2, 0] = (gs, rest, Incomplete) \<and>
     decode_frames (rest @ [0, 0, 0]) = (hs, [], Incomplete) \<and> [(Control, [7]), (Spectrum, [])] = gs @ hs"
proof -
  have "list_all frame_ok [(Control, [7]), (Spectrum, [])]"
    by (simp add: frame_ok_def MAX_CONTROL_BYTES_def)
  moreover have "[1, 0, 0, 0, 1, 7, 2, 0] @ [0, 0, 0] =
      concat (map (\<lambda>(k, p). native_encode_frame k p) [(Control, [7]), (Spectrum, [])])"
    by (simp add: native_encode_frame_def frame_kind_u8_def u32_to_be_bytes_def be_bytes_def)
  ultimately have "\<exists>gs rest hs. decode_frames [1, 0, 0, 0, 1, 7, 2, 0] = (gs, rest, Incomplete) \<and>
      decode_frames (rest @ [0, 0, 0]) = (hs, [], Incomplete) \<and> [(Control, [7]), (Spectrum, [])] = gs @ hs \<and>
      [1, 0, 0, 0, 1, 7, 2, 0] = concat (map (\<lambda>(k, p). native_encode_frame k p) gs) @ rest"
    by (rule native_frames_stream)
  then show ?thesis by blast
qed

text \<open>
  C36: Spectrum and audio payloads decode to the frame that was encoded, bin for bin and bit for bit,
  for every number of bins a 32-bit count can hold; the two halves of a decoded audio frame carry one
  sequence number, that of the scope.
\<close>

theorem native_payload_roundtrip:
  assumes "length (sf_bins sf) < 2 ^ 32" and "length (sc_samples (af_scope af)) < 2 ^ 32"
    and "length (ap_bins (af_spectrum af)) < 2 ^ 32"
  shows "decode_spectrum_payload (encode_spectrum_payload sf) = Some sf \<and>
    decode_audio_payload (encode_audio_payload af) =
      Some (af\<lparr>af_spectrum := (af_spectrum af)\<lparr>ap_sequence := audio_sequence af\<rparr>\<rparr>)"
  using spectrum_payload_roundtrip_lemma [OF assms(1)] audio_payload_roundtrip_lemma [OF assms(2,3)] by blast

theorem native_payload_roundtrip_witness:
  "decode_spectrum_payload (encode_spectrum_payload
     \<lparr>sf_center_hz = 14074000, sf_span_hz = 48000, sf_ref_level_dbm = 0xC2480000, sf_bins = [1, 2], sf_sequence = 7\<rparr>) =
   Some \<lparr>sf_center_hz = 14074000, sf_span_hz = 48000, sf_ref_level_dbm = 0xC2480000, sf_bins = [1, 2], sf_sequence = 7\<rparr>"
  using native_payload_roundtrip [of "\<lparr>sf_center_hz = 14074000, sf_span_hz = 48000, sf_ref_level_dbm = 0xC2480000,
      sf_bins = [1, 2], sf_sequence = 7\<rparr>" "\<lparr>af_scope = \<lparr>sc_sample_rate_hz = 0, sc_samples = [], sc_sequence = 0\<rparr>,
      af_spectrum = \<lparr>ap_start_hz = 0, ap_span_hz = 0, ap_bins = [], ap_sequence = 0\<rparr>\<rparr>"]
  by simp

text \<open>
  A client is never sent frames faster than sixty a second or slower than one a second, whatever number
  it asks for.
\<close>

theorem frame_interval_bounds:
  "MAX_FPS_INTERVAL \<le> frame_interval s \<and> frame_interval s \<le> 1000000"
proof (cases "max_fps s")
  case (Some fps)
  let ?f = "max MIN_FPS (min MAX_FPS (unat fps))"
  have f: "1 \<le> ?f" "?f \<le> 60" by (simp_all add: MIN_FPS_def MAX_FPS_def)
  then have "1000000 div 60 \<le> 1000000 div ?f" "1000000 div ?f \<le> 1000000 div 1"
    using div_le_mono2 [of ?f 60 1000000] div_le_mono2 [of 1 ?f 1000000] by linarith+
  with Some show ?thesis by (simp add: frame_interval_def MAX_FPS_INTERVAL_def MAX_FPS_def Let_def)
qed (simp add: frame_interval_def MAX_FPS_INTERVAL_def MAX_FPS_def DEFAULT_FRAME_INTERVAL_def)

end
