(* ===== verification/Native_Server.thy ===== *)
theory Native_Server imports Native_Protocol begin

text \<open>
  The blocking listener of the native protocol (\<^verbatim>\<open>cat-native/src/server.rs\<close>): one console connection,
  from the bytes that arrive to the replies and pictures that are written.

  The radio behind the listener (\<^verbatim>\<open>RadioHost\<close>) is a record of its methods over a state; the methods the
  trait gives defaults for are fields like the others. \<^verbatim>\<open>serde_json\<close> is a pair of parameters. One pass of
  the loop takes what the read returned and the clock, in microseconds. Accepting connections and
  spawning their threads is not modelled.
\<close>

section \<open>Definitions\<close>

type_synonym console_id = u64
type_synonym host_refusal = "error_code \<times> message"

definition host_refusal_from :: "ustr \<Rightarrow> host_refusal" where
  "host_refusal_from msg = (OutOfRange, MsgText msg)"

record ('h, 'l, 't) radio_host =
  host_capabilities :: "'h \<Rightarrow> radio_capabilities"
  host_installation :: "'h \<Rightarrow> installation"
  host_layout :: "'h \<Rightarrow> 'l option"
  host_theme :: "'h \<Rightarrow> 't option"
  host_serves_cw :: "'h \<Rightarrow> bool"
  host_state_as :: "console_id \<Rightarrow> 'h \<Rightarrow> radio_state"
  host_devices :: "'h \<Rightarrow> device_list list option"
  host_apply_as :: "console_id \<Rightarrow> native_command \<Rightarrow> 'h \<Rightarrow> (host_refusal + unit) \<times> 'h"
  host_spectrum :: "'h \<Rightarrow> spectrum_frame option"
  host_audio :: "'h \<Rightarrow> audio_frame option"

text \<open>\<^verbatim>\<open>RadioHost::apply_as\<close> as the trait defines it from \<^verbatim>\<open>apply\<close>.\<close>

definition default_apply_as :: "(native_command \<Rightarrow> 'h \<Rightarrow> (ustr + unit) \<times> 'h) \<Rightarrow>
    console_id \<Rightarrow> native_command \<Rightarrow> 'h \<Rightarrow> (host_refusal + unit) \<times> 'h" where
  "default_apply_as apply_fn console command h =
     (case apply_fn command h of
        (Inl msg, h') \<Rightarrow> (Inl (host_refusal_from msg), h')
      | (Inr _, h') \<Rightarrow> (Inr (), h'))"

record ('l, 't) json =
  json_decode :: "bytes \<Rightarrow> ustr + client_message"
  json_encode :: "('l, 't) server_message \<Rightarrow> bytes option"

definition PUMP_INTERVAL :: nat where "PUMP_INTERVAL = 30000"
definition WAKE_FLOOR :: nat where "WAKE_FLOOR = 1000"

definition wake_for :: "nat \<Rightarrow> nat \<Rightarrow> nat" where
  "wake_for elapsed interval = max WAKE_FLOOR (min PUMP_INTERVAL (interval - elapsed))"

record ('h, 'l, 't, 's) console_conn =
  cc_session :: "('l, 't) native_session"
  cc_pending :: bytes
  cc_host :: 'h
  cc_stream :: 's
  cc_last_display :: nat
  cc_last_sequence :: "u64 option"
  cc_last_audio_sequence :: "u64 option"

definition conn_new :: "('h, 'l, 't) radio_host \<Rightarrow> nat \<Rightarrow> 'h \<Rightarrow> 's \<Rightarrow> ('h, 'l, 't, 's) console_conn" where
  "conn_new host now h stream =
     \<lparr>cc_session = set_serves_cw (host_serves_cw host h) (set_theme (host_theme host h) (set_layout (host_layout host h)
        (with_installation (host_capabilities host h) (host_installation host h)))),
      cc_pending = [], cc_host = h, cc_stream = stream, cc_last_display = now,
      cc_last_sequence = None, cc_last_audio_sequence = None\<rparr>"

text \<open>The session as it is refreshed before every message.\<close>

definition refresh :: "('h, 'l, 't) radio_host \<Rightarrow> console_id \<Rightarrow> 'h \<Rightarrow> ('l, 't) native_session \<Rightarrow> ('l, 't) native_session" where
  "refresh host console h s =
     (let s1 = publish_state (host_state_as host console h) s;
          s2 = (case host_devices host h of Some ds \<Rightarrow> publish_devices ds s1 | None \<Rightarrow> s1)
      in set_serves_cw (host_serves_cw host h) s2)"

text \<open>One control frame: its reply, and the session and the host afterwards.\<close>

definition handle_payload :: "('h, 'l, 't) radio_host \<Rightarrow> ('l, 't) json \<Rightarrow> console_id \<Rightarrow> bytes \<Rightarrow>
    ('l, 't) native_session \<Rightarrow> 'h \<Rightarrow> ('l, 't) server_message \<times> ('l, 't) native_session \<times> 'h" where
  "handle_payload host js console payload s h =
     (case json_decode js payload of
        Inl e \<Rightarrow> (ErrorMessage MalformedMessage (MsgText e), s, h)
      | Inr msg \<Rightarrow>
          (case native_handle msg (refresh host console h s) of
             (reply, s') \<Rightarrow>
               (case (case msg of
                        Command command \<Rightarrow> if reply = Ack \<and> reaches_host s' command then Some command else None
                      | _ \<Rightarrow> None) of
                  None \<Rightarrow> (reply, s', h)
                | Some command \<Rightarrow>
                    (case host_apply_as host console command h of
                       (Inr _, h') \<Rightarrow> (reply, s', h')
                     | (Inl (code, msg'), h') \<Rightarrow> (ErrorMessage code msg', s', h')))))"

text \<open>Writing to the console: \<open>w\<close> is \<^verbatim>\<open>write_all\<close> followed by \<^verbatim>\<open>flush\<close>; \<open>Inl\<close> ends the connection.\<close>

datatype 'e serve_end = EncodeFailed | WriteFailed 'e | ReadFailed 'e

definition write_control :: "('l, 't) json \<Rightarrow> (bytes \<Rightarrow> 's \<Rightarrow> ('e + unit) \<times> 's) \<Rightarrow> ('l, 't) server_message \<Rightarrow> 's \<Rightarrow>
    ('e serve_end + unit) \<times> 's" where
  "write_control js w reply k =
     (case json_encode js reply of
        None \<Rightarrow> (Inl EncodeFailed, k)
      | Some payload \<Rightarrow>
          (case w (native_encode_frame Control payload) k of
             (Inl e, k') \<Rightarrow> (Inl (WriteFailed e), k')
           | (Inr _, k') \<Rightarrow> (Inr (), k')))"

text \<open>The frames of one pass. Frames that are not control frames are skipped.\<close>

fun serve_frames :: "('h, 'l, 't) radio_host \<Rightarrow> ('l, 't) json \<Rightarrow> (bytes \<Rightarrow> 's \<Rightarrow> ('e + unit) \<times> 's) \<Rightarrow> console_id \<Rightarrow>
    (frame_kind \<times> bytes) list \<Rightarrow> ('h, 'l, 't, 's) console_conn \<Rightarrow> ('e serve_end + unit) \<times> ('h, 'l, 't, 's) console_conn" where
  "serve_frames host js w console [] c = (Inr (), c)"
| "serve_frames host js w console ((kind, payload) # fs) c =
     (if kind = Control then
        (case handle_payload host js console payload (cc_session c) (cc_host c) of
           (reply, s, h) \<Rightarrow>
             (case write_control js w reply (cc_stream c) of
                (Inl e, k) \<Rightarrow> (Inl e, c\<lparr>cc_session := s, cc_host := h, cc_stream := k\<rparr>)
              | (Inr _, k) \<Rightarrow> serve_frames host js w console fs (c\<lparr>cc_session := s, cc_host := h, cc_stream := k\<rparr>)))
      else serve_frames host js w console fs c)"

text \<open>The pictures of one pass: audio first, then spectrum, each only if it is new.\<close>

definition pump_audio :: "('h, 'l, 't) radio_host \<Rightarrow> (bytes \<Rightarrow> 's \<Rightarrow> ('e + unit) \<times> 's) \<Rightarrow>
    ('h, 'l, 't, 's) console_conn \<Rightarrow> ('e serve_end + unit) \<times> ('h, 'l, 't, 's) console_conn" where
  "pump_audio host w c =
     (if wants_audio (cc_session c) then
        (case host_audio host (cc_host c) of
           None \<Rightarrow> (Inr (), c)
         | Some frame \<Rightarrow>
             if cc_last_audio_sequence c \<noteq> Some (audio_sequence frame) then
               (case w (native_encode_frame Audio (encode_audio_payload frame)) (cc_stream c) of
                  (Inl e, k) \<Rightarrow> (Inl (WriteFailed e), c\<lparr>cc_last_audio_sequence := Some (audio_sequence frame), cc_stream := k\<rparr>)
                | (Inr _, k) \<Rightarrow> (Inr (), c\<lparr>cc_last_audio_sequence := Some (audio_sequence frame), cc_stream := k\<rparr>))
             else (Inr (), c))
      else (Inr (), c))"

definition pump_spectrum :: "('h, 'l, 't) radio_host \<Rightarrow> (bytes \<Rightarrow> 's \<Rightarrow> ('e + unit) \<times> 's) \<Rightarrow>
    ('h, 'l, 't, 's) console_conn \<Rightarrow> ('e serve_end + unit) \<times> ('h, 'l, 't, 's) console_conn" where
  "pump_spectrum host w c =
     (if wants_spectrum (cc_session c) then
        (case host_spectrum host (cc_host c) of
           None \<Rightarrow> (Inr (), c)
         | Some frame \<Rightarrow>
             if cc_last_sequence c \<noteq> Some (sf_sequence frame) then
               (case w (native_encode_frame Spectrum (encode_spectrum_payload frame)) (cc_stream c) of
                  (Inl e, k) \<Rightarrow> (Inl (WriteFailed e), c\<lparr>cc_last_sequence := Some (sf_sequence frame), cc_stream := k\<rparr>)
                | (Inr _, k) \<Rightarrow> (Inr (), c\<lparr>cc_last_sequence := Some (sf_sequence frame), cc_stream := k\<rparr>))
             else (Inr (), c))
      else (Inr (), c))"

definition pump_pictures :: "('h, 'l, 't) radio_host \<Rightarrow> (bytes \<Rightarrow> 's \<Rightarrow> ('e + unit) \<times> 's) \<Rightarrow> nat \<Rightarrow>
    ('h, 'l, 't, 's) console_conn \<Rightarrow> ('e serve_end + unit) \<times> ('h, 'l, 't, 's) console_conn" where
  "pump_pictures host w now c =
     (if now - cc_last_display c \<ge> frame_interval (cc_session c) then
        (case pump_audio host w (c\<lparr>cc_last_display := now\<rparr>) of
           (Inl e, c1) \<Rightarrow> (Inl e, c1)
         | (Inr _, c1) \<Rightarrow> pump_spectrum host w c1)
      else (Inr (), c))"

datatype 'e read_result = ReadBytes bytes | ReadTimedOut | ReadEof | ReadError 'e

text \<open>
  One pass of \<^verbatim>\<open>serve_one\<close>: \<open>None\<close> goes round again, \<open>Some\<close> is the value the function returns. The bytes
  of complete frames leave \<open>cc_pending\<close>; the loop that decodes them does not change what it decodes.
\<close>

definition serve_pass :: "('h, 'l, 't) radio_host \<Rightarrow> ('l, 't) json \<Rightarrow> (bytes \<Rightarrow> 's \<Rightarrow> ('e + unit) \<times> 's) \<Rightarrow> console_id \<Rightarrow>
    'e read_result \<Rightarrow> nat \<Rightarrow> ('h, 'l, 't, 's) console_conn \<Rightarrow> ('e serve_end + unit) option \<times> ('h, 'l, 't, 's) console_conn" where
  "serve_pass host js w console r now c =
     (let go = (\<lambda>c.
        case decode_frames (cc_pending c) of (fs, rest, _) \<Rightarrow>
          (case serve_frames host js w console fs c of
             (Inl e, c1) \<Rightarrow> (Some (Inl e), c1)
           | (Inr _, c1) \<Rightarrow>
               (case pump_pictures host w now (c1\<lparr>cc_pending := rest\<rparr>) of
                  (Inl e, c2) \<Rightarrow> (Some (Inl e), c2)
                | (Inr _, c2) \<Rightarrow> (None, c2))))
      in case r of
           ReadEof \<Rightarrow> (Some (Inr ()), c)
         | ReadError e \<Rightarrow> (Some (Inl (ReadFailed e)), c)
         | ReadBytes bs \<Rightarrow> go (c\<lparr>cc_pending := cc_pending c @ bs\<rparr>)
         | ReadTimedOut \<Rightarrow> go c)"

text \<open>Passes one after the other, as long as the function does not return.\<close>

fun serve_passes :: "('h, 'l, 't) radio_host \<Rightarrow> ('l, 't) json \<Rightarrow> (bytes \<Rightarrow> 's \<Rightarrow> ('e + unit) \<times> 's) \<Rightarrow> console_id \<Rightarrow>
    ('e read_result \<times> nat) list \<Rightarrow> ('h, 'l, 't, 's) console_conn \<Rightarrow> ('e serve_end + unit) option \<times> ('h, 'l, 't, 's) console_conn" where
  "serve_passes host js w console [] c = (None, c)"
| "serve_passes host js w console ((r, now) # rs) c =
     (case serve_pass host js w console r now c of
        (None, c') \<Rightarrow> serve_passes host js w console rs c'
      | (Some res, c') \<Rightarrow> (Some res, c'))"

section \<open>Lemmas\<close>

text \<open>The payloads of the control frames among the frames.\<close>

definition controls :: "(frame_kind \<times> bytes) list \<Rightarrow> bytes list" where
  "controls fs = map snd (filter (\<lambda>f. fst f = Control) fs)"

text \<open>What a sequence of control frames is answered with.\<close>

fun replies :: "('h, 'l, 't) radio_host \<Rightarrow> ('l, 't) json \<Rightarrow> console_id \<Rightarrow> bytes list \<Rightarrow> ('l, 't) native_session \<Rightarrow> 'h \<Rightarrow>
    ('l, 't) server_message list \<times> ('l, 't) native_session \<times> 'h" where
  "replies host js console [] s h = ([], s, h)"
| "replies host js console (p # ps) s h =
     (case handle_payload host js console p s h of
        (reply, s', h') \<Rightarrow>
          (case replies host js console ps s' h' of (rs, s'', h'') \<Rightarrow> (reply # rs, s'', h'')))"

lemma replies_append:
  "replies host js console (ps @ qs) s h =
     (case replies host js console ps s h of (rs, s', h') \<Rightarrow>
        (case replies host js console qs s' h' of (ts, s'', h'') \<Rightarrow> (rs @ ts, s'', h'')))"
  by (induction ps arbitrary: s h) (auto split: prod.splits)

lemma controls_append [simp]: "controls (fs @ gs) = controls fs @ controls gs"
  by (simp add: controls_def)

text \<open>A stream that keeps what is written to it.\<close>

definition log_write :: "bytes \<Rightarrow> bytes \<Rightarrow> ('e + unit) \<times> bytes" where
  "log_write b out = (Inr (), out @ b)"

definition wire_replies :: "('l, 't) json \<Rightarrow> ('l, 't) server_message list \<Rightarrow> bytes" where
  "wire_replies js rs = concat (map (\<lambda>r. native_encode_frame Control (the (json_encode js r))) rs)"

lemma wire_replies_append [simp]: "wire_replies js (rs @ ts) = wire_replies js rs @ wire_replies js ts"
  by (simp add: wire_replies_def)

lemma serve_frames_log:
  assumes "\<And>r. json_encode js r \<noteq> None"
  shows "serve_frames host js log_write console fs c =
    (case replies host js console (controls fs) (cc_session c) (cc_host c) of (rs, s, h) \<Rightarrow>
       (Inr (), c\<lparr>cc_session := s, cc_host := h, cc_stream := cc_stream c @ wire_replies js rs\<rparr>))"
proof (induction fs arbitrary: c)
  case Nil
  show ?case by (simp add: controls_def wire_replies_def)
next
  case (Cons f fs)
  obtain kind payload where f: "f = (kind, payload)" by fastforce
  show ?case
  proof (cases "kind = Control")
    case True
    obtain reply s h where p: "handle_payload host js console payload (cc_session c) (cc_host c) = (reply, s, h)"
      by (cases "handle_payload host js console payload (cc_session c) (cc_host c)") auto
    obtain b where b: "json_encode js reply = Some b" using assms by blast
    show ?thesis
      using Cons [of "c\<lparr>cc_session := s, cc_host := h, cc_stream := cc_stream c @ native_encode_frame Control b\<rparr>"]
      by (simp add: f True p write_control_def b log_write_def controls_def wire_replies_def split: prod.splits)
  next
    case False
    with Cons [of c] show ?thesis by (simp add: f controls_def)
  qed
qed

text \<open>Decoding what is left together with what comes next, whatever stopped the loop before.\<close>

lemma decode_frames_resume:
  assumes "decode_frames x = (fs, r, e)"
  shows "decode_frames (x @ y) = (case decode_frames (r @ y) of (gs, r', e') \<Rightarrow> (fs @ gs, r', e'))"
proof (cases "e = Incomplete")
  case True
  then show ?thesis using decode_frames_append [of x y] assms by simp
next
  case False
  have "native_decode_frame (r @ y) = Inl e"
    using decode_frames_sound [OF assms] decode_frame_append [of r y] False by simp
  with False show ?thesis
    using decode_frames_append [of x y] assms by (simp add: decode_frames_Inl)
qed

lemma decode_frames_rest:
  assumes "decode_frames x = (fs, r, e)"
  shows "decode_frames r = ([], r, e)"
  using decode_frames_sound [OF assms] by (simp add: decode_frames_Inl)

text \<open>A session nobody asked pictures of, and a payload that does not ask for them.\<close>

definition quiet_session :: "('l, 't) native_session \<Rightarrow> bool" where
  "quiet_session s \<longleftrightarrow> \<not> ns_spectrum s \<and> \<not> ns_audio s"

definition quiet_payload :: "('l, 't) json \<Rightarrow> bytes \<Rightarrow> bool" where
  "quiet_payload js p \<longleftrightarrow>
     (case json_decode js p of Inr (Hello _ sp au _) \<Rightarrow> \<not> sp \<and> \<not> au | _ \<Rightarrow> True)"

lemma refresh_frame:
  "ns_spectrum (refresh host console h s) = ns_spectrum s \<and> ns_audio (refresh host console h s) = ns_audio s \<and>
   handshaken (refresh host console h s) = handshaken s \<and>
   ns_serves_cw (refresh host console h s) = host_serves_cw host h \<and>
   ns_capabilities (refresh host console h s) = ns_capabilities s"
  by (auto simp: refresh_def Let_def publish_state_def publish_devices_def set_serves_cw_def split: option.splits)

lemma handle_command: "native_handle (Command command) s =
    (if handshaken s then (answer_command command s, s) else (ErrorMessage NotReady MsgHelloFirst, s))"
  by (simp add: native_handle_def)

lemma native_handle_quiet:
  assumes "quiet_session s" and "case msg of Hello _ sp au _ \<Rightarrow> \<not> sp \<and> \<not> au | _ \<Rightarrow> True"
  shows "quiet_session (snd (native_handle msg s))"
  using assms by (cases msg) (auto simp: native_handle_def handle_hello_def quiet_session_def)

lemma handle_payload_quiet:
  assumes "quiet_session s" and "quiet_payload js p" and "handle_payload host js console p s h = (reply, s', h')"
  shows "quiet_session s'"
proof (cases "json_decode js p")
  case (Inl e)
  with assms(1,3) show ?thesis by (simp add: handle_payload_def)
next
  case (Inr msg)
  have "quiet_session (refresh host console h s)"
    using assms(1) by (simp add: quiet_session_def refresh_frame)
  then have "quiet_session (snd (native_handle msg (refresh host console h s)))"
    using assms(2) Inr by (intro native_handle_quiet) (auto simp: quiet_payload_def)
  moreover have "s' = snd (native_handle msg (refresh host console h s))"
    using assms(3) Inr by (auto simp: handle_payload_def split: prod.splits option.splits sum.splits)
  ultimately show ?thesis by simp
qed

lemma replies_quiet:
  "quiet_session s \<Longrightarrow> list_all (quiet_payload js) ps \<Longrightarrow> replies host js console ps s h = (rs, s', h') \<Longrightarrow> quiet_session s'"
proof (induction ps arbitrary: s h rs)
  case (Cons p ps)
  then show ?case
    by (cases "handle_payload host js console p s h")
       (auto split: prod.splits dest: handle_payload_quiet)
qed simp

lemma pump_pictures_quiet:
  "quiet_session (cc_session c) \<Longrightarrow> \<exists>t. pump_pictures host w now c = (Inr (), c\<lparr>cc_last_display := t\<rparr>)"
proof -
  assume "quiet_session (cc_session c)"
  then have "pump_pictures host w now c = (Inr (), c\<lparr>cc_last_display := now\<rparr>) \<or> pump_pictures host w now c = (Inr (), c)"
    by (simp add: pump_pictures_def pump_audio_def pump_spectrum_def quiet_session_def wants_audio_def wants_spectrum_def)
  moreover have "c = c\<lparr>cc_last_display := cc_last_display c\<rparr>" by simp
  ultimately show ?thesis by metis
qed

text \<open>The bytes a read brought.\<close>

definition read_bytes :: "'e read_result \<Rightarrow> bytes" where
  "read_bytes r = (case r of ReadBytes bs \<Rightarrow> bs | _ \<Rightarrow> [])"

definition goes_on :: "'e read_result \<Rightarrow> bool" where
  "goes_on r \<longleftrightarrow> (case r of ReadBytes _ \<Rightarrow> True | ReadTimedOut \<Rightarrow> True | _ \<Rightarrow> False)"

lemma serve_pass_quiet:
  fixes r :: "'e read_result"
  assumes json: "\<And>r. json_encode js r \<noteq> None" and "goes_on r" and "quiet_session (cc_session c)"
    and d: "decode_frames (cc_pending c @ read_bytes r) = (fs, rest, e)" and q: "list_all (quiet_payload js) (controls fs)"
    and rep: "replies host js console (controls fs) (cc_session c) (cc_host c) = (rs, s, h)"
  shows "\<exists>t. serve_pass host js log_write console r now c =
    (None, c\<lparr>cc_session := s, cc_pending := rest, cc_host := h, cc_stream := cc_stream c @ wire_replies js rs, cc_last_display := t\<rparr>)"
proof -
  let ?c = "c\<lparr>cc_pending := cc_pending c @ read_bytes r\<rparr>"
  let ?c1 = "?c\<lparr>cc_session := s, cc_host := h, cc_stream := cc_stream c @ wire_replies js rs\<rparr>"
  have f: "serve_frames host js (log_write :: bytes \<Rightarrow> bytes \<Rightarrow> ('e + unit) \<times> bytes) console fs ?c = (Inr (), ?c1)"
    using serve_frames_log [OF json, of host console fs ?c] rep by simp
  have "quiet_session s" using replies_quiet [OF assms(3) q rep] .
  then obtain t where t: "pump_pictures host (log_write :: bytes \<Rightarrow> bytes \<Rightarrow> ('e + unit) \<times> bytes) now (?c1\<lparr>cc_pending := rest\<rparr>) =
      (Inr (), ?c1\<lparr>cc_pending := rest, cc_last_display := t\<rparr>)"
    using pump_pictures_quiet [where c = "?c1\<lparr>cc_pending := rest\<rparr>" and host = host and w = "(log_write :: bytes \<Rightarrow> bytes \<Rightarrow> ('e + unit) \<times> bytes)" and now = now] by auto
  have "serve_pass host js log_write console r now c = (None, ?c1\<lparr>cc_pending := rest, cc_last_display := t\<rparr>)"
  proof (cases r)
    case (ReadBytes bs)
    then show ?thesis using d f t by (simp add: serve_pass_def read_bytes_def)
  next
    case ReadTimedOut
    then have "?c = c" by (simp add: read_bytes_def)
    then show ?thesis using d f t ReadTimedOut by (simp add: serve_pass_def read_bytes_def)
  qed (use assms(2) in \<open>simp_all add: goes_on_def\<close>)
  then show ?thesis by (intro exI [of _ t]) simp
qed

section \<open>Properties\<close>

text \<open>The commands that key the transmitter.\<close>

definition keys_transmitter :: "native_command \<Rightarrow> bool" where
  "keys_transmitter command \<longleftrightarrow>
     (case command of ArmCwTransmit _ _ _ \<Rightarrow> True | SendCwText _ \<Rightarrow> True | _ \<Rightarrow> False)"

text \<open>
  C15: What a console sends reaches the radio only as a command the session accepts. Handling one
  control frame leaves the host alone, or it is one application of the command in the frame, sent
  after the handshake, which the published capabilities allow; a command that can key the
  transmitter only to a host that supervises CW.
\<close>

theorem native_host_sees_valid_only:
  "case handle_payload host js console payload s h of (reply, s', h') \<Rightarrow>
     h' = h \<or>
     (\<exists>command. json_decode js payload = Inr (Command command) \<and> handshaken s \<and>
        validate (refresh host console h s) command = Inr () \<and>
        (if keys_transmitter command then host_serves_cw host h \<and> cw (ns_capabilities s) \<noteq> None else True) \<and>
        h' = snd (host_apply_as host console command h))"
proof (cases "\<exists>command. json_decode js payload = Inr (Command command)")
  case False
  then show ?thesis
    by (auto simp: handle_payload_def split: sum.splits prod.splits option.splits client_message.splits)
next
  case True
  then obtain command where c: "json_decode js payload = Inr (Command command)" by blast
  let ?s = "refresh host console h s"
  have cw: "host_serves_cw host h \<and> cw (ns_capabilities s) \<noteq> None"
    if "validate ?s command = Inr ()" "keys_transmitter command"
    using that refresh_frame [of host console h s]
    by (auto simp: keys_transmitter_def validate_def validate_cw_def split: native_command.splits if_splits option.splits)
  show ?thesis
  proof (cases "handshaken s \<and> validate ?s command = Inr ()")
    case False
    have "fst (native_handle (Command command) ?s) \<noteq> Ack"
      using False refresh_frame [of host console h s]
      by (cases "validate ?s command") (auto simp: handle_command answer_command_def)
    then show ?thesis
      by (auto simp: handle_payload_def c split: prod.splits)
  next
    case valid: True
    then show ?thesis
      using cw by (auto simp: handle_payload_def c handle_command split: prod.splits option.splits sum.splits if_splits)
  qed
qed

text \<open>
  C22: A console that asks for no pictures gets exactly one reply per control frame, in order, and
  nothing else, however its bytes are cut into reads and however long it is silent: the bytes written
  are the encoded replies to the control frames received so far, and the unfinished frame is kept. No read
  and no write fails, every reply can be encoded, and the state of the host changes only by this console's own commands.
\<close>

theorem native_quiet_console_exact:
  assumes "\<And>r. json_encode js r \<noteq> None" and "list_all (\<lambda>x. goes_on (fst x)) reads" and "quiet_session (cc_session c)"
    and "decode_frames (cc_pending c) = ([], cc_pending c, e0)"
    and "decode_frames (cc_pending c @ concat (map (\<lambda>x. read_bytes (fst x)) reads)) = (fs, rest, e)"
    and "list_all (quiet_payload js) (controls fs)"
  shows "\<exists>c'. serve_passes host js log_write console reads c = (None, c') \<and> cc_pending c' = rest \<and>
    (case replies host js console (controls fs) (cc_session c) (cc_host c) of (rs, s, h) \<Rightarrow>
       cc_stream c' = cc_stream c @ wire_replies js rs \<and> cc_session c' = s \<and> cc_host c' = h)"
  using assms(2-6)
proof (induction reads arbitrary: c fs e0)
  case Nil
  then have "fs = []" "rest = cc_pending c" by simp_all
  then show ?case by (simp add: controls_def wire_replies_def)
next
  case (Cons rd reads)
  obtain r now where rd: "rd = (r, now)" by fastforce
  obtain gs rest1 e1 where d: "decode_frames (cc_pending c @ read_bytes r) = (gs, rest1, e1)"
    by (cases "decode_frames (cc_pending c @ read_bytes r)") auto
  obtain hs where hs: "decode_frames (rest1 @ concat (map (\<lambda>x. read_bytes (fst x)) reads)) = (hs, rest, e)" "fs = gs @ hs"
    using decode_frames_resume [OF d, of "concat (map (\<lambda>x. read_bytes (fst x)) reads)"] Cons.prems(4) rd
    by (auto split: prod.splits)
  obtain rs s h where rep: "replies host js console (controls gs) (cc_session c) (cc_host c) = (rs, s, h)"
    by (cases "replies host js console (controls gs) (cc_session c) (cc_host c)") auto
  have q: "list_all (quiet_payload js) (controls gs)" "list_all (quiet_payload js) (controls hs)"
    using Cons.prems(5) hs(2) by simp_all
  obtain t where t: "serve_pass host js log_write console r now c =
      (None, c\<lparr>cc_session := s, cc_pending := rest1, cc_host := h, cc_stream := cc_stream c @ wire_replies js rs, cc_last_display := t\<rparr>)"
    using serve_pass_quiet [OF assms(1) _ Cons.prems(2) d q(1) rep] Cons.prems(1) rd by auto
  let ?c = "c\<lparr>cc_session := s, cc_pending := rest1, cc_host := h, cc_stream := cc_stream c @ wire_replies js rs, cc_last_display := t\<rparr>"
  have "quiet_session s" using replies_quiet [OF Cons.prems(2) q(1) rep] .
  then have "\<exists>c'. serve_passes host js log_write console reads ?c = (None, c') \<and> cc_pending c' = rest \<and>
    (case replies host js console (controls hs) s h of (ts, s', h') \<Rightarrow>
       cc_stream c' = cc_stream c @ wire_replies js rs @ wire_replies js ts \<and> cc_session c' = s' \<and> cc_host c' = h')"
    using Cons.IH [of ?c e1 hs] Cons.prems(1) decode_frames_rest [OF d] hs(1) q(2) by simp
  then show ?case
    using t rd rep hs(2) by (auto simp: replies_append split: prod.splits)
qed

text \<open>A host without a radio, and a codec of a few messages, to evaluate the server on.\<close>

definition sample_caps :: radio_capabilities where
  "sample_caps = \<lparr>model = [], endpoints = [], vfos = \<lparr>vfo_count = 2, vfo_split = True, rit_hz = None, xit_hz = None\<rparr>,
     modes = [], tuning_steps_hz = [], rx_range = \<lparr>fr_min_hz = 500000, fr_max_hz = 60000000\<rparr>,
     filters = \<lparr>if_shift_hz = Some 1200, widths_hz = None, notch = False\<rparr>, meters = [], memory = None, menu = None,
     signal = SupportNone, cw = None\<rparr>"

definition sample_state :: radio_state where
  "sample_state = \<lparr>st_vfo_a_hz = 0, st_vfo_b_hz = 0, st_mode = Lsb, st_split = False, st_transmitting = False,
     st_memory_channel = None, st_if_shift_hz = None, st_filter_width_hz = None, st_meters = [], st_levels = None, st_cw = None\<rparr>"

definition sample_host :: "(nat, unit, unit) radio_host" where
  "sample_host = \<lparr>host_capabilities = (\<lambda>_. sample_caps), host_installation = (\<lambda>_. installation_default),
     host_layout = (\<lambda>_. None), host_theme = (\<lambda>_. None), host_serves_cw = (\<lambda>_. False),
     host_state_as = (\<lambda>_ _. sample_state), host_devices = (\<lambda>_. None),
     host_apply_as = (\<lambda>_ _ n. (Inr (), n + 1)), host_spectrum = (\<lambda>_. None), host_audio = (\<lambda>_. None)\<rparr>"

definition sample_json :: "(unit, unit) json" where
  "sample_json = \<lparr>json_decode = (\<lambda>p. if p = [1] then Inr (Hello 2 False False None) else if p = [2] then Inr Ping else Inl []),
     json_encode = (\<lambda>r. Some (case r of Pong \<Rightarrow> [9] | Welcome _ _ \<Rightarrow> [8] | _ \<Rightarrow> []))\<rparr>"

theorem native_quiet_console_exact_witness:
  "\<exists>c'. serve_passes sample_host sample_json log_write 1
      [(ReadBytes [1, 0, 0], 0), (ReadTimedOut, 30000), (ReadBytes [0, 1, 1, 1, 0, 0, 0, 1, 2, 2 :: u8] :: unit read_result, 60000)]
      (conn_new sample_host 0 0 []) = (None, c') \<and>
    cc_stream c' = native_encode_frame Control [8] @ native_encode_frame Control [9] \<and> cc_pending c' = [2]"
proof -
  let ?c = "conn_new sample_host 0 (0 :: nat) ([] :: bytes)"
  let ?reads = "[(ReadBytes [1, 0, 0], 0), (ReadTimedOut, 30000), (ReadBytes [0, 1, 1, 1, 0, 0, 0, 1, 2, 2 :: u8] :: unit read_result, 60000 :: nat)]"
  have ok: "list_all frame_ok [(Control, [1]), (Control, [2])]" by (simp add: frame_ok_def MAX_CONTROL_BYTES_def)
  have rest: "decode_frames [2] = ([], [2], Incomplete)" "decode_frames [] = ([], [], Incomplete)"
    by (simp_all add: decode_frames_Inl native_decode_frame_def)
  have bytes: "concat (map (\<lambda>x. read_bytes (fst x)) ?reads) =
      concat (map (\<lambda>(k, p). native_encode_frame k p) [(Control, [1]), (Control, [2])]) @ [2]"
    by (simp add: read_bytes_def native_encode_frame_def frame_kind_u8_def u32_to_be_bytes_def be_bytes_def)
  have pending: "cc_pending ?c = []" by (simp add: conn_new_def)
  have d: "decode_frames (cc_pending ?c @ concat (map (\<lambda>x. read_bytes (fst x)) ?reads)) =
      ([(Control, [1]), (Control, [2])], [2], Incomplete)"
    unfolding bytes pending using decode_frames_encode [OF ok, of "[2]"] rest(1) by simp
  have quiet: "quiet_session (cc_session ?c)"
    by (simp add: conn_new_def quiet_session_def with_installation_def set_serves_cw_def set_theme_def set_layout_def)
  have p: "list_all (quiet_payload sample_json) (controls [(Control, [1]), (Control, [2])])"
    by (simp add: controls_def quiet_payload_def sample_json_def)
  have j: "json_encode sample_json r \<noteq> None" for r by (simp add: sample_json_def)
  have r: "\<exists>w s h. replies sample_host sample_json 1 (controls [(Control, [1]), (Control, [2])]) (cc_session ?c) (cc_host ?c) =
      ([Welcome 2 w, Pong], s, h)"
    by (simp add: controls_def handle_payload_def sample_json_def native_handle_def handle_hello_def PROTOCOL_VERSION_def
        refresh_frame)
  have g: "list_all (\<lambda>x. goes_on (fst x)) ?reads" by (simp add: goes_on_def)
  have "\<exists>c'. serve_passes sample_host sample_json log_write 1 ?reads ?c = (None, c') \<and> cc_pending c' = [2] \<and>
    (case replies sample_host sample_json 1 (controls [(Control, [1]), (Control, [2])]) (cc_session ?c) (cc_host ?c) of (rs, s, h) \<Rightarrow>
       cc_stream c' = cc_stream ?c @ wire_replies sample_json rs \<and> cc_session c' = s \<and> cc_host c' = h)"
    by (rule native_quiet_console_exact [OF j g quiet _ d p]) (simp add: pending rest)
  with r show ?thesis
    by (auto simp: wire_replies_def sample_json_def conn_new_def)
qed

text \<open>
  A frame head the decoder rejects wedges the connection. Once the pending bytes start with an
  unknown frame kind or an oversized length, no later input is ever decoded: no command is handled, no
  reply is written, and the bytes only accumulate.
\<close>

theorem native_bad_frame_wedges:
  assumes "native_decode_frame (cc_pending c) = Inl e" and "e \<noteq> Incomplete"
    and "serve_passes host js w console reads c = (res, c')"
  shows "cc_session c' = cc_session c \<and> cc_host c' = cc_host c \<and> prefix (cc_pending c) (cc_pending c')"
  using assms(1,3)
proof (induction reads arbitrary: c)
  case (Cons rd reads)
  obtain r now where rd: "rd = (r, now)" by fastforce
  have stuck: "native_decode_frame (cc_pending c @ bs) = Inl e" for bs
    using decode_frame_append [of "cc_pending c" bs] Cons.prems(1) assms(2) by simp
  have pics: "cc_session c2 = cc_session c1 \<and> cc_host c2 = cc_host c1 \<and> cc_pending c2 = cc_pending c1"
    if "pump_pictures host w now c1 = (x, c2)" for c1 c2 x
    using that
    by (auto simp: pump_pictures_def pump_audio_def pump_spectrum_def split: if_splits option.splits prod.splits sum.splits)
  obtain x c1 where pass: "serve_pass host js w console r now c = (x, c1)"
    by (cases "serve_pass host js w console r now c") auto
  have c1: "cc_session c1 = cc_session c \<and> cc_host c1 = cc_host c \<and> (\<exists>bs. cc_pending c1 = cc_pending c @ bs)"
    using pass stuck [of "[]"] stuck
    by (cases r) (auto simp: serve_pass_def decode_frames_Inl split: prod.splits sum.splits dest!: pics)
  show ?case
  proof (cases x)
    case None
    from c1 obtain bs where bs: "cc_pending c1 = cc_pending c @ bs" by blast
    have "serve_passes host js w console reads c1 = (res, c')"
      using Cons.prems(2) rd pass None by simp
    with Cons.IH [of c1] stuck [of bs] bs c1 show ?thesis by (auto simp: prefix_def)
  next
    case (Some y)
    with Cons.prems(2) rd pass have "c' = c1" by simp
    with c1 show ?thesis by (auto simp: prefix_def)
  qed
qed simp

theorem native_bad_frame_wedges_witness:
  "\<exists>res c'. serve_passes sample_host sample_json log_write 1 [(ReadBytes [1, 0, 0, 0, 1, 2] :: unit read_result, 0)]
      ((conn_new sample_host 0 0 [])\<lparr>cc_pending := [7, 0, 0, 0, 0]\<rparr>) = (res, c') \<and> cc_host c' = 0 \<and>
    prefix [7, 0, 0, 0, 0] (cc_pending c')"
proof -
  let ?c = "(conn_new sample_host 0 (0 :: nat) ([] :: bytes))\<lparr>cc_pending := [7, 0, 0, 0, 0]\<rparr>"
  obtain res c' where p: "serve_passes sample_host sample_json log_write 1 [(ReadBytes [1, 0, 0, 0, 1, 2] :: unit read_result, 0)] ?c =
      (res, c')" by fastforce
  have "native_decode_frame (cc_pending ?c) = Inl (UnknownKind 7)"
    by (simp add: native_decode_frame_def frame_kind_from_u8_def)
  from native_bad_frame_wedges [OF this _ p] p show ?thesis by (auto simp: conn_new_def)
qed

text \<open>
  The read timeout is never zero, which would block for ever, never longer than the pump interval, and
  otherwise ends when the next frame is due.
\<close>

theorem wake_for_bounds:
  "WAKE_FLOOR \<le> wake_for elapsed interval \<and> wake_for elapsed interval \<le> PUMP_INTERVAL \<and>
   (WAKE_FLOOR \<le> interval - elapsed \<longrightarrow> wake_for elapsed interval \<le> interval - elapsed)"
  by (simp add: wake_for_def WAKE_FLOOR_def PUMP_INTERVAL_def)

end
