(* ===== verification/Cw_Supervisor.thy ===== *)
theory Cw_Supervisor imports Native_Server begin

text \<open>
  The CW transmit supervisor (\<^verbatim>\<open>cat-rigctl/src/native_bridge/cw.rs\<close>): the state machine that arms a
  transmitter, sends text in chunks, and puts the radio back. Requests change the plan; the pump asks
  for the next action, has the radio perform it, and reports the answer. Every method is a function on
  the record of the supervisor's fields, and the clock is an argument.

  \<^verbatim>\<open>estimate\<close>, the floating-point keying time of a text at a speed, is the parameter \<open>est\<close>: what is
  proved here holds for every estimate.
\<close>

section \<open>Definitions\<close>

record cw_config =
  key_down_cap :: duration
  drain_bound :: duration
  idle_ttl :: duration
  id_interval :: duration
  tick :: duration
  pacing_margin :: duration
  watchdog_margin :: duration
  restore_retry :: duration

definition cw_config_default :: cw_config where
  "cw_config_default = \<lparr>key_down_cap = 60 * 10 ^ 9, drain_bound = 3 * 10 ^ 9, idle_ttl = 600 * 10 ^ 9,
     id_interval = 600 * 10 ^ 9, tick = 50 * 10 ^ 6, pacing_margin = 250 * 10 ^ 6,
     watchdog_margin = 3 * 10 ^ 9, restore_retry = 5 * 10 ^ 9\<rparr>"

type_synonym ticket = u64

datatype disarm_reason =
    DisRequested | DisDisconnected | DisKeyDownCap | DisPowerAboveClamp | DisIdleTimeout | DisShutdown | DisArmFailed

datatype cw_notice =
    Reply ticket "host_refusal + unit"
  | Armed console_id ustr u16
  | JobEnded u32 stop_reason "cw_text option"
  | RestoreFailed u32 cw_text
  | Restored disarm_reason
  | IdOwed ustr disarm_reason

record snapshot =
  snap_power :: "u16 option"
  snap_break_in :: "break_in_kind option"
  power_changed :: bool
  break_in_changed :: bool

definition snapshot_default :: snapshot where
  "snapshot_default = \<lparr>snap_power = None, snap_break_in = None, power_changed = False, break_in_changed = False\<rparr>"

record cw_arm =
  arm_owner :: console_id
  arm_callsign :: ustr
  arm_cap :: duration
  arm_power_raw :: u16
  arm_wpm :: u16
  arm_last_activity :: instant
  arm_last_id :: "instant option"
  arm_id_first :: bool

record cw_job =
  job_id :: u32
  job_text :: ustr
  job_operator :: ustr
  job_id_text :: "ustr option"
  job_total :: u32
  job_sent :: u32
  job_started :: instant
  job_deadline :: instant
  job_has_id :: bool
  job_id_first :: bool
  job_id_sent :: bool
  job_chunk_in_radio :: bool

datatype after = StayArmed | Restore disarm_reason "ticket option"

datatype activity =
    Idle
  | Arming ticket console_id ustr duration u16
  | Sending cw_job
  | Stopping u32 stop_reason "cw_text option" after
  | Restoring disarm_reason "ticket option" u32 "cw_text option" "instant option"

record cw_supervisor =
  sup_send_text :: "cw_send_text option"
  sup_gate :: "tx_gate_capability option"
  sup_slowest_wpm :: u16
  sup_config :: cw_config
  sup_arm :: "cw_arm option"
  sup_activity :: activity
  sup_plan :: "step list"
  sup_outstanding :: "step option"
  sup_ready_retry_at :: "instant option"
  sup_snap :: snapshot
  sup_keyed_until :: "instant option"
  sup_notices :: "cw_notice list"
  sup_next_ticket :: ticket
  sup_next_job :: u32
  sup_last_sender :: sender_state
  sup_shutting_down :: bool
  sup_id_owed :: "ustr option"

definition cw_new :: "cw_capability \<Rightarrow> cw_config \<Rightarrow> cw_supervisor" where
  "cw_new capability config =
     \<lparr>sup_send_text = send_text capability, sup_gate = tx_gate capability,
      sup_slowest_wpm = (case keyer_wpm capability of None \<Rightarrow> 5 | Some r \<Rightarrow> max (wpm_min r) 1),
      sup_config = config, sup_arm = None, sup_activity = Idle, sup_plan = [], sup_outstanding = None,
      sup_ready_retry_at = None, sup_snap = snapshot_default, sup_keyed_until = None, sup_notices = [],
      sup_next_ticket = 1, sup_next_job = 1, sup_last_sender = SenderIdle, sup_shutting_down = False,
      sup_id_owed = None\<rparr>"

subsection \<open>Chunks\<close>

definition chunk_fits :: "(ustr \<Rightarrow> u16 \<Rightarrow> duration) \<Rightarrow> u16 \<Rightarrow> duration option \<Rightarrow> u16 \<Rightarrow> ustr \<Rightarrow> bool" where
  "chunk_fits est max_chars max_duration wpm s \<longleftrightarrow>
     length s \<le> unat (max max_chars 1) \<and> (case max_duration of None \<Rightarrow> True | Some d \<Rightarrow> est s wpm \<le> d)"

text \<open>A word that does not fit, character by character: the pieces given out, and the last one.\<close>

fun split_word :: "(ustr \<Rightarrow> bool) \<Rightarrow> ustr \<Rightarrow> ustr \<Rightarrow> ustr list \<Rightarrow> ustr list \<times> ustr" where
  "split_word fits [] piece out = (out, piece)"
| "split_word fits (c # cs) piece out =
     (if piece = [] \<or> fits (piece @ [c]) then split_word fits cs (piece @ [c]) out
      else split_word fits cs [c] (out @ [piece]))"

text \<open>One word of the text: the chunks given out, and the chunk being filled.\<close>

definition chunk_word :: "(ustr \<Rightarrow> bool) \<Rightarrow> ustr \<Rightarrow> ustr list \<times> ustr \<Rightarrow> ustr list \<times> ustr" where
  "chunk_word fits word st =
     (case st of (out, current) \<Rightarrow>
        if current \<noteq> [] \<and> fits (current @ [32] @ word) then (out, current @ [32] @ word)
        else
          let out1 = (if current \<noteq> [] then out @ [current] else out)
          in if fits word then (out1, word) else split_word fits word [] out1)"

definition chunks :: "(ustr \<Rightarrow> u16 \<Rightarrow> duration) \<Rightarrow> ustr \<Rightarrow> u16 \<Rightarrow> duration option \<Rightarrow> u16 \<Rightarrow> ustr list" where
  "chunks est t max_chars max_duration wpm =
     (case fold (chunk_word (chunk_fits est max_chars max_duration wpm)) (split_whitespace t) ([], []) of
        (out, current) \<Rightarrow> if current \<noteq> [] then out @ [current] else out)"

subsection \<open>Ending a job and an arm\<close>

definition cw_refusal :: "error_code \<Rightarrow> cw_text \<Rightarrow> host_refusal" where
  "cw_refusal code m = (code, MsgCw m)"

definition cw_reply :: "ticket \<Rightarrow> host_refusal + unit \<Rightarrow> cw_supervisor \<Rightarrow> cw_supervisor" where
  "cw_reply ticket result s = s\<lparr>sup_notices := sup_notices s @ [Reply ticket result]\<rparr>"

definition take_ticket :: "cw_supervisor \<Rightarrow> ticket \<times> cw_supervisor" where
  "take_ticket s = (sup_next_ticket s, s\<lparr>sup_next_ticket := sup_next_ticket s + 1\<rparr>)"

definition watchdog_for :: "cw_supervisor \<Rightarrow> duration \<Rightarrow> duration" where
  "watchdog_for s estimate = estimate + estimate div 5 + watchdog_margin (sup_config s)"

definition end_job :: "u32 \<Rightarrow> stop_reason \<Rightarrow> cw_text option \<Rightarrow> cw_supervisor \<Rightarrow> cw_supervisor" where
  "end_job job reason m s =
     s\<lparr>sup_notices := sup_notices s @ [JobEnded job reason m], sup_last_sender := SenderStopped job reason m\<rparr>"

definition restore_steps :: "duration \<Rightarrow> snapshot \<Rightarrow> step list" where
  "restore_steps margin snap =
     [WaitKeyed margin] @
     (if power_changed snap then (case snap_power snap of Some p \<Rightarrow> [SetPower p, VerifyPower p] | None \<Rightarrow> []) else []) @
     (if break_in_changed snap
      then (case snap_break_in snap of Some k \<Rightarrow> [SetBreakIn k, VerifyBreakIn k] | None \<Rightarrow> []) else [])"

definition plan_restore :: "cw_supervisor \<Rightarrow> cw_supervisor" where
  "plan_restore s = s\<lparr>sup_plan := restore_steps (pacing_margin (sup_config s)) (sup_snap s)\<rparr>"

definition start_restore :: "disarm_reason \<Rightarrow> ticket option \<Rightarrow> cw_supervisor \<Rightarrow> cw_supervisor" where
  "start_restore reason ticket s =
     (let owed = (if sup_arm s \<noteq> None
                  then (case sup_id_owed s of Some callsign \<Rightarrow> [IdOwed callsign reason] | None \<Rightarrow> []) else [])
      in plan_restore (s\<lparr>sup_notices := sup_notices s @ owed, sup_arm := None, sup_ready_retry_at := None,
                         sup_activity := Restoring reason ticket 0 None None\<rparr>))"

definition is_send :: "step \<Rightarrow> bool" where
  "is_send st = (case st of Send _ \<Rightarrow> True | _ \<Rightarrow> False)"

definition begin_stop :: "stop_reason \<Rightarrow> cw_text option \<Rightarrow> after \<Rightarrow> cw_supervisor \<Rightarrow> cw_supervisor" where
  "begin_stop reason m andthen s =
     (case sup_activity s of
        Sending job \<Rightarrow>
          (let keyed = job_chunk_in_radio job \<or> (case sup_outstanding s of Some st \<Rightarrow> is_send st | None \<Rightarrow> False);
               s1 = (if job_has_id job \<and> \<not> job_id_sent job then
                       (case sup_arm s of
                          Some arm \<Rightarrow> s\<lparr>sup_arm := Some (arm\<lparr>arm_id_first := True\<rparr>),
                                         sup_id_owed := if keyed then Some (arm_callsign arm) else sup_id_owed s\<rparr>
                        | None \<Rightarrow> s)
                     else s)
           in s1\<lparr>sup_plan := [StepStop, WaitKeyed (pacing_margin (sup_config s))], sup_ready_retry_at := None,
                 sup_activity := Stopping (job_id job) reason m andthen\<rparr>)
      | _ \<Rightarrow> (case andthen of Restore r t \<Rightarrow> start_restore r t s | StayArmed \<Rightarrow> s))"

definition end_arm :: "disarm_reason \<Rightarrow> stop_reason \<Rightarrow> ticket option \<Rightarrow> cw_supervisor \<Rightarrow> cw_supervisor" where
  "end_arm reason stop ticket s =
     (case sup_activity s of
        Sending _ \<Rightarrow> begin_stop stop None (Restore reason ticket) s
      | Stopping job r m andthen \<Rightarrow>
          (case andthen of
             StayArmed \<Rightarrow> s\<lparr>sup_activity := Stopping job r m (Restore reason ticket)\<rparr>
           | Restore r' existing \<Rightarrow>
               if existing = None then s\<lparr>sup_activity := Stopping job r m (Restore r' ticket)\<rparr> else s)
      | Idle \<Rightarrow> start_restore reason ticket s
      | _ \<Rightarrow> s)"

definition refuse_arm :: "error_code \<Rightarrow> cw_text \<Rightarrow> cw_supervisor \<Rightarrow> cw_supervisor" where
  "refuse_arm code m s =
     (let s1 = (case sup_activity s of Arming ticket _ _ _ _ \<Rightarrow> cw_reply ticket (Inl (cw_refusal code m)) s | _ \<Rightarrow> s);
          s2 = s1\<lparr>sup_plan := [], sup_activity := Idle\<rparr>
      in if power_changed (sup_snap s) \<or> break_in_changed (sup_snap s) then start_restore DisArmFailed None s2
         else s2\<lparr>sup_snap := snapshot_default\<rparr>)"

definition cw_fail :: "cw_text \<Rightarrow> instant \<Rightarrow> cw_supervisor \<Rightarrow> cw_supervisor" where
  "cw_fail error now s =
     (case sup_activity s of
        Idle \<Rightarrow> s
      | Arming _ _ _ _ _ \<Rightarrow> refuse_arm OutOfRange error s
      | Sending _ \<Rightarrow> begin_stop StopError (Some error) StayArmed s
      | Stopping _ _ _ _ \<Rightarrow>
          s\<lparr>sup_plan := [WaitKeyed (pacing_margin (sup_config s))], sup_ready_retry_at := None\<rparr>
      | Restoring reason ticket attempts _ _ \<Rightarrow>
          (let s1 = s\<lparr>sup_activity := Restoring reason None (attempts + 1) (Some error)
                                       (Some (now + restore_retry (sup_config s))),
                      sup_plan := [],
                      sup_notices := sup_notices s @ [RestoreFailed (attempts + 1) error]\<rparr>
           in case ticket of
                Some t \<Rightarrow> cw_reply t (Inl (cw_refusal OutOfRange (CwRestoreFailed error))) s1
              | None \<Rightarrow> s1))"

subsection \<open>Requests\<close>

definition arm_steps :: "cw_send_text \<Rightarrow> tx_gate_capability \<Rightarrow> step list" where
  "arm_steps send gate =
     [StepStatus, SnapPower] @
     (if requires_break_in send \<noteq> None then [SnapBreakIn] else []) @
     [SetPower (low_power_raw gate), VerifyPower (low_power_raw gate)] @
     (case requires_break_in send of Some kind \<Rightarrow> [SetBreakIn kind, VerifyBreakIn kind] | None \<Rightarrow> [])"

definition cw_held_by :: "cw_supervisor \<Rightarrow> console_id option" where
  "cw_held_by s =
     (case (sup_arm s, sup_activity s) of
        (Some arm, _) \<Rightarrow> Some (arm_owner arm)
      | (None, Arming _ owner _ _ _) \<Rightarrow> Some owner
      | _ \<Rightarrow> None)"

definition cw_arm_request :: "console_id \<Rightarrow> ustr \<Rightarrow> u16 option \<Rightarrow> cw_supervisor \<Rightarrow>
    (host_refusal + ticket) \<times> cw_supervisor" where
  "cw_arm_request owner callsign key_down_cap_s s =
     (case (sup_send_text s, sup_gate s) of
        (Some send, Some gate) \<Rightarrow>
          (if sup_shutting_down s then (Inl (cw_refusal Forbidden CwShuttingDown), s)
           else case sup_activity s of
             Restoring _ _ _ last_error _ \<Rightarrow>
               (Inl (cw_refusal Forbidden
                  (case last_error of Some e \<Rightarrow> CwRestoreUnverified e | None \<Rightarrow> CwStillRestoring)), s)
           | _ \<Rightarrow>
             (case cw_held_by s of
                Some holder \<Rightarrow>
                  (Inl (cw_refusal Forbidden (if holder = owner then CwAlreadyArmed else CwOtherHolds)), s)
              | None \<Rightarrow>
                  (let cap = min (case key_down_cap_s of Some n \<Rightarrow> unat n * 10 ^ 9 | None \<Rightarrow> key_down_cap (sup_config s))
                                 (key_down_cap (sup_config s));
                       (ticket, s1) = take_ticket s
                   in (Inr ticket,
                       s1\<lparr>sup_snap := snapshot_default, sup_plan := arm_steps send gate,
                          sup_activity := Arming ticket owner (map to_ascii_uppercase callsign) cap (sup_slowest_wpm s)\<rparr>))))
      | _ \<Rightarrow> (Inl (Unsupported, MsgNoSendText), s))"

text \<open>The job a text becomes: its words in upper case, the identification if it is due, and its watchdog.\<close>

definition send_job :: "(ustr \<Rightarrow> u16 \<Rightarrow> duration) \<Rightarrow> cw_send_text \<Rightarrow> cw_arm \<Rightarrow> ustr \<Rightarrow> instant \<Rightarrow> cw_supervisor \<Rightarrow>
    host_refusal + cw_job" where
  "send_job est send arm t now s =
     (let wds = map (map to_ascii_uppercase) (split_whitespace t);
          operator = join_words wds
      in if wds = [] then Inl (OutOfRange, MsgNothingToSend)
         else case rejected_char send operator of
           Some c \<Rightarrow> Inl (OutOfRange, MsgCannotSend c)
         | None \<Rightarrow>
             (let id_due = (case arm_last_id arm of None \<Rightarrow> True | Some t \<Rightarrow> now - t \<ge> id_interval (sup_config s));
                  id_text = (if id_due then Some (ulit ''DE '' @ arm_callsign arm) else None);
                  id_first = (id_due \<and> arm_id_first arm);
                  full = (case id_text of
                            Some ident \<Rightarrow> if id_first then ident @ [32] @ operator else operator @ [32] @ ident
                          | None \<Rightarrow> operator);
                  e = est full (arm_wpm arm)
              in if e > arm_cap arm then Inl (cw_refusal OutOfRange (CwOverCap e (arm_wpm arm) id_due (arm_cap arm)))
                 else Inr \<lparr>job_id = sup_next_job s, job_text = full, job_operator = operator,
                       job_id_text = id_text, job_total = of_nat (length full), job_sent = 0,
                       job_started = now, job_deadline = now + watchdog_for s e, job_has_id = id_due,
                       job_id_first = id_first, job_id_sent = False, job_chunk_in_radio = False\<rparr>))"

definition cw_send :: "(ustr \<Rightarrow> u16 \<Rightarrow> duration) \<Rightarrow> console_id \<Rightarrow> ustr \<Rightarrow> instant \<Rightarrow> cw_supervisor \<Rightarrow>
    (host_refusal + u32) \<times> cw_supervisor" where
  "cw_send est owner t now s =
     (case (sup_send_text s, sup_arm s) of
        (None, _) \<Rightarrow> (Inl (Unsupported, MsgNoSendText), s)
      | (Some _, None) \<Rightarrow> (Inl (cw_refusal Forbidden CwNotArmed), s)
      | (Some send, Some arm) \<Rightarrow>
          if arm_owner arm \<noteq> owner then (Inl (cw_refusal Forbidden CwOtherHolds), s)
          else if sup_activity s \<noteq> Idle then (Inl (cw_refusal Forbidden CwSendInProgress), s)
          else
            (case send_job est send arm t now s of
               Inl e \<Rightarrow> (Inl e, s)
             | Inr job \<Rightarrow>
                 (Inr (sup_next_job s),
                  s\<lparr>sup_next_job := sup_next_job s + 1,
                    sup_plan := [StepStatus, PowerAtMost (case sup_gate s of Some g \<Rightarrow> low_power_raw g | None \<Rightarrow> 0)],
                    sup_activity := Sending job,
                    sup_arm := Some (arm\<lparr>arm_last_activity := now\<rparr>)\<rparr>)))"

definition abort_send :: "cw_supervisor \<Rightarrow> cw_supervisor" where
  "abort_send s = (case sup_activity s of Sending _ \<Rightarrow> begin_stop Aborted None StayArmed s | _ \<Rightarrow> s)"

definition cw_disarm :: "console_id \<Rightarrow> cw_supervisor \<Rightarrow> (host_refusal + ticket) \<times> cw_supervisor" where
  "cw_disarm owner s =
     (case sup_arm s of
        None \<Rightarrow>
          (Inl (cw_refusal Forbidden
             (case sup_activity s of Arming _ _ _ _ _ \<Rightarrow> CwArmingInProgress | _ \<Rightarrow> CwNotArmed)), s)
      | Some arm \<Rightarrow>
          if arm_owner arm \<noteq> owner then (Inl (cw_refusal Forbidden CwOtherHolds), s)
          else case sup_activity s of
            Stopping _ _ _ (Restore _ (Some _)) \<Rightarrow> (Inl (cw_refusal Forbidden CwAlreadyDisarming), s)
          | _ \<Rightarrow>
              (case take_ticket s of
                 (ticket, s1) \<Rightarrow> (Inr ticket, end_arm DisRequested Aborted (Some ticket) s1)))"

definition cw_detached :: "console_id \<Rightarrow> cw_supervisor \<Rightarrow> cw_supervisor" where
  "cw_detached console s =
     (case sup_activity s of
        Arming _ owner _ _ _ \<Rightarrow> if owner = console then refuse_arm Forbidden CwHungUp s else s
      | _ \<Rightarrow>
          (case sup_arm s of
             Some arm \<Rightarrow> if arm_owner arm = console then end_arm DisDisconnected Disconnected None s else s
           | None \<Rightarrow> s))"

definition cw_shutdown :: "cw_supervisor \<Rightarrow> cw_supervisor" where
  "cw_shutdown s0 =
     (let s = s0\<lparr>sup_shutting_down := True\<rparr>
      in case sup_activity s of
           Arming _ _ _ _ _ \<Rightarrow> refuse_arm Forbidden CwShuttingDown s
         | _ \<Rightarrow> if sup_arm s \<noteq> None then end_arm DisShutdown Aborted None s else s)"

subsection \<open>Driving\<close>

definition check_timers :: "instant \<Rightarrow> cw_supervisor \<Rightarrow> cw_supervisor" where
  "check_timers now s =
     (case sup_activity s of
        Sending job \<Rightarrow>
          if now \<ge> job_deadline job then
            begin_stop KeyDownCap (Some (CwWatchdog (now - job_started job))) (Restore DisKeyDownCap None) s
          else s
      | Idle \<Rightarrow>
          (case sup_arm s of
             Some arm \<Rightarrow>
               if now - arm_last_activity arm \<ge> idle_ttl (sup_config s) then start_restore DisIdleTimeout None s else s
           | None \<Rightarrow> s)
      | _ \<Rightarrow> s)"

definition touch_arm :: "instant \<Rightarrow> cw_supervisor \<Rightarrow> cw_supervisor" where
  "touch_arm now s = s\<lparr>sup_arm := map_option (\<lambda>a. a\<lparr>arm_last_activity := now\<rparr>) (sup_arm s)\<rparr>"

definition cw_finish :: "instant \<Rightarrow> cw_supervisor \<Rightarrow> bool \<times> cw_supervisor" where
  "cw_finish now s0 =
     (let s = s0\<lparr>sup_activity := Idle\<rparr>
      in case sup_activity s0 of
           Idle \<Rightarrow> (False, s)
         | Arming ticket owner callsign cap wpm \<Rightarrow>
             (let power_raw = (case sup_gate s of Some g \<Rightarrow> low_power_raw g | None \<Rightarrow> 0)
              in (False, cw_reply ticket (Inr ())
                    (s\<lparr>sup_notices := sup_notices s @ [Armed owner callsign power_raw],
                       sup_arm := Some \<lparr>arm_owner = owner, arm_callsign = callsign, arm_cap = cap,
                         arm_power_raw = power_raw, arm_wpm = wpm, arm_last_activity = now, arm_last_id = None,
                         arm_id_first = False\<rparr>\<rparr>)))
         | Sending job \<Rightarrow> (True, touch_arm now (end_job (job_id job) Completed None s))
         | Stopping job reason m andthen \<Rightarrow>
             (let s1 = end_job job reason m s
              in (True, case andthen of StayArmed \<Rightarrow> touch_arm now s1 | Restore r t \<Rightarrow> start_restore r t s1))
         | Restoring reason ticket attempts last_error retry_at \<Rightarrow>
             (case retry_at of
                Some at \<Rightarrow>
                  if now \<ge> at
                  then (True, plan_restore (s\<lparr>sup_activity := Restoring reason ticket attempts last_error None\<rparr>))
                  else (False, s\<lparr>sup_activity := Restoring reason ticket attempts last_error (Some at)\<rparr>)
              | None \<Rightarrow>
                  (let s1 = s\<lparr>sup_snap := snapshot_default, sup_arm := None,
                              sup_notices := sup_notices s @ [Restored reason]\<rparr>
                   in (False, case ticket of Some t \<Rightarrow> cw_reply t (Inr ()) s1 | None \<Rightarrow> s1))))"

text \<open>Issuing a step. A setting counts as changed when its write is issued.\<close>

definition mark_issued :: "step \<Rightarrow> snapshot \<Rightarrow> snapshot" where
  "mark_issued st snap =
     (case st of
        SetPower _ \<Rightarrow> snap\<lparr>power_changed := True\<rparr>
      | SetBreakIn _ \<Rightarrow> snap\<lparr>break_in_changed := True\<rparr>
      | _ \<Rightarrow> snap)"

fun next_loop :: "nat \<Rightarrow> instant \<Rightarrow> cw_supervisor \<Rightarrow> cw_action option \<times> cw_supervisor" where
  "next_loop 0 now s = (None, s)"
| "next_loop (Suc n) now s =
     (case sup_plan s of
        [] \<Rightarrow> (case cw_finish now s of (again, s1) \<Rightarrow> if again then next_loop n now s1 else (None, s1))
      | WaitKeyed margin # rest \<Rightarrow>
          (case sup_keyed_until s of
             Some t \<Rightarrow> if now < t + margin then (None, s) else next_loop n now (s\<lparr>sup_plan := rest\<rparr>)
           | None \<Rightarrow> next_loop n now (s\<lparr>sup_plan := rest\<rparr>))
      | WaitReady # rest \<Rightarrow>
          if (case sup_ready_retry_at s of Some t \<Rightarrow> now < t | None \<Rightarrow> False) then (None, s)
          else (Some ActReady, s\<lparr>sup_ready_retry_at := None, sup_plan := rest, sup_outstanding := Some WaitReady\<rparr>)
      | st # rest \<Rightarrow>
          (step_action st,
           s\<lparr>sup_plan := rest, sup_snap := mark_issued st (sup_snap s), sup_outstanding := Some st\<rparr>))"

definition next_action :: "instant \<Rightarrow> cw_supervisor \<Rightarrow> cw_action option \<times> cw_supervisor" where
  "next_action now s =
     (if sup_outstanding s \<noteq> None then (None, s) else next_loop 64 now (check_timers now s))"

subsection \<open>Answers\<close>

definition pacing_for :: "cw_supervisor \<Rightarrow> step list \<Rightarrow> duration" where
  "pacing_for s plan = (tick (sup_config s) * 4 + pacing_margin (sup_config s)) * length (filter is_send plan)"

definition set_watchdog :: "duration \<Rightarrow> cw_supervisor \<Rightarrow> cw_supervisor" where
  "set_watchdog estimate s =
     (let budget = watchdog_for s estimate + pacing_for s (sup_plan s)
      in case sup_activity s of
           Sending job \<Rightarrow> s\<lparr>sup_activity := Sending (job\<lparr>job_deadline := job_started job + budget\<rparr>)\<rparr>
         | _ \<Rightarrow> s)"

definition chunk_bound :: "cw_send_text \<Rightarrow> cw_config \<Rightarrow> duration option" where
  "chunk_bound send config = (if abort_kind send = DrainOnly then Some (drain_bound config) else None)"

text \<open>The texts with their flag: is it the last one of the identification?\<close>

fun mark_last :: "ustr list \<Rightarrow> (ustr \<times> bool) list" where
  "mark_last [] = []"
| "mark_last [t] = [(t, True)]"
| "mark_last (t # ts) = (t, False) # mark_last ts"

fun chunk_steps :: "cw_send_text \<Rightarrow> (ustr \<times> bool) list \<Rightarrow> step list" where
  "chunk_steps send [] = []"
| "chunk_steps send ((t, ends_id) # rest) =
     [WaitKeyed 0] @ (if pacing send = BufferFlag then [WaitReady] else []) @
     (if abort_kind send = DrainOnly then [CheckSpeed] else []) @
     [Send (CwChunk t (rest = []) ends_id)] @ chunk_steps send rest"

definition plan_chunks :: "(ustr \<Rightarrow> u16 \<Rightarrow> duration) \<Rightarrow> ustr \<Rightarrow> ustr option \<Rightarrow> bool \<Rightarrow> u16 \<Rightarrow> cw_supervisor \<Rightarrow> cw_supervisor" where
  "plan_chunks est operator id_text id_first wpm s =
     (case sup_send_text s of
        None \<Rightarrow> s
      | Some send \<Rightarrow>
          (let piece = (\<lambda>t. chunks est t (max_chunk_chars send) (chunk_bound send (sup_config s)) wpm);
               ops = map (\<lambda>t. (t, False)) (piece operator);
               ids = mark_last (case id_text of Some t \<Rightarrow> piece t | None \<Rightarrow> []);
               ordered = (if id_first then ids @ ops else ops @ ids)
           in s\<lparr>sup_plan := sup_plan s @ chunk_steps send ordered @ [WaitKeyed (pacing_margin (sup_config s))]\<rparr>))"

definition on_status :: "(ustr \<Rightarrow> u16 \<Rightarrow> duration) \<Rightarrow> bool \<Rightarrow> bool \<Rightarrow> u16 option \<Rightarrow> cw_supervisor \<Rightarrow> cw_supervisor" where
  "on_status est cw_mode transmitting wpm0 s =
     (let wpm = max (case wpm0 of Some w \<Rightarrow> w | None \<Rightarrow> sup_slowest_wpm s) 1
      in case sup_activity s of
           Arming ticket owner callsign cap _ \<Rightarrow>
             if \<not> cw_mode then refuse_arm Forbidden CwNotCwMode s
             else if transmitting then refuse_arm Forbidden CwTransmitting s
             else s\<lparr>sup_activity := Arming ticket owner callsign cap wpm\<rparr>
         | Sending job \<Rightarrow>
             (let e = est (job_text job) wpm;
                  cap = (case sup_arm s of Some a \<Rightarrow> arm_cap a | None \<Rightarrow> 0);
                  problem = (if \<not> cw_mode then Some CwLeftCwMode
                             else if transmitting then Some CwAlreadyTransmitting
                             else if e > cap then Some (CwTakesTooLong wpm e cap)
                             else None)
              in case problem of
                   Some m \<Rightarrow> begin_stop StopError (Some m) StayArmed s
                 | None \<Rightarrow>
                     set_watchdog e
                       (plan_chunks est (job_operator job) (job_id_text job) (job_id_first job) wpm
                          (s\<lparr>sup_arm := map_option (\<lambda>a. a\<lparr>arm_wpm := wpm\<rparr>) (sup_arm s)\<rparr>)))
         | _ \<Rightarrow> s)"

definition plan_sends :: "step list \<Rightarrow> chunk list" where
  "plan_sends plan = concat (map (\<lambda>st. case st of Send c \<Rightarrow> [c] | _ \<Rightarrow> []) plan)"

text \<open>The pieces of one chunk: the flags of the chunk stay on its last piece.\<close>

fun rechunk :: "chunk \<Rightarrow> ustr list \<Rightarrow> chunk list" where
  "rechunk c [] = []"
| "rechunk c (t # ts) = CwChunk t (ch_last c \<and> ts = []) (ch_ends_id c \<and> ts = []) # rechunk c ts"

fun replan_steps :: "cw_send_text \<Rightarrow> bool \<Rightarrow> chunk list \<Rightarrow> step list" where
  "replan_steps send first [] = []"
| "replan_steps send first (c # cs) =
     (if first then [] else [WaitKeyed 0] @ (if pacing send = BufferFlag then [WaitReady] else []) @ [CheckSpeed]) @
     [Send c] @ replan_steps send False cs"

definition replan_pieces :: "(ustr \<Rightarrow> u16 \<Rightarrow> duration) \<Rightarrow> u16 \<Rightarrow> cw_send_text \<Rightarrow> cw_supervisor \<Rightarrow> chunk list" where
  "replan_pieces est wpm send s =
     concat (map (\<lambda>c. rechunk c (chunks est (ch_text c) (max_chunk_chars send) (chunk_bound send (sup_config s)) wpm))
                 (plan_sends (sup_plan s)))"

definition replan :: "(ustr \<Rightarrow> u16 \<Rightarrow> duration) \<Rightarrow> u16 \<Rightarrow> instant \<Rightarrow> cw_supervisor \<Rightarrow> cw_supervisor" where
  "replan est wpm now s =
     (case sup_send_text s of
        None \<Rightarrow> s
      | Some send \<Rightarrow>
          (let pieces = replan_pieces est wpm send s;
               left = sum_list (map (\<lambda>c. est (ch_text c) wpm) pieces);
               cap = (case sup_arm s of Some a \<Rightarrow> arm_cap a | None \<Rightarrow> 0);
               started = (case sup_activity s of Sending job \<Rightarrow> job_started job | _ \<Rightarrow> now);
               elapsed = now - started
           in if elapsed + left > cap
              then begin_stop StopError (Some (CwSpeedChanged wpm elapsed left cap)) StayArmed s
              else
                let plan = replan_steps send True pieces @ [WaitKeyed (pacing_margin (sup_config s))];
                    budget = watchdog_for s left + pacing_for s plan
                in (case sup_activity s of
                      Sending job \<Rightarrow> s\<lparr>sup_plan := plan, sup_activity := Sending (job\<lparr>job_deadline := now + budget\<rparr>)\<rparr>
                    | _ \<Rightarrow> s\<lparr>sup_plan := plan\<rparr>)))"

definition on_speed :: "(ustr \<Rightarrow> u16 \<Rightarrow> duration) \<Rightarrow> bool \<Rightarrow> u16 option \<Rightarrow> instant \<Rightarrow> cw_supervisor \<Rightarrow> cw_supervisor" where
  "on_speed est cw_mode wpm0 now s =
     (case sup_activity s of
        Sending _ \<Rightarrow>
          if \<not> cw_mode then begin_stop StopError (Some CwLeftCwMode) StayArmed s
          else
            let wpm = max (case wpm0 of Some w \<Rightarrow> w | None \<Rightarrow> sup_slowest_wpm s) 1
            in (case sup_arm s of
                  Some a \<Rightarrow> if arm_wpm a = wpm then s else replan est wpm now (s\<lparr>sup_arm := Some (a\<lparr>arm_wpm := wpm\<rparr>)\<rparr>)
                | None \<Rightarrow> replan est wpm now s)
      | _ \<Rightarrow> s)"

definition on_sent :: "(ustr \<Rightarrow> u16 \<Rightarrow> duration) \<Rightarrow> chunk \<Rightarrow> instant \<Rightarrow> cw_supervisor \<Rightarrow> cw_supervisor" where
  "on_sent est c now s =
     (let wpm = (case sup_arm s of Some a \<Rightarrow> arm_wpm a | None \<Rightarrow> sup_slowest_wpm s);
          start = (case sup_keyed_until s of Some t \<Rightarrow> if t > now then t else now | None \<Rightarrow> now);
          s1 = s\<lparr>sup_keyed_until := Some (start + est (ch_text c) wpm)\<rparr>
      in case sup_activity s1 of
           Sending job \<Rightarrow>
             (let job1 = job\<lparr>job_chunk_in_radio := True,
                             job_sent := if ch_last c then job_total job
                                         else min (job_sent job + of_nat (length (ch_text c)) + 1) (job_total job)\<rparr>
              in if ch_ends_id c then
                   s1\<lparr>sup_activity := Sending (job1\<lparr>job_id_sent := True\<rparr>), sup_id_owed := None,
                      sup_arm := map_option (\<lambda>a. a\<lparr>arm_last_id := Some now, arm_id_first := False\<rparr>) (sup_arm s1)\<rparr>
                 else s1\<lparr>sup_activity := Sending job1\<rparr>)
         | _ \<Rightarrow> s1)"

definition is_break_in_step :: "step \<Rightarrow> bool" where
  "is_break_in_step st = (case st of SetBreakIn _ \<Rightarrow> True | VerifyBreakIn _ \<Rightarrow> True | _ \<Rightarrow> False)"

definition cw_complete :: "(ustr \<Rightarrow> u16 \<Rightarrow> duration) \<Rightarrow> cw_outcome \<Rightarrow> instant \<Rightarrow> cw_supervisor \<Rightarrow> cw_supervisor" where
  "cw_complete est outcome now s0 =
     (case sup_outstanding s0 of
        None \<Rightarrow> s0
      | Some st \<Rightarrow>
          (let s = s0\<lparr>sup_outstanding := None\<rparr>
           in case (st, outcome) of
                (_, Failed error) \<Rightarrow> cw_fail (CwRadio error) now s
              | (StepStatus, Status cw_mode transmitting wpm) \<Rightarrow> on_status est cw_mode transmitting wpm s
              | (CheckSpeed, Status cw_mode _ wpm) \<Rightarrow> on_speed est cw_mode wpm now s
              | (SnapPower, Power p) \<Rightarrow> s\<lparr>sup_snap := (sup_snap s)\<lparr>snap_power := Some p\<rparr>\<rparr>
              | (VerifyPower want, Power p) \<Rightarrow> if p \<noteq> want then cw_fail (CwPowerReadBack p want) now s else s
              | (PowerAtMost mx, Power p) \<Rightarrow>
                  if p > mx then begin_stop StopError (Some (CwPowerAbove p mx)) (Restore DisPowerAboveClamp None) s else s
              | (SnapBreakIn, BreakIn k) \<Rightarrow>
                  (let s1 = s\<lparr>sup_snap := (sup_snap s)\<lparr>snap_break_in := Some k\<rparr>\<rparr>;
                       wanted = (case sup_send_text s of Some send \<Rightarrow> requires_break_in send | None \<Rightarrow> None)
                   in if wanted = Some k then s1\<lparr>sup_plan := filter (\<lambda>x. \<not> is_break_in_step x) (sup_plan s1)\<rparr> else s1)
              | (VerifyBreakIn want, BreakIn k) \<Rightarrow> if k \<noteq> want then cw_fail (CwBreakInReadBack k want) now s else s
              | (StepStop, Done) \<Rightarrow>
                  if map_option abort_kind (sup_send_text s) = Some RadioStop then s\<lparr>sup_keyed_until := None\<rparr> else s
              | (SetPower _, Done) \<Rightarrow> s
              | (SetBreakIn _, Done) \<Rightarrow> s
              | (WaitReady, Ready b) \<Rightarrow>
                  if b then s
                  else s\<lparr>sup_plan := WaitReady # sup_plan s, sup_ready_retry_at := Some (now + tick (sup_config s))\<rparr>
              | (Send c, Done) \<Rightarrow> on_sent est c now s
              | (st', other) \<Rightarrow> cw_fail (CwUnexpected other st') now s))"

definition take_notices :: "cw_supervisor \<Rightarrow> cw_notice list \<times> cw_supervisor" where
  "take_notices s = (sup_notices s, s\<lparr>sup_notices := []\<rparr>)"

subsection \<open>Queries\<close>

definition blocks_external_ptt :: "cw_supervisor \<Rightarrow> bool" where
  "blocks_external_ptt s \<longleftrightarrow> sup_arm s \<noteq> None \<or> sup_activity s \<noteq> Idle"

definition is_live :: "cw_supervisor \<Rightarrow> bool" where
  "is_live s \<longleftrightarrow> sup_activity s \<noteq> Idle \<or> sup_plan s \<noteq> [] \<or> sup_outstanding s \<noteq> None"

definition is_settled :: "cw_supervisor \<Rightarrow> bool" where
  "is_settled s \<longleftrightarrow> sup_arm s = None \<and> \<not> is_live s"

definition armed_state_for :: "console_id \<Rightarrow> cw_supervisor \<Rightarrow> armed_state option" where
  "armed_state_for viewer s =
     map_option (\<lambda>a. \<lparr>as_callsign = arm_callsign a, as_power_raw = arm_power_raw a, as_mine = (arm_owner a = viewer)\<rparr>)
       (sup_arm s)"

definition cw_sender :: "cw_supervisor \<Rightarrow> sender_state" where
  "cw_sender s =
     (case sup_activity s of
        Sending job \<Rightarrow> SenderSending (job_id job) (job_sent job) (job_total job)
      | Stopping job _ _ _ \<Rightarrow> SenderDraining job
      | _ \<Rightarrow> sup_last_sender s)"

definition restore_status_of :: "cw_supervisor \<Rightarrow> restore_status option" where
  "restore_status_of s =
     (case sup_activity s of
        Restoring _ _ attempts (Some e) _ \<Rightarrow>
          if attempts > 0 then Some \<lparr>rs_attempts = attempts, rs_last_error = e\<rparr> else None
      | _ \<Rightarrow> None)"

section \<open>Lemmas\<close>

subsection \<open>Chunks\<close>

definition chunk_ok :: "(ustr \<Rightarrow> bool) \<Rightarrow> ustr \<Rightarrow> bool" where
  "chunk_ok fits c \<longleftrightarrow> c \<noteq> [] \<and> (fits c \<or> length c = 1)"

lemma split_word_ok:
  assumes "split_word fits cs piece out = (out', piece')" and "list_all (chunk_ok fits) out"
    and "piece \<noteq> [] \<Longrightarrow> chunk_ok fits piece"
  shows "list_all (chunk_ok fits) out' \<and> (piece' \<noteq> [] \<longrightarrow> chunk_ok fits piece') \<and>
    concat out' @ piece' = concat out @ piece @ cs \<and> (cs \<noteq> [] \<longrightarrow> piece' \<noteq> [])"
  using assms
proof (induction cs arbitrary: piece out)
  case (Cons c cs)
  show ?case
  proof (cases "piece = [] \<or> fits (piece @ [c])")
    case True
    then have "chunk_ok fits (piece @ [c])" by (auto simp: chunk_ok_def)
    with True Cons.IH [of "piece @ [c]" out] Cons.prems show ?thesis by (cases cs) auto
  next
    case False
    then have "chunk_ok fits [c]" "chunk_ok fits piece" using Cons.prems(3) by (auto simp: chunk_ok_def)
    with False Cons.IH [of "[c]" "out @ [piece]"] Cons.prems show ?thesis by (cases cs) auto
  qed
qed simp

abbreviation visible :: "ustr \<Rightarrow> ustr" where
  "visible \<equiv> filter (\<lambda>c. \<not> is_whitespace c)"

lemma chunk_word_ok:
  assumes "chunk_word fits word (out, current) = (out', current')" and "list_all (chunk_ok fits) out"
    and "current \<noteq> [] \<Longrightarrow> chunk_ok fits current" and "word \<noteq> []"
  shows "list_all (chunk_ok fits) out' \<and> chunk_ok fits current' \<and>
    visible (concat out' @ current') = visible (concat out @ current @ word)"
proof (cases "current \<noteq> [] \<and> fits (current @ [32] @ word)")
  case True
  with assms show ?thesis by (auto simp: chunk_word_def chunk_ok_def)
next
  case False
  let ?out = "if current \<noteq> [] then out @ [current] else out"
  have out: "list_all (chunk_ok fits) ?out" using assms(2,3) by auto
  show ?thesis
  proof (cases "fits word")
    case True
    with False assms show ?thesis by (auto simp: chunk_word_def chunk_ok_def Let_def split: if_splits)
  next
    case nofit: False
    with False assms(1) have "split_word fits word [] ?out = (out', current')"
      by (auto simp: chunk_word_def Let_def)
    from split_word_ok [OF this out] assms(4) show ?thesis by (auto simp: filter_concat simp flip: filter_append)
  qed
qed

lemma chunk_fold_ok:
  assumes "fold (chunk_word fits) wds (out, current) = (out', current')" and "list_all (chunk_ok fits) out"
    and "current \<noteq> [] \<Longrightarrow> chunk_ok fits current" and "[] \<notin> set wds"
  shows "list_all (chunk_ok fits) out' \<and> (current' \<noteq> [] \<longrightarrow> chunk_ok fits current') \<and>
    visible (concat out' @ current') = visible (concat out @ current @ concat wds)"
  using assms
proof (induction wds arbitrary: out current)
  case (Cons w wds)
  obtain o1 c1 where w: "chunk_word fits w (out, current) = (o1, c1)" by fastforce
  from chunk_word_ok [OF w Cons.prems(2,3)] Cons.prems(4)
  have 1: "list_all (chunk_ok fits) o1" "chunk_ok fits c1" "visible (concat o1 @ c1) = visible (concat out @ current @ w)"
    by auto
  with Cons.IH [of o1 c1] Cons.prems(1,4) w show ?case by simp
qed auto

lemma split_on_at: "P x \<Longrightarrow> split_on P (a @ x # b) = split_on P a @ split_on P b"
  by (induction P a rule: split_on.induct) (auto split: list.split)

text \<open>A word that fits is never cut.\<close>

lemma chunk_fold_words:
  assumes "fold (chunk_word fits) wds (out, current) = (out', current')"
    and "\<forall>w \<in> set wds. fits w \<and> w \<noteq> [] \<and> (\<forall>c \<in> set w. \<not> is_whitespace c)"
  shows "concat (map split_whitespace (out' @ [current'])) = concat (map split_whitespace (out @ [current])) @ wds"
  using assms
proof (induction wds arbitrary: out current)
  case (Cons w wds)
  have word: "split_whitespace w = [w]"
    using Cons.prems(2) split_join_words [of "[w]"] by simp
  have joined: "split_whitespace (current @ [32] @ w) = split_whitespace current @ [w]"
    using Cons.prems(2) word by (simp add: split_whitespace_def split_on_at)
  have nil: "split_whitespace [] = []" by (simp add: split_whitespace_def)
  show ?case
    using Cons.IH Cons.prems word joined nil by (auto simp: chunk_word_def Let_def split: if_splits)
qed simp

lemma split_word_concat:
  "split_word fits cs piece out = (out', piece') \<Longrightarrow> concat out' @ piece' = concat out @ piece @ cs"
  by (induction fits cs piece out rule: split_word.induct) (auto split: if_splits)

lemma chunk_word_chars:
  assumes "chunk_word fits w (out, current) = (out', current')"
  shows "set (concat out' @ current') \<subseteq> insert 32 (set (concat out @ current @ w))"
proof (cases "current \<noteq> [] \<and> fits (current @ [32] @ w) \<or> fits w")
  case True
  with assms show ?thesis by (auto simp: chunk_word_def Let_def split: if_splits)
next
  case False
  let ?out = "if current \<noteq> [] then out @ [current] else out"
  have "split_word fits w [] ?out = (out', current')" using False assms by (auto simp: chunk_word_def Let_def)
  from split_word_concat [OF this] have "concat out' @ current' = concat out @ current @ w" by simp
  then show ?thesis by (auto simp del: set_concat set_append)
qed

lemma chunk_fold_chars:
  "fold (chunk_word fits) wds (out, current) = (out', current') \<Longrightarrow>
   set (concat out' @ current') \<subseteq> insert 32 (set (concat out @ current @ concat wds))"
proof (induction wds arbitrary: out current)
  case (Cons w wds)
  obtain o1 c1 where w: "chunk_word fits w (out, current) = (o1, c1)" by fastforce
  have "set (concat out' @ current') \<subseteq> insert 32 (set (concat o1 @ c1) \<union> set (concat wds))"
    using Cons.IH [of o1 c1] Cons.prems w by (simp del: set_concat add: Un_assoc)
  also have "\<dots> \<subseteq> insert 32 (set (concat out @ current @ w) \<union> set (concat wds))"
    using chunk_word_chars [OF w] by blast
  finally show ?case by (simp del: set_concat add: Un_assoc)
qed auto

lemma chunks_result:
  obtains out current where
    "fold (chunk_word (chunk_fits est m d wpm)) (split_whitespace t) ([], []) = (out, current)"
    "chunks est t m d wpm = (if current \<noteq> [] then out @ [current] else out)"
  by (cases "fold (chunk_word (chunk_fits est m d wpm)) (split_whitespace t) ([], [])") (auto simp: chunks_def)

lemma chunks_ok:
  "list_all (chunk_ok (chunk_fits est m d wpm)) (chunks est t m d wpm)"
  "visible (concat (chunks est t m d wpm)) = visible t"
proof -
  obtain out current where f: "fold (chunk_word (chunk_fits est m d wpm)) (split_whitespace t) ([], []) = (out, current)"
    and c: "chunks est t m d wpm = (if current \<noteq> [] then out @ [current] else out)" by (rule chunks_result)
  have "[] \<notin> set (split_whitespace t)" using split_whitespace_words by blast
  with chunk_fold_ok [OF f] have "list_all (chunk_ok (chunk_fits est m d wpm)) out"
    "current \<noteq> [] \<longrightarrow> chunk_ok (chunk_fits est m d wpm) current"
    "visible (concat out @ current) = visible (concat (split_whitespace t))" by simp_all
  then show "list_all (chunk_ok (chunk_fits est m d wpm)) (chunks est t m d wpm)"
    "visible (concat (chunks est t m d wpm)) = visible t"
    by (auto simp: c split_whitespace_concat)
qed

lemma chunks_words:
  assumes "list_all (chunk_fits est m d wpm) (split_whitespace t)"
  shows "concat (map split_whitespace (chunks est t m d wpm)) = split_whitespace t"
proof -
  obtain out current where f: "fold (chunk_word (chunk_fits est m d wpm)) (split_whitespace t) ([], []) = (out, current)"
    and c: "chunks est t m d wpm = (if current \<noteq> [] then out @ [current] else out)" by (rule chunks_result)
  have nil: "split_whitespace [] = []" by (simp add: split_whitespace_def)
  have "concat (map split_whitespace (out @ [current])) = split_whitespace t"
    using chunk_fold_words [OF f] assms nil by (auto simp: list_all_iff dest: split_whitespace_words)
  then show ?thesis using nil by (auto simp: c)
qed

lemma chunks_chars: "c \<in> set (chunks est t m d wpm) \<Longrightarrow> set c \<subseteq> insert 32 (set t)"
proof -
  assume a: "c \<in> set (chunks est t m d wpm)"
  obtain out current where f: "fold (chunk_word (chunk_fits est m d wpm)) (split_whitespace t) ([], []) = (out, current)"
    and c: "chunks est t m d wpm = (if current \<noteq> [] then out @ [current] else out)" by (rule chunks_result)
  have "set (concat out @ current) \<subseteq> insert 32 (set t)"
    using chunk_fold_chars [OF f] by (auto simp: split_whitespace_concat)
  with a show ?thesis by (auto simp: c split: if_splits)
qed

section \<open>Properties\<close>

text \<open>
  C24: Cutting a text into chunks. Every chunk is non-empty and fits the radio's chunk size and the
  drain bound, or is a single character, and the chunks carry exactly the text's characters in order.
  A text whose words all fit is only cut between words.
\<close>

theorem cw_chunks_exact:
  "list_all (\<lambda>c. c \<noteq> [] \<and> (chunk_fits est max_chars max_duration wpm c \<or> length c = 1)) (chunks est t max_chars max_duration wpm) \<and>
    visible (concat (chunks est t max_chars max_duration wpm)) = visible t \<and>
    (list_all (chunk_fits est max_chars max_duration wpm) (split_whitespace t) \<longrightarrow>
       concat (map split_whitespace (chunks est t max_chars max_duration wpm)) = split_whitespace t)"
  using chunks_ok [where m = max_chars and d = max_duration] chunks_words [where m = max_chars and d = max_duration]
  unfolding chunk_ok_def [abs_def] by blast

text \<open>A keyer that takes six characters, at a tenth of a second each.\<close>

theorem cw_chunks_exact_witness:
  "chunks (\<lambda>t _. length t * 10 ^ 8) (ulit ''CQ CQ DE'') 6 (Some (10 ^ 9)) 20 = [ulit ''CQ CQ'', ulit ''DE''] \<and>
   concat (map split_whitespace (chunks (\<lambda>t _. length t * 10 ^ 8) (ulit ''CQ CQ DE'') 6 (Some (10 ^ 9)) 20)) =
     [ulit ''CQ'', ulit ''CQ'', ulit ''DE'']"
proof -
  let ?est = "\<lambda>t (_ :: u16). length t * 10 ^ 8"
  have w: "split_whitespace (ulit ''CQ CQ DE'') = [ulit ''CQ'', ulit ''CQ'', ulit ''DE'']"
    by (simp add: split_whitespace_def ulit_def is_whitespace_def)
  have "list_all (chunk_fits ?est 6 (Some (10 ^ 9)) 20) (split_whitespace (ulit ''CQ CQ DE''))"
    unfolding w by (simp add: chunk_fits_def ulit_def max_def word_le_nat_alt)
  then have "concat (map split_whitespace (chunks ?est (ulit ''CQ CQ DE'') 6 (Some (10 ^ 9)) 20)) =
      split_whitespace (ulit ''CQ CQ DE'')"
    using cw_chunks_exact [where est = ?est and t = "ulit ''CQ CQ DE''" and max_chars = 6 and max_duration = "Some (10 ^ 9)" and wpm = 20]
    by blast
  moreover have "chunks ?est (ulit ''CQ CQ DE'') 6 (Some (10 ^ 9)) 20 = [ulit ''CQ CQ'', ulit ''DE'']"
    unfolding chunks_def w by (simp add: chunk_word_def chunk_fits_def ulit_def max_def word_le_nat_alt)
  ultimately show ?thesis by (simp add: w)
qed

end
