(* ===== verification/Cw_Safety.thy ===== *)
theory Cw_Safety imports Cw_Supervisor begin

text \<open>
  The supervisor between consoles and a radio. Requests, polls and answers interleave in any order;
  the radio's power and break-in are followed through every plan by one invariant, stated once for a
  setting (the locale \<open>cw_register\<close>) and interpreted for each of the two.
\<close>

section \<open>Definitions\<close>

subsection \<open>The supervisor between consoles and a radio\<close>

datatype cw_request =
    ReqArm console_id ustr "u16 option"
  | ReqSend console_id ustr
  | ReqAbort
  | ReqDisarm console_id
  | ReqDetached console_id
  | ReqShutdown
  | ReqTakeNotices

definition cw_handle :: "(ustr \<Rightarrow> u16 \<Rightarrow> duration) \<Rightarrow> cw_request \<Rightarrow> instant \<Rightarrow> cw_supervisor \<Rightarrow> cw_supervisor" where
  "cw_handle est req now s =
     (case req of
        ReqArm owner callsign cap \<Rightarrow> snd (cw_arm_request owner callsign cap s)
      | ReqSend owner t \<Rightarrow> snd (cw_send est owner t now s)
      | ReqAbort \<Rightarrow> abort_send s
      | ReqDisarm owner \<Rightarrow> snd (cw_disarm owner s)
      | ReqDetached console \<Rightarrow> cw_detached console s
      | ReqShutdown \<Rightarrow> cw_shutdown s
      | ReqTakeNotices \<Rightarrow> snd (take_notices s))"

text \<open>
  The two settings the supervisor changes. The radio answers reads of them truthfully; a write may
  take effect or not, whatever is answered; nothing else changes them. Other answers are arbitrary.
\<close>

record cw_radio =
  r_power :: u16
  r_break_in :: break_in_kind

definition radio_answers :: "cw_action \<Rightarrow> cw_radio \<Rightarrow> cw_outcome \<Rightarrow> cw_radio \<Rightarrow> bool" where
  "radio_answers a r out r' \<longleftrightarrow>
     (a = ReadPower \<longrightarrow> (\<forall>p. out = Power p \<longrightarrow> p = r_power r)) \<and>
     (a = ReadBreakIn \<longrightarrow> (\<forall>k. out = BreakIn k \<longrightarrow> k = r_break_in r)) \<and>
     (r_power r' = r_power r \<or> a = ActSetPower (r_power r')) \<and>
     (r_break_in r' = r_break_in r \<or> a = ActSetBreakIn (r_break_in r'))"

inductive cw_closed :: "(ustr \<Rightarrow> u16 \<Rightarrow> duration) \<Rightarrow> cw_supervisor \<Rightarrow> cw_radio \<Rightarrow> cw_supervisor \<Rightarrow> cw_radio \<Rightarrow> bool"
  for est s0 r0 where
  closed_start: "cw_closed est s0 r0 s0 r0"
| closed_request: "cw_closed est s0 r0 s r \<Longrightarrow> cw_closed est s0 r0 (cw_handle est req now s) r"
| closed_poll: "cw_closed est s0 r0 s r \<Longrightarrow> cw_closed est s0 r0 (snd (next_action now s)) r"
| closed_answer: "cw_closed est s0 r0 s r \<Longrightarrow> sup_outstanding s = Some st \<Longrightarrow> step_action st = Some a \<Longrightarrow>
    radio_answers a r out r' \<Longrightarrow> cw_closed est s0 r0 (cw_complete est out now s) r'"

section \<open>Lemmas\<close>

subsection \<open>One setting through a plan\<close>

text \<open>
  A plan as one setting sees it. \<open>reg_ok\<close> follows the setting through the plan: \<open>v\<close> is its value where
  that is certain, \<open>sn\<close> says that its original value \<open>x0\<close> is recorded, \<open>ch\<close> that it may have been
  changed. At the end of the plan the setting has the value \<open>goal\<close> for certain.
\<close>

datatype 'a reg_op = OpSnap | OpSet 'a | OpVerify 'a | OpOther

fun reg_ok :: "'a \<Rightarrow> 'a \<Rightarrow> 'a reg_op list \<Rightarrow> 'a option \<Rightarrow> bool \<Rightarrow> bool \<Rightarrow> bool" where
  "reg_ok x0 goal [] v sn ch \<longleftrightarrow> v = Some goal"
| "reg_ok x0 goal (OpSnap # ops) v sn ch \<longleftrightarrow> v = Some x0 \<and> reg_ok x0 goal ops v True ch"
| "reg_ok x0 goal (OpSet x # ops) v sn ch \<longleftrightarrow> sn \<and> reg_ok x0 goal ops None sn True"
| "reg_ok x0 goal (OpVerify x # ops) v sn ch \<longleftrightarrow> ch \<and> reg_ok x0 goal ops (Some x) sn ch"
| "reg_ok x0 goal (OpOther # ops) v sn ch \<longleftrightarrow> reg_ok x0 goal ops v sn ch"

lemma reg_ok_mono:
  "reg_ok x0 goal ops v sn ch \<Longrightarrow> (v \<noteq> None \<Longrightarrow> v = v') \<Longrightarrow> (sn \<Longrightarrow> sn') \<Longrightarrow> (ch \<Longrightarrow> ch') \<Longrightarrow> reg_ok x0 goal ops v' sn' ch'"
proof (induction x0 goal ops v sn ch arbitrary: v' sn' ch' rule: reg_ok.induct)
  case (3 x0 goal x ops v sn ch)
  from "3.prems"(1) have "sn \<and> reg_ok x0 goal ops None sn True" unfolding reg_ok.simps .
  with "3.IH" [of None sn' True] "3.prems"(3) show ?case by auto
next
  case (4 x0 goal x ops v sn ch)
  from "4.prems"(1) have "ch \<and> reg_ok x0 goal ops (Some x) sn ch" unfolding reg_ok.simps .
  with "4.IH" [of "Some x" sn' ch'] "4.prems"(3,4) show ?case by auto
qed auto

lemma reg_ok_other:
  "list_all (\<lambda>y. y = OpOther) ops \<Longrightarrow> reg_ok x0 goal ops v sn ch \<longleftrightarrow> v = Some goal"
  by (induction ops) auto

lemma reg_ok_untouched:
  "list_all (\<lambda>y. y = OpOther \<or> y = OpSnap) ops \<Longrightarrow> reg_ok x x ops (Some x) sn ch"
  by (induction ops arbitrary: sn) auto

lemma reg_ok_drop_other:
  "(\<And>y. y \<in> set ops \<Longrightarrow> \<not> P y \<Longrightarrow> view y = OpOther) \<Longrightarrow>
   reg_ok x0 goal (map view (filter P ops)) v sn ch = reg_ok x0 goal (map view ops) v sn ch"
proof (induction ops arbitrary: v sn ch)
  case (Cons y ops)
  show ?case by (cases "P y"; cases "view y") (use Cons in \<open>auto\<close>)
qed simp

definition view_power :: "step \<Rightarrow> u16 reg_op" where
  "view_power st = (case st of SnapPower \<Rightarrow> OpSnap | SetPower x \<Rightarrow> OpSet x | VerifyPower x \<Rightarrow> OpVerify x | _ \<Rightarrow> OpOther)"

definition view_break_in :: "step \<Rightarrow> break_in_kind reg_op" where
  "view_break_in st =
     (case st of SnapBreakIn \<Rightarrow> OpSnap | SetBreakIn x \<Rightarrow> OpSet x | VerifyBreakIn x \<Rightarrow> OpVerify x | _ \<Rightarrow> OpOther)"

text \<open>Steps that leave both settings alone, and steps that belong to arming and restoring.\<close>

definition calm :: "step \<Rightarrow> bool" where
  "calm st \<longleftrightarrow> (case st of StepStatus \<Rightarrow> True | PowerAtMost _ \<Rightarrow> True | WaitReady \<Rightarrow> True | WaitKeyed _ \<Rightarrow> True
     | CheckSpeed \<Rightarrow> True | Send _ \<Rightarrow> True | StepStop \<Rightarrow> True | _ \<Rightarrow> False)"

definition setting_step :: "step \<Rightarrow> bool" where
  "setting_step st \<longleftrightarrow> (case st of StepStatus \<Rightarrow> True | WaitKeyed _ \<Rightarrow> True | PowerAtMost _ \<Rightarrow> False | WaitReady \<Rightarrow> False
     | CheckSpeed \<Rightarrow> False | Send _ \<Rightarrow> False | StepStop \<Rightarrow> False | _ \<Rightarrow> True)"

definition cw_wf :: "cw_send_text \<Rightarrow> tx_gate_capability \<Rightarrow> cw_supervisor \<Rightarrow> bool" where
  "cw_wf send gate s \<longleftrightarrow>
     sup_send_text s = Some send \<and> sup_gate s = Some gate \<and>
     (case sup_activity s of
        Idle \<Rightarrow> sup_plan s = [] \<and> (sup_arm s \<noteq> None \<longrightarrow> sup_outstanding s = None) \<and> pred_option setting_step (sup_outstanding s)
      | Arming _ _ _ _ _ \<Rightarrow> sup_arm s = None \<and> list_all setting_step (sup_plan s) \<and> pred_option setting_step (sup_outstanding s)
      | Sending _ \<Rightarrow> sup_arm s \<noteq> None \<and> list_all calm (sup_plan s) \<and> pred_option calm (sup_outstanding s)
      | Stopping _ _ _ _ \<Rightarrow> sup_arm s \<noteq> None \<and> list_all calm (sup_plan s) \<and> pred_option calm (sup_outstanding s)
      | Restoring _ _ _ _ retry \<Rightarrow> sup_arm s = None \<and> list_all setting_step (sup_plan s) \<and>
          pred_option setting_step (sup_outstanding s) \<and> (retry \<noteq> None \<longrightarrow> sup_plan s = [] \<and> sup_outstanding s = None))"

definition cw_waiting :: "cw_supervisor \<Rightarrow> bool" where
  "cw_waiting s \<longleftrightarrow> (case sup_activity s of Restoring _ _ _ _ (Some _) \<Rightarrow> True | _ \<Rightarrow> False)"

definition cw_claimed :: "cw_supervisor \<Rightarrow> bool" where
  "cw_claimed s \<longleftrightarrow> sup_arm s \<noteq> None \<or> (case sup_activity s of Arming _ _ _ _ _ \<Rightarrow> True | _ \<Rightarrow> False)"

definition pending :: "cw_supervisor \<Rightarrow> step list" where
  "pending s = (case sup_outstanding s of Some st \<Rightarrow> [st] | None \<Rightarrow> []) @ sup_plan s"

subsection \<open>The shape of the supervisor's state\<close>

lemma setting_restore_steps [simp]: "list_all setting_step (restore_steps m snap)"
  by (simp add: restore_steps_def setting_step_def split: option.split)

lemma setting_arm_steps [simp]: "list_all setting_step (arm_steps send gate)"
  by (simp add: arm_steps_def setting_step_def split: option.split)

lemma calm_chunk_steps [simp]: "list_all calm (chunk_steps send cs)"
  by (induction send cs rule: chunk_steps.induct) (simp_all add: calm_def)

lemma calm_replan_steps [simp]: "list_all calm (replan_steps send first cs)"
  by (induction send first cs rule: replan_steps.induct) (simp_all add: calm_def)

lemma calm_simps [simp]: "calm StepStatus" "calm (PowerAtMost p)" "calm WaitReady" "calm (WaitKeyed d)" "calm CheckSpeed"
  "calm (Send c)" "calm StepStop"
  by (simp_all add: calm_def)

lemma wf_start_restore:
  "cw_wf send gate s \<Longrightarrow> pred_option setting_step (sup_outstanding s) \<Longrightarrow> cw_wf send gate (start_restore reason ticket s)"
  by (simp add: cw_wf_def start_restore_def plan_restore_def)

lemma wf_begin_stop:
  assumes "cw_wf send gate s" and "sup_outstanding s = None \<or> (\<exists>job. sup_activity s = Sending job) \<or> andthen = StayArmed"
  shows "cw_wf send gate (begin_stop reason m andthen s)"
proof (cases "\<exists>job. sup_activity s = Sending job")
  case True
  with assms(1) show ?thesis
    by (auto simp: cw_wf_def begin_stop_def Let_def split: option.split)
next
  case False
  then have "begin_stop reason m andthen s = (case andthen of Restore r t \<Rightarrow> start_restore r t s | StayArmed \<Rightarrow> s)"
    by (auto simp: begin_stop_def split: activity.split)
  with False assms show ?thesis by (auto split: after.split intro!: wf_start_restore)
qed

lemma wf_refuse_arm:
  "cw_wf send gate s \<Longrightarrow> sup_arm s = None \<Longrightarrow> pred_option setting_step (sup_outstanding s) \<Longrightarrow> cw_wf send gate (refuse_arm code m s)"
  by (auto simp: cw_wf_def refuse_arm_def cw_reply_def start_restore_def plan_restore_def Let_def split: activity.split)

lemma wf_end_arm:
  "cw_wf send gate s \<Longrightarrow> sup_arm s \<noteq> None \<Longrightarrow> cw_wf send gate (end_arm reason stop ticket s)"
  by (cases "sup_activity s")
    (auto simp: end_arm_def cw_wf_def split: after.split
       intro!: wf_begin_stop [unfolded cw_wf_def, simplified] wf_start_restore [unfolded cw_wf_def, simplified])

lemma wf_arming_unarmed: "cw_wf send gate s \<Longrightarrow> sup_activity s = Arming t w c cap wpm \<Longrightarrow> sup_arm s = None"
  by (simp add: cw_wf_def)

lemma wf_fail:
  assumes "cw_wf send gate s" and "sup_outstanding s = None"
  shows "cw_wf send gate (cw_fail error now s)"
proof (cases "sup_activity s")
  case Arming
  with assms show ?thesis by (simp add: cw_fail_def wf_refuse_arm wf_arming_unarmed)
next
  case Sending
  with assms show ?thesis by (simp add: cw_fail_def wf_begin_stop)
qed (use assms in \<open>auto simp: cw_fail_def cw_wf_def cw_reply_def Let_def split: option.split\<close>)

lemma wf_frame:
  assumes "cw_wf send gate s" and "sup_send_text s' = sup_send_text s" and "sup_gate s' = sup_gate s"
    and "sup_activity s' = sup_activity s" and "sup_plan s' = sup_plan s" and "sup_outstanding s' = sup_outstanding s"
    and "sup_arm s' = None \<longleftrightarrow> sup_arm s = None"
  shows "cw_wf send gate s'"
  using assms by (simp add: cw_wf_def split: activity.splits)

text \<open>An arm request is refused and changes nothing, or it starts arming an idle supervisor.\<close>

lemma arm_request_cases:
  assumes "cw_wf send gate s"
  obtains "snd (cw_arm_request owner callsign cap s) = s"
  | ticket c wpm where "sup_activity s = Idle" "sup_arm s = None"
      "snd (cw_arm_request owner callsign cap s) =
         s\<lparr>sup_next_ticket := sup_next_ticket s + 1, sup_snap := snapshot_default, sup_plan := arm_steps send gate,
           sup_activity := Arming ticket owner (map to_ascii_uppercase callsign) c wpm\<rparr>"
proof (cases "sup_activity s = Idle \<and> sup_arm s = None \<and> \<not> sup_shutting_down s")
  case True
  with assms that(2) show ?thesis
    by (simp add: cw_arm_request_def cw_wf_def cw_held_by_def take_ticket_def)
next
  case False
  have "snd (cw_arm_request owner callsign cap s) = s"
  proof (cases "sup_activity s")
    case Idle
    then show ?thesis using False assms by (auto simp: cw_arm_request_def cw_wf_def cw_held_by_def)
  next
    case Arming
    then show ?thesis using assms by (simp add: cw_arm_request_def cw_wf_def cw_held_by_def)
  next
    case Sending
    then show ?thesis using assms by (auto simp: cw_arm_request_def cw_wf_def cw_held_by_def)
  next
    case Stopping
    then show ?thesis using assms by (auto simp: cw_arm_request_def cw_wf_def cw_held_by_def)
  next
    case Restoring
    then show ?thesis using assms by (simp add: cw_arm_request_def cw_wf_def)
  qed
  with that(1) show ?thesis .
qed

lemma wf_arm_request:
  assumes "cw_wf send gate s"
  shows "cw_wf send gate (snd (cw_arm_request owner callsign cap s))"
  by (cases rule: arm_request_cases [OF assms, of owner callsign cap]) (use assms in \<open>simp_all add: cw_wf_def\<close>)

text \<open>A send is refused and changes nothing, or it starts a job of an idle, armed supervisor.\<close>

lemma send_cases:
  assumes "sup_send_text s = Some send"
  obtains e where "cw_send est owner t now s = (Inl e, s)"
  | arm job where "sup_activity s = Idle" "sup_arm s = Some arm" "send_job est send arm t now s = Inr job"
      "cw_send est owner t now s = (Inr (sup_next_job s),
         s\<lparr>sup_next_job := sup_next_job s + 1,
           sup_plan := [StepStatus, PowerAtMost (case sup_gate s of Some g \<Rightarrow> low_power_raw g | None \<Rightarrow> 0)],
           sup_activity := Sending job, sup_arm := Some (arm\<lparr>arm_last_activity := now\<rparr>)\<rparr>)"
proof (cases "\<exists>arm job. sup_arm s = Some arm \<and> arm_owner arm = owner \<and> sup_activity s = Idle \<and> send_job est send arm t now s = Inr job")
  case True
  with assms that(2) show ?thesis by (auto simp: cw_send_def)
next
  case False
  then have "\<exists>e. cw_send est owner t now s = (Inl e, s)"
    using assms by (cases "sup_arm s") (auto simp: cw_send_def split: sum.split)
  with that(1) show ?thesis by blast
qed

lemma wf_send:
  assumes "cw_wf send gate s"
  shows "cw_wf send gate (snd (cw_send est owner t now s))"
proof -
  have "sup_send_text s = Some send" using assms by (simp add: cw_wf_def)
  from send_cases [OF this, of est owner t now] show ?thesis
    by cases (use assms in \<open>simp_all add: cw_wf_def\<close>)
qed

lemma wf_disarm:
  assumes "cw_wf send gate s"
  shows "cw_wf send gate (snd (cw_disarm owner s))"
proof -
  have "cw_wf send gate (snd (take_ticket s))"
    by (rule wf_frame [OF assms]) (simp_all add: take_ticket_def)
  then have "cw_wf send gate (end_arm r st t (snd (take_ticket s)))" if "sup_arm s \<noteq> None" for r st t
    using that by (intro wf_end_arm) (simp_all add: take_ticket_def)
  with assms show ?thesis
    by (auto simp: cw_disarm_def split: option.splits activity.splits after.splits prod.splits)
qed

lemma wf_handle:
  assumes "cw_wf send gate s"
  shows "cw_wf send gate (cw_handle est req now s)"
proof (cases req)
  case ReqAbort
  with assms show ?thesis by (auto simp: cw_handle_def abort_send_def split: activity.split intro!: wf_begin_stop)
next
  case ReqDetached
  with assms show ?thesis
    by (auto simp: cw_handle_def cw_detached_def wf_end_arm wf_arming_unarmed split: activity.split option.split
        intro!: wf_refuse_arm) (auto simp: cw_wf_def)
next
  case ReqShutdown
  have 1: "cw_wf send gate (s\<lparr>sup_shutting_down := True\<rparr>)" by (rule wf_frame [OF assms]) simp_all
  then have "cw_wf send gate (refuse_arm c m (s\<lparr>sup_shutting_down := True\<rparr>))"
    if "sup_activity s = Arming t w cs cap wpm" for c m t w cs cap wpm
    using that by (intro wf_refuse_arm) (simp_all add: cw_wf_def)
  with ReqShutdown 1 show ?thesis
    by (auto simp: cw_handle_def cw_shutdown_def Let_def wf_end_arm split: activity.split)
next
  case ReqTakeNotices
  then show ?thesis by (auto simp: cw_handle_def take_notices_def intro: wf_frame [OF assms])
qed (use assms in \<open>simp_all add: cw_handle_def wf_arm_request wf_send wf_disarm\<close>)

lemma wf_check_timers:
  "cw_wf send gate s \<Longrightarrow> sup_outstanding s = None \<Longrightarrow> cw_wf send gate (check_timers now s)"
  by (auto simp: check_timers_def split: activity.split option.split intro!: wf_begin_stop wf_start_restore)

lemma wf_finish:
  assumes "cw_wf send gate s" and "sup_outstanding s = None" and "sup_plan s = []"
  shows "cw_wf send gate (snd (cw_finish now s))"
  using assms
  by (auto simp: cw_finish_def cw_wf_def cw_reply_def touch_arm_def end_job_def start_restore_def plan_restore_def Let_def
      split: activity.splits after.splits option.splits)

lemma wf_plan_tail:
  "cw_wf send gate s \<Longrightarrow> sup_plan s = st # rest \<Longrightarrow> cw_wf send gate (s\<lparr>sup_plan := rest\<rparr>)"
  by (auto simp: cw_wf_def split: activity.splits)

lemma wf_issue:
  assumes "cw_wf send gate s" and "sup_plan s = st # rest"
  shows "cw_wf send gate (s\<lparr>sup_plan := rest, sup_snap := snap, sup_outstanding := Some st\<rparr>)"
  using assms by (auto simp: cw_wf_def split: activity.splits)

text \<open>What holds before a poll holds after it, if finishing and issuing a step keep it.\<close>

lemma outstanding_finish [simp]: "sup_outstanding (snd (cw_finish now s)) = sup_outstanding s"
  by (auto simp: cw_finish_def cw_reply_def touch_arm_def end_job_def start_restore_def plan_restore_def Let_def
      split: activity.split after.split option.split)

lemma outstanding_check_timers [simp]: "sup_outstanding (check_timers now s) = sup_outstanding s"
  by (auto simp: check_timers_def begin_stop_def start_restore_def plan_restore_def Let_def
      split: activity.split option.split after.split)

lemma next_loop_inv:
  assumes "P s" and "sup_outstanding s = None"
    and fin: "\<And>s. P s \<Longrightarrow> sup_outstanding s = None \<Longrightarrow> sup_plan s = [] \<Longrightarrow> P (snd (cw_finish now s))"
    and pop: "\<And>s d rest. P s \<Longrightarrow> sup_outstanding s = None \<Longrightarrow> sup_plan s = WaitKeyed d # rest \<Longrightarrow> P (s\<lparr>sup_plan := rest\<rparr>)"
    and ready: "\<And>s rest. P s \<Longrightarrow> sup_outstanding s = None \<Longrightarrow> sup_plan s = WaitReady # rest \<Longrightarrow>
      P (s\<lparr>sup_ready_retry_at := None, sup_plan := rest, sup_outstanding := Some WaitReady\<rparr>)"
    and issue: "\<And>s st rest. P s \<Longrightarrow> sup_outstanding s = None \<Longrightarrow> sup_plan s = st # rest \<Longrightarrow>
      P (s\<lparr>sup_plan := rest, sup_snap := mark_issued st (sup_snap s), sup_outstanding := Some st\<rparr>)"
  shows "P (snd (next_loop n now s))"
  using assms(1,2)
proof (induction n arbitrary: s)
  case (Suc n)
  show ?case
  proof (cases "sup_plan s")
    case Nil
    obtain again s1 where f: "cw_finish now s = (again, s1)" by fastforce
    with fin [OF Suc.prems Nil] outstanding_finish [of now s] Suc.prems(2) have "P s1" "sup_outstanding s1 = None" by auto
    with Suc.IH Nil f show ?thesis by simp
  next
    case (Cons st rest)
    show ?thesis
    proof (cases st)
      case WaitKeyed
      with Cons Suc pop show ?thesis by (auto split: option.split)
    next
      case WaitReady
      with Cons Suc.prems ready show ?thesis by auto
    qed (use Cons Suc.prems issue in auto)
  qed
qed simp

lemma wf_next:
  assumes "cw_wf send gate s"
  shows "cw_wf send gate (snd (next_action now s))"
proof (cases "sup_outstanding s")
  case None
  have "cw_wf send gate (snd (next_loop 64 now (check_timers now s)))"
  proof (rule next_loop_inv)
    fix s rest assume "cw_wf send gate s" "sup_plan s = WaitReady # rest"
    then show "cw_wf send gate (s\<lparr>sup_ready_retry_at := None, sup_plan := rest, sup_outstanding := Some WaitReady\<rparr>)"
      by (auto simp: cw_wf_def split: activity.splits)
  qed (use assms None in \<open>auto intro: wf_finish wf_plan_tail wf_issue wf_check_timers\<close>)
  with None show ?thesis by (simp add: next_action_def)
qed (use assms in \<open>simp add: next_action_def\<close>)

text \<open>The ways an answer is taken.\<close>

datatype answer_kind = AnsFail cw_text | AnsStatus bool bool "u16 option" | AnsSpeed bool "u16 option" | AnsSnapPower u16
  | AnsSnapBreakIn break_in_kind | AnsAbove u16 u16 | AnsStopped | AnsBusy | AnsSent chunk | AnsKept

definition answer_kind :: "step \<Rightarrow> cw_outcome \<Rightarrow> answer_kind" where
  "answer_kind st out =
     (case (st, out) of
        (_, Failed e) \<Rightarrow> AnsFail (CwRadio e)
      | (StepStatus, Status m t w) \<Rightarrow> AnsStatus m t w
      | (CheckSpeed, Status m _ w) \<Rightarrow> AnsSpeed m w
      | (SnapPower, Power p) \<Rightarrow> AnsSnapPower p
      | (VerifyPower want, Power p) \<Rightarrow> if p \<noteq> want then AnsFail (CwPowerReadBack p want) else AnsKept
      | (PowerAtMost mx, Power p) \<Rightarrow> if p > mx then AnsAbove p mx else AnsKept
      | (SnapBreakIn, BreakIn k) \<Rightarrow> AnsSnapBreakIn k
      | (VerifyBreakIn want, BreakIn k) \<Rightarrow> if k \<noteq> want then AnsFail (CwBreakInReadBack k want) else AnsKept
      | (StepStop, Done) \<Rightarrow> AnsStopped
      | (SetPower _, Done) \<Rightarrow> AnsKept
      | (SetBreakIn _, Done) \<Rightarrow> AnsKept
      | (WaitReady, Ready b) \<Rightarrow> if b then AnsKept else AnsBusy
      | (Send c, Done) \<Rightarrow> AnsSent c
      | (st', other) \<Rightarrow> AnsFail (CwUnexpected other st'))"

lemma complete_answer:
  assumes "sup_outstanding s0 = Some st"
  defines "s \<equiv> s0\<lparr>sup_outstanding := None\<rparr>"
  shows "cw_complete est out now s0 =
     (case answer_kind st out of
        AnsFail e \<Rightarrow> cw_fail e now s
      | AnsStatus m t w \<Rightarrow> on_status est m t w s
      | AnsSpeed m w \<Rightarrow> on_speed est m w now s
      | AnsSnapPower p \<Rightarrow> s\<lparr>sup_snap := (sup_snap s)\<lparr>snap_power := Some p\<rparr>\<rparr>
      | AnsSnapBreakIn k \<Rightarrow>
          (let s1 = s\<lparr>sup_snap := (sup_snap s)\<lparr>snap_break_in := Some k\<rparr>\<rparr>;
               wanted = (case sup_send_text s of Some send \<Rightarrow> requires_break_in send | None \<Rightarrow> None)
           in if wanted = Some k then s1\<lparr>sup_plan := filter (\<lambda>x. \<not> is_break_in_step x) (sup_plan s1)\<rparr> else s1)
      | AnsAbove p mx \<Rightarrow> begin_stop StopError (Some (CwPowerAbove p mx)) (Restore DisPowerAboveClamp None) s
      | AnsStopped \<Rightarrow> if map_option abort_kind (sup_send_text s) = Some RadioStop then s\<lparr>sup_keyed_until := None\<rparr> else s
      | AnsBusy \<Rightarrow> s\<lparr>sup_plan := WaitReady # sup_plan s, sup_ready_retry_at := Some (now + tick (sup_config s))\<rparr>
      | AnsSent c \<Rightarrow> on_sent est c now s
      | AnsKept \<Rightarrow> s)"
  unfolding cw_complete_def assms(1) s_def answer_kind_def
  by (cases st; cases out) (simp_all only: option.case step.case cw_outcome.case prod.case Let_def answer_kind.case split: if_split, simp_all)

lemma answer_kind_steps:
  "answer_kind st out = AnsStatus m t w \<Longrightarrow> st = StepStatus"
  "answer_kind st out = AnsSpeed m w \<Longrightarrow> st = CheckSpeed"
  "answer_kind st out = AnsSnapPower p \<Longrightarrow> st = SnapPower \<and> out = Power p"
  "answer_kind st out = AnsSnapBreakIn k \<Longrightarrow> st = SnapBreakIn \<and> out = BreakIn k"
  "answer_kind st out = AnsAbove p mx \<Longrightarrow> st = PowerAtMost mx \<and> out = Power p \<and> p > mx"
  "answer_kind st out = AnsStopped \<Longrightarrow> st = StepStop"
  "answer_kind st out = AnsBusy \<Longrightarrow> st = WaitReady"
  "answer_kind st out = AnsSent c \<Longrightarrow> st = Send c"
  "answer_kind st out = AnsKept \<Longrightarrow> st \<noteq> SnapPower \<and> st \<noteq> SnapBreakIn \<and> st \<noteq> StepStatus \<and> st \<noteq> CheckSpeed \<and>
     (\<forall>p. st = VerifyPower p \<longrightarrow> out = Power p) \<and> (\<forall>k. st = VerifyBreakIn k \<longrightarrow> out = BreakIn k) \<and>
     (\<forall>mx. st = PowerAtMost mx \<longrightarrow> (\<exists>p \<le> mx. out = Power p)) \<and> (\<forall>c. st \<noteq> Send c) \<and> st \<noteq> StepStop"
  by (cases st; cases out; auto simp: answer_kind_def split: if_splits)+

lemma wf_on_status:
  assumes "cw_wf send gate s" and "sup_outstanding s = None"
  shows "cw_wf send gate (on_status est m t w s)"
proof (cases "sup_activity s")
  case Arming
  with assms show ?thesis
    by (auto simp: on_status_def Let_def intro!: wf_refuse_arm wf_arming_unarmed) (auto simp: cw_wf_def)
next
  case (Sending job)
  have b: "cw_wf send gate (begin_stop StopError m' StayArmed s)" for m' using assms by (simp add: wf_begin_stop)
  have p: "cw_wf send gate (set_watchdog e (plan_chunks est op' ident first wpm (s\<lparr>sup_arm := map_option f (sup_arm s)\<rparr>)))"
    for e op' ident first wpm f
    using Sending assms by (auto simp: Let_def cw_wf_def plan_chunks_def set_watchdog_def)
  from Sending b p show ?thesis by (simp add: on_status_def Let_def)
qed (use assms in \<open>auto simp: on_status_def Let_def\<close>)

lemma wf_on_speed:
  assumes "cw_wf send gate s" and "sup_outstanding s = None"
  shows "cw_wf send gate (on_speed est m w now s)"
proof (cases "sup_activity s")
  case (Sending job)
  have b: "cw_wf send gate s' \<Longrightarrow> sup_outstanding s' = None \<Longrightarrow> cw_wf send gate (begin_stop StopError m' StayArmed s')" for m' s'
    by (simp add: wf_begin_stop)
  have r: "cw_wf send gate (replan est wpm now (s\<lparr>sup_arm := Some a\<rparr>))" for wpm a
    using Sending assms b [of "s\<lparr>sup_arm := Some a\<rparr>"] by (auto simp: replan_def Let_def cw_wf_def)
  obtain a where "sup_arm s = Some a" using Sending assms(1) by (auto simp: cw_wf_def)
  with Sending assms b [of s] r show ?thesis by (simp add: on_speed_def Let_def)
qed (use assms in \<open>auto simp: on_speed_def\<close>)

lemma wf_on_sent:
  "cw_wf send gate s \<Longrightarrow> cw_wf send gate (on_sent est c now s)"
  by (auto simp: on_sent_def Let_def cw_wf_def split: activity.splits)

lemma wf_complete:
  assumes "cw_wf send gate s0"
  shows "cw_wf send gate (cw_complete est out now s0)"
proof (cases "sup_outstanding s0")
  case (Some st)
  let ?s = "s0\<lparr>sup_outstanding := None\<rparr>"
  have s: "cw_wf send gate ?s" using assms by (auto simp: cw_wf_def split: activity.splits)
  have snap: "cw_wf send gate (?s\<lparr>sup_snap := x\<rparr>)" for x by (rule wf_frame [OF s]) simp_all
  have keep: "cw_wf send gate (?s\<lparr>sup_snap := x, sup_plan := filter P (sup_plan s0)\<rparr>)" for x P
    using snap [of x] by (auto simp: cw_wf_def list_all_iff split: activity.splits)
  have busy: "cw_wf send gate (?s\<lparr>sup_plan := WaitReady # sup_plan s0, sup_ready_retry_at := x\<rparr>)" if "st = WaitReady" for x
    using that assms Some by (auto simp: cw_wf_def setting_step_def split: activity.splits)
  have stopped: "cw_wf send gate (?s\<lparr>sup_keyed_until := x\<rparr>)" for x by (rule wf_frame [OF s]) simp_all
  show ?thesis
    unfolding complete_answer [OF Some]
    using s snap keep busy stopped
    by (cases "answer_kind st out")
      (simp_all add: Let_def wf_fail wf_on_status wf_on_speed wf_on_sent wf_begin_stop answer_kind_steps(7) split: if_split)
qed (use assms in \<open>simp add: cw_complete_def\<close>)

text \<open>
  One setting of the radio as the supervisor handles it: how a step looks to it, what the snapshot
  records of it, and its value in the radio.
\<close>

locale cw_register =
  fixes send :: cw_send_text and gate :: tx_gate_capability
    and view :: "step \<Rightarrow> 'a reg_op" and changed :: "snapshot \<Rightarrow> bool" and known :: "snapshot \<Rightarrow> 'a option"
    and cur :: "cw_radio \<Rightarrow> 'a" and x0 :: 'a and goal :: 'a
  assumes view_calm: "calm st \<Longrightarrow> view st = OpOther"
    and restore: "(changed snap \<Longrightarrow> known snap = Some x0 \<and> b) \<Longrightarrow> (\<not> changed snap \<Longrightarrow> v = Some x0) \<Longrightarrow>
      reg_ok x0 x0 (map view (restore_steps m snap)) v b ch"
    and arming: "reg_ok x0 goal (map view (arm_steps send gate)) (Some x0) b ch"
    and default: "\<not> changed snapshot_default" "known snapshot_default = None"
    and counted: "changed snap \<Longrightarrow> power_changed snap \<or> break_in_changed snap"
    and issued: "changed (mark_issued st snap) \<longleftrightarrow> changed snap \<or> (\<exists>x. view st = OpSet x)"
      "known (mark_issued st snap) = known snap"
    and snapped: "changed (snap\<lparr>snap_power := p\<rparr>) = changed snap" "changed (snap\<lparr>snap_break_in := k\<rparr>) = changed snap"
      "view SnapPower = OpSnap \<Longrightarrow> known (snap\<lparr>snap_power := Some (r_power r)\<rparr>) = Some (cur r)"
      "view SnapPower \<noteq> OpSnap \<Longrightarrow> view SnapPower = OpOther \<and> known (snap\<lparr>snap_power := p\<rparr>) = known snap"
      "view SnapBreakIn = OpSnap \<Longrightarrow> known (snap\<lparr>snap_break_in := Some (r_break_in r)\<rparr>) = Some (cur r)"
      "view SnapBreakIn \<noteq> OpSnap \<Longrightarrow> view SnapBreakIn = OpOther \<and> known (snap\<lparr>snap_break_in := k\<rparr>) = known snap"
    and only_set: "radio_answers a r out r' \<Longrightarrow> step_action st = Some a \<Longrightarrow> cur r' = cur r \<or> (\<exists>x. view st = OpSet x)"
    and verified: "radio_answers a r out r' \<Longrightarrow> step_action st = Some a \<Longrightarrow> answer_kind st out = AnsKept \<Longrightarrow>
      view st = OpVerify x \<Longrightarrow> cur r = x"
    and snaps: "view st = OpSnap \<Longrightarrow> st = SnapPower \<or> st = SnapBreakIn"
    and retain: "requires_break_in send = Some (r_break_in r) \<Longrightarrow> g = goal \<or> g = x0 \<Longrightarrow>
      (view SnapBreakIn = OpSnap \<Longrightarrow> cur r = x0) \<Longrightarrow> reg_ok x0 g (map view plan) (Some (cur r)) sn ch \<Longrightarrow>
      reg_ok x0 g (map view (filter (\<lambda>x. \<not> is_break_in_step x) plan)) (Some (cur r)) sn ch"
begin

definition snap_inv :: "snapshot \<Rightarrow> cw_radio \<Rightarrow> bool" where
  "snap_inv snap r \<longleftrightarrow> (\<not> changed snap \<longrightarrow> cur r = x0) \<and> (changed snap \<longrightarrow> known snap = Some x0) \<and>
     (known snap = None \<or> known snap = Some x0)"

definition reg_inv :: "cw_supervisor \<Rightarrow> cw_radio \<Rightarrow> bool" where
  "reg_inv s r \<longleftrightarrow>
     snap_inv (sup_snap s) r \<and>
     (\<forall>st x. sup_outstanding s = Some st \<longrightarrow> view st = OpSet x \<longrightarrow> changed (sup_snap s)) \<and>
     (sup_activity s = Idle \<and> sup_arm s = None \<longrightarrow> \<not> changed (sup_snap s)) \<and>
     (cw_waiting s \<or> reg_ok x0 (if cw_claimed s then goal else x0) (map view (pending s)) (Some (cur r))
        (known (sup_snap s) \<noteq> None) (changed (sup_snap s)))"

lemma inv_snap: "reg_inv s r \<Longrightarrow> snap_inv (sup_snap s) r"
  by (simp add: reg_inv_def)

text \<open>An armed supervisor leaves the setting alone, so the invariant says where it is.\<close>

lemma armed_inv:
  assumes "cw_wf send gate s" and "sup_arm s \<noteq> None"
  shows "reg_inv s r \<longleftrightarrow> snap_inv (sup_snap s) r \<and> cur r = goal"
proof -
  have c: "list_all calm (pending s)" "\<not> cw_waiting s" "cw_claimed s"
    using assms by (auto simp: cw_wf_def pending_def cw_waiting_def cw_claimed_def split: activity.splits option.splits)
  then have "list_all (\<lambda>y. y = OpOther) (map view (pending s))" by (auto simp: list_all_iff view_calm)
  moreover have "view st = OpOther" if "sup_outstanding s = Some st" for st
    using c(1) that by (auto simp: pending_def view_calm)
  ultimately show ?thesis
    using assms(2) c by (auto simp: reg_inv_def reg_ok_other)
qed

lemma inv_frame:
  assumes "reg_inv s r" and "sup_snap s' = sup_snap s" and "sup_outstanding s' = sup_outstanding s"
    and "sup_activity s' = sup_activity s" and "sup_plan s' = sup_plan s" and "sup_arm s' = None \<longleftrightarrow> sup_arm s = None"
  shows "reg_inv s' r"
  using assms by (simp add: reg_inv_def cw_waiting_def cw_claimed_def pending_def)

text \<open>A step that is already on its way comes before a restore.\<close>

lemma inv_restored:
  assumes "snap_inv (sup_snap s) r" and "sup_outstanding s = None \<or> reg_inv s r \<and> \<not> cw_waiting s"
    and "sup_outstanding s' = sup_outstanding s" and "sup_snap s' = sup_snap s"
    and "sup_plan s' = restore_steps m (sup_snap s)" and "sup_arm s' = None"
    and "sup_activity s' = Restoring reason ticket n e None"
  shows "reg_inv s' r"
proof -
  have i: "\<not> changed (sup_snap s) \<longrightarrow> cur r = x0" "changed (sup_snap s) \<longrightarrow> known (sup_snap s) = Some x0"
    using assms(1) by (simp_all add: snap_inv_def)
  have base: "reg_ok x0 x0 (map view (sup_plan s')) v b ch"
    if "changed (sup_snap s) \<longrightarrow> b" and "\<not> changed (sup_snap s) \<longrightarrow> v = Some x0" for v b ch
    unfolding assms(5) using that i(2) by (intro restore) auto
  have o: "view st = OpSet x \<Longrightarrow> changed (sup_snap s)" if "sup_outstanding s = Some st" for st x
    using assms(2) that by (auto simp: reg_inv_def)
  have "reg_ok x0 x0 (map view (pending s')) (Some (cur r)) (known (sup_snap s) \<noteq> None) (changed (sup_snap s))"
  proof (cases "sup_outstanding s")
    case None
    with base [of "known (sup_snap s) \<noteq> None" "Some (cur r)"] i assms(3) show ?thesis by (simp add: pending_def)
  next
    case (Some st)
    with assms(2) have "reg_inv s r" "\<not> cw_waiting s" by simp_all
    with Some have "reg_ok x0 (if cw_claimed s then goal else x0) (view st # map view (sup_plan s)) (Some (cur r))
        (known (sup_snap s) \<noteq> None) (changed (sup_snap s))"
      by (simp add: reg_inv_def pending_def)
    with Some i o assms(3) show ?thesis
      by (cases "view st") (simp_all add: pending_def base)
  qed
  with assms o show ?thesis
    by (auto simp: reg_inv_def cw_claimed_def cw_waiting_def)
qed

lemma inv_start_restore:
  assumes "reg_inv s r" and "\<not> cw_waiting s \<or> sup_outstanding s = None"
  shows "reg_inv (start_restore reason ticket s) r"
  by (rule inv_restored [of s]) (use assms in \<open>auto simp: start_restore_def plan_restore_def Let_def reg_inv_def\<close>)

lemma inv_begin_stop:
  assumes "reg_inv s r" and "cw_wf send gate s" and "sup_arm s \<noteq> None" and "sup_outstanding s = None \<or> (\<exists>job. sup_activity s = Sending job)"
  shows "reg_inv (begin_stop reason m andthen s) r"
proof (cases "\<exists>job. sup_activity s = Sending job")
  case True
  then have "sup_arm (begin_stop reason m andthen s) \<noteq> None" "sup_snap (begin_stop reason m andthen s) = sup_snap s"
    using assms(3) by (auto simp: begin_stop_def Let_def split: option.split)
  then show ?thesis
    using assms armed_inv [OF assms(2,3)] armed_inv [OF wf_begin_stop [OF assms(2)]] True by auto
next
  case False
  then have "begin_stop reason m andthen s = (case andthen of Restore r t \<Rightarrow> start_restore r t s | StayArmed \<Rightarrow> s)"
    by (auto simp: begin_stop_def split: activity.split)
  with False assms show ?thesis by (auto split: after.split intro!: inv_start_restore)
qed

lemma inv_refuse_arm:
  assumes "reg_inv s r \<or> snap_inv (sup_snap s) r \<and> sup_outstanding s = None" and "cw_wf send gate s"
    and "sup_activity s = Arming t w c cap wpm"
  shows "reg_inv (refuse_arm code m s) r"
proof (cases "power_changed (sup_snap s) \<or> break_in_changed (sup_snap s)")
  case True
  show ?thesis
    by (rule inv_restored [of s])
      (use assms True in \<open>auto simp: refuse_arm_def cw_reply_def start_restore_def plan_restore_def Let_def cw_waiting_def reg_inv_def\<close>)
next
  case False
  then have ch: "\<not> changed (sup_snap s)" using counted by blast
  have cur: "cur r = x0" using ch assms(1) by (auto simp: reg_inv_def snap_inv_def)
  have arm: "sup_arm s = None" using wf_arming_unarmed [OF assms(2,3)] .
  have "reg_ok x0 x0 [view st] (Some (cur r)) False False \<and> (\<forall>x. view st \<noteq> OpSet x)" if "sup_outstanding s = Some st" for st
    using that assms ch cur by (cases "view st") (auto simp: reg_inv_def pending_def cw_waiting_def)
  with False cur arm assms(3) show ?thesis
    by (auto simp: refuse_arm_def cw_reply_def reg_inv_def snap_inv_def default pending_def cw_claimed_def split: option.split)
qed

lemma inv_end_arm:
  assumes "reg_inv s r" and "cw_wf send gate s" and "sup_arm s \<noteq> None"
  shows "reg_inv (end_arm reason stop ticket s) r"
proof (cases "sup_activity s")
  case Idle
  with assms show ?thesis by (auto simp: end_arm_def cw_wf_def intro!: inv_start_restore)
next
  case Sending
  with assms show ?thesis by (simp add: end_arm_def inv_begin_stop)
next
  case Stopping
  then have "sup_arm (end_arm reason stop ticket s) \<noteq> None \<and> sup_snap (end_arm reason stop ticket s) = sup_snap s"
    using assms(3) by (auto simp: end_arm_def split: after.split)
  then show ?thesis
    using assms armed_inv [OF assms(2,3)] armed_inv [OF wf_end_arm [OF assms(2,3)]] by auto
qed (use assms in \<open>simp_all add: end_arm_def\<close>)

lemma inv_arm_request:
  assumes "reg_inv s r" and "cw_wf send gate s"
  shows "reg_inv (snd (cw_arm_request owner callsign cap s)) r"
proof (cases rule: arm_request_cases [OF assms(2), of owner callsign cap])
  case (2 ticket c wpm)
  then have ch: "\<not> changed (sup_snap s)" using assms(1) by (simp add: reg_inv_def)
  then have cur: "cur r = x0" using assms(1) by (simp add: reg_inv_def snap_inv_def)
  have "reg_ok x0 goal (view st # map view (arm_steps send gate)) (Some x0) False False \<and> (\<forall>x. view st \<noteq> OpSet x)"
    if "sup_outstanding s = Some st" for st
    using that assms(1) ch 2(1) by (cases "view st") (auto simp: reg_inv_def pending_def cw_waiting_def arming)
  with cur 2 show ?thesis
    by (auto simp: reg_inv_def snap_inv_def default pending_def cw_claimed_def arming split: option.split)
qed (use assms in simp)

lemma inv_send:
  assumes "reg_inv s r" and "cw_wf send gate s"
  shows "reg_inv (snd (cw_send est owner t now s)) r"
proof -
  have "sup_send_text s = Some send" using assms(2) by (simp add: cw_wf_def)
  from send_cases [OF this, of est owner t now] show ?thesis
  proof cases
    case (2 arm job)
    with assms armed_inv [of s] armed_inv [OF wf_send [OF assms(2)], of est owner t now] show ?thesis by simp
  qed (use assms in simp)
qed

lemma inv_disarm:
  assumes "reg_inv s r" and "cw_wf send gate s"
  shows "reg_inv (snd (cw_disarm owner s)) r"
proof -
  have "reg_inv (snd (take_ticket s)) r" "cw_wf send gate (snd (take_ticket s))"
    by (rule inv_frame [OF assms(1)] wf_frame [OF assms(2)]; simp add: take_ticket_def)+
  then have "reg_inv (end_arm e st t (snd (take_ticket s))) r" if "sup_arm s \<noteq> None" for e st t
    using that by (intro inv_end_arm) (simp_all add: take_ticket_def)
  with assms show ?thesis
    by (auto simp: cw_disarm_def split: option.splits activity.splits after.splits prod.splits)
qed

lemma inv_handle:
  assumes "reg_inv s r" and "cw_wf send gate s"
  shows "reg_inv (cw_handle est req now s) r"
proof (cases req)
  case ReqAbort
  have "sup_arm s \<noteq> None" if "sup_activity s = Sending job" for job using assms(2) that by (auto simp: cw_wf_def)
  with ReqAbort assms show ?thesis
    by (auto simp: cw_handle_def abort_send_def split: activity.split intro!: inv_begin_stop)
next
  case ReqDetached
  with assms show ?thesis
    by (auto simp: cw_handle_def cw_detached_def inv_end_arm inv_refuse_arm split: activity.split option.split)
next
  case ReqShutdown
  let ?s = "s\<lparr>sup_shutting_down := True\<rparr>"
  have "reg_inv ?s r" "cw_wf send gate ?s" by (rule inv_frame [OF assms(1)] wf_frame [OF assms(2)]; simp)+
  with ReqShutdown show ?thesis
    by (auto simp: cw_handle_def cw_shutdown_def Let_def inv_end_arm inv_refuse_arm split: activity.split)
next
  case ReqTakeNotices
  then show ?thesis by (auto simp: cw_handle_def take_notices_def intro: inv_frame [OF assms(1)])
qed (use assms in \<open>simp_all add: cw_handle_def inv_arm_request inv_send inv_disarm\<close>)

lemma inv_check_timers:
  assumes "reg_inv s r" and "cw_wf send gate s" and "sup_outstanding s = None"
  shows "reg_inv (check_timers now s) r"
proof -
  have "sup_arm s \<noteq> None" if "sup_activity s = Sending job" for job using assms(2) that by (auto simp: cw_wf_def)
  with assms show ?thesis
    by (auto simp: check_timers_def split: activity.split option.split intro!: inv_begin_stop inv_start_restore)
qed

lemma inv_finish:
  assumes "reg_inv s r" and "cw_wf send gate s" and "sup_outstanding s = None" and "sup_plan s = []"
  shows "reg_inv (snd (cw_finish now s)) r"
proof -
  have armed: ?thesis if "sup_arm (snd (cw_finish now s)) \<noteq> None" and "sup_snap (snd (cw_finish now s)) = sup_snap s"
    and "cur r = goal"
    using that inv_snap [OF assms(1)] armed_inv [OF wf_finish [OF assms(2-4), of now]] by simp
  have p: "pending s = []" using assms(3,4) by (simp add: pending_def)
  show ?thesis
  proof (cases "sup_activity s")
    case Idle
    then show ?thesis using assms(1) by (auto simp: cw_finish_def intro: inv_frame)
  next
    case Arming
    then have "cur r = goal" using assms(1) p by (simp add: reg_inv_def cw_waiting_def cw_claimed_def)
    with Arming show ?thesis by (intro armed) (auto simp: cw_finish_def cw_reply_def Let_def)
  next
    case Sending
    then have a: "sup_arm s \<noteq> None" using assms(2) by (auto simp: cw_wf_def)
    with assms(1) armed_inv [OF assms(2)] Sending show ?thesis
      by (intro armed) (auto simp: cw_finish_def touch_arm_def end_job_def Let_def)
  next
    case (Stopping job reason m andthen)
    then have a: "sup_arm s \<noteq> None" using assms(2) by (auto simp: cw_wf_def)
    show ?thesis
    proof (cases andthen)
      case StayArmed
      with a assms(1) armed_inv [OF assms(2)] Stopping show ?thesis
        by (intro armed) (auto simp: cw_finish_def touch_arm_def end_job_def Let_def)
    next
      case (Restore e t)
      show ?thesis
        by (rule inv_restored [of s])
          (use Restore Stopping assms in \<open>auto simp: cw_finish_def end_job_def start_restore_def plan_restore_def Let_def reg_inv_def\<close>)
    qed
  next
    case (Restoring reason ticket n e retry)
    show ?thesis
    proof (cases retry)
      case None
      then have "cur r = x0" "sup_arm s = None"
        using Restoring assms(1,2) p by (auto simp: reg_inv_def cw_waiting_def cw_claimed_def cw_wf_def)
      with None Restoring assms(3,4) show ?thesis
        by (auto simp: cw_finish_def cw_reply_def Let_def reg_inv_def snap_inv_def default pending_def cw_claimed_def
            split: option.split)
    next
      case (Some at)
      show ?thesis
      proof (cases "now \<ge> at")
        case True
        show ?thesis
          by (rule inv_restored [of s])
            (use Some True Restoring assms in \<open>auto simp: cw_finish_def plan_restore_def Let_def reg_inv_def cw_wf_def\<close>)
      next
        case False
        with Some Restoring assms(1) show ?thesis
          by (auto simp: cw_finish_def intro: inv_frame)
      qed
    qed
  qed
qed

lemma inv_new_plan:
  assumes "reg_inv s r" and "sup_outstanding s = None"
    and "reg_ok x0 (if cw_claimed s then goal else x0) (map view plan) (Some (cur r)) (known (sup_snap s) \<noteq> None) (changed (sup_snap s))"
  shows "reg_inv (s\<lparr>sup_plan := plan\<rparr>) r"
  using assms by (simp add: reg_inv_def cw_waiting_def cw_claimed_def pending_def)

lemma inv_issue:
  assumes "reg_inv s r" and "cw_wf send gate s" and "sup_outstanding s = None" and "sup_plan s = st # rest"
  shows "reg_inv (s\<lparr>sup_plan := rest, sup_snap := mark_issued st (sup_snap s), sup_outstanding := Some st\<rparr>) r"
proof -
  have ok: "cw_waiting s \<or> reg_ok x0 (if cw_claimed s then goal else x0) (view st # map view rest) (Some (cur r))
        (known (sup_snap s) \<noteq> None) (changed (sup_snap s))"
    using assms by (simp add: reg_inv_def pending_def)
  have w: "\<not> cw_waiting s" "sup_activity s = Idle \<Longrightarrow> False"
    using assms(2,4) by (auto simp: cw_wf_def cw_waiting_def split: activity.splits option.splits)
  have "known (sup_snap s) = Some x0" if "view st = OpSet x" for x
    using ok w that inv_snap [OF assms(1)] by (auto simp: snap_inv_def)
  then have "snap_inv (mark_issued st (sup_snap s)) r"
    using inv_snap [OF assms(1)] by (auto simp: snap_inv_def issued)
  with ok w show ?thesis
    by (auto simp: reg_inv_def issued pending_def cw_waiting_def cw_claimed_def elim!: reg_ok_mono)
qed

lemma inv_next:
  assumes "reg_inv s r" and "cw_wf send gate s"
  shows "reg_inv (snd (next_action now s)) r"
proof (cases "sup_outstanding s")
  case None
  have "reg_inv (snd (next_loop 64 now (check_timers now s))) r \<and> cw_wf send gate (snd (next_loop 64 now (check_timers now s)))"
  proof (rule next_loop_inv)
    show "reg_inv (check_timers now s) r \<and> cw_wf send gate (check_timers now s)"
      using assms None by (simp add: inv_check_timers wf_check_timers)
  next
    fix s rest d assume a: "reg_inv s r \<and> cw_wf send gate s" "sup_outstanding s = None" "sup_plan s = WaitKeyed d # rest"
    then have "reg_inv (s\<lparr>sup_plan := rest\<rparr>) r"
      by (auto simp: reg_inv_def pending_def view_calm cw_waiting_def cw_claimed_def)
    with a show "reg_inv (s\<lparr>sup_plan := rest\<rparr>) r \<and> cw_wf send gate (s\<lparr>sup_plan := rest\<rparr>)" by (simp add: wf_plan_tail)
  next
    fix s rest assume a: "reg_inv s r \<and> cw_wf send gate s" "sup_outstanding s = None" "sup_plan s = WaitReady # rest"
    let ?s = "s\<lparr>sup_plan := rest, sup_snap := mark_issued WaitReady (sup_snap s), sup_outstanding := Some WaitReady\<rparr>"
    let ?s' = "s\<lparr>sup_ready_retry_at := None, sup_plan := rest, sup_outstanding := Some WaitReady\<rparr>"
    have i: "reg_inv ?s r" and w: "cw_wf send gate ?s" using a inv_issue wf_issue by blast+
    have "reg_inv ?s' r" by (rule inv_frame [OF i]) (simp_all add: mark_issued_def)
    moreover have "cw_wf send gate ?s'" by (rule wf_frame [OF w]) simp_all
    ultimately show "reg_inv ?s' r \<and> cw_wf send gate ?s'" ..
  qed (use None in \<open>auto intro: inv_finish wf_finish inv_issue wf_issue\<close>)
  with None show ?thesis by (simp add: next_action_def)
qed (use assms in \<open>simp add: next_action_def\<close>)

lemma inv_fail:
  assumes "snap_inv (sup_snap s) r" and "cw_wf send gate s" and "sup_outstanding s = None"
    and "sup_arm s \<noteq> None \<or> sup_activity s = Idle \<Longrightarrow> reg_inv s r"
  shows "reg_inv (cw_fail e now s) r"
proof (cases "sup_activity s")
  case Idle
  with assms show ?thesis by (simp add: cw_fail_def)
next
  case Arming
  with assms show ?thesis by (simp add: cw_fail_def inv_refuse_arm)
next
  case Sending
  then have "sup_arm s \<noteq> None" using assms(2) by (auto simp: cw_wf_def)
  with Sending assms show ?thesis by (simp add: cw_fail_def inv_begin_stop)
next
  case Stopping
  then have a: "sup_arm s \<noteq> None" using assms(2) by (auto simp: cw_wf_def)
  then have "sup_arm (cw_fail e now s) \<noteq> None \<and> sup_snap (cw_fail e now s) = sup_snap s"
    using Stopping by (simp add: cw_fail_def)
  with a assms armed_inv [OF assms(2) a] armed_inv [OF wf_fail [OF assms(2,3)]] show ?thesis by auto
next
  case Restoring
  with assms show ?thesis
    by (auto simp: cw_fail_def cw_reply_def Let_def reg_inv_def cw_waiting_def split: option.split)
qed

text \<open>While armed the supervisor may do anything that keeps it armed and keeps the snapshot.\<close>

lemma inv_stays_armed:
  assumes "reg_inv s r" and "cw_wf send gate s" and "cw_wf send gate s'" and "sup_arm s \<noteq> None"
    and "sup_arm s' \<noteq> None" and "sup_snap s' = sup_snap s"
  shows "reg_inv s' r"
  using assms armed_inv [OF assms(2,4)] armed_inv [OF assms(3,5)] by simp

lemma begin_stop_sending:
  assumes "sup_activity s = Sending job"
  shows "sup_arm (begin_stop reason m andthen s) = None \<longleftrightarrow> sup_arm s = None"
    and "sup_snap (begin_stop reason m andthen s) = sup_snap s"
  using assms by (auto simp: begin_stop_def Let_def split: option.split)

lemma inv_on_status:
  assumes "reg_inv s r" and "cw_wf send gate s" and "sup_outstanding s = None"
  shows "reg_inv (on_status est m t w s) r"
proof (cases "sup_activity s")
  case Arming
  have "reg_inv (s\<lparr>sup_activity := Arming t' w' c' cap' wpm'\<rparr>) r" for t' w' c' cap' wpm'
    using assms(1) Arming by (simp add: reg_inv_def cw_waiting_def cw_claimed_def pending_def)
  with Arming assms show ?thesis by (simp add: on_status_def Let_def inv_refuse_arm)
next
  case (Sending job)
  have a: "sup_arm s \<noteq> None" using Sending assms(2) by (auto simp: cw_wf_def)
  have "sup_arm (on_status est m t w s) \<noteq> None \<and> sup_snap (on_status est m t w s) = sup_snap s"
    using Sending a begin_stop_sending [OF Sending]
    by (auto simp: on_status_def set_watchdog_def plan_chunks_def Let_def split: option.split)
  with a show ?thesis using inv_stays_armed [OF assms(1,2) wf_on_status [OF assms(2,3)]] by blast
qed (use assms in \<open>simp_all add: on_status_def Let_def\<close>)

lemma inv_on_speed:
  assumes "reg_inv s r" and "cw_wf send gate s" and "sup_outstanding s = None"
  shows "reg_inv (on_speed est m w now s) r"
proof (cases "sup_activity s")
  case (Sending job)
  have a: "sup_arm s \<noteq> None" using Sending assms(2) by (auto simp: cw_wf_def)
  have r: "sup_arm (replan est wpm now (s\<lparr>sup_arm := Some b\<rparr>)) \<noteq> None \<and>
      sup_snap (replan est wpm now (s\<lparr>sup_arm := Some b\<rparr>)) = sup_snap s" for wpm b
    using Sending begin_stop_sending [of "s\<lparr>sup_arm := Some b\<rparr>"] by (simp add: replan_def Let_def split: option.split)
  have "sup_arm (on_speed est m w now s) \<noteq> None \<and> sup_snap (on_speed est m w now s) = sup_snap s"
    using Sending a r begin_stop_sending [OF Sending] by (auto simp: on_speed_def Let_def)
  with a show ?thesis using inv_stays_armed [OF assms(1,2) wf_on_speed [OF assms(2,3)]] by blast
qed (use assms in \<open>simp_all add: on_speed_def\<close>)

lemma inv_complete:
  assumes i: "reg_inv s0 r" and wf: "cw_wf send gate s0" and st: "sup_outstanding s0 = Some st"
    and act: "step_action st = Some a" and ans: "radio_answers a r out r'"
  shows "reg_inv (cw_complete est out now s0) r'"
proof -
  let ?s = "s0\<lparr>sup_outstanding := None\<rparr>"
  let ?g = "if cw_claimed s0 then goal else x0"
  have wfs: "cw_wf send gate ?s" using wf by (auto simp: cw_wf_def split: activity.splits)
  have w: "\<not> cw_waiting s0"
    using wf st by (auto simp: cw_wf_def cw_waiting_def split: activity.splits option.splits)
  have ok: "reg_ok x0 ?g (view st # map view (sup_plan s0)) (Some (cur r)) (known (sup_snap s0) \<noteq> None) (changed (sup_snap s0))"
    using i w st by (simp add: reg_inv_def pending_def)
  have set: "changed (sup_snap s0)" if "view st = OpSet x" for x using i st that by (auto simp: reg_inv_def)
  have cur: "cur r' = cur r \<or> (\<exists>x. view st = OpSet x)" using only_set [OF ans act] .
  have snap: "snap_inv (sup_snap s0) r'" using inv_snap [OF i] cur set by (auto simp: snap_inv_def)
  have ok': "reg_ok x0 ?g (map view (sup_plan s0)) (Some (cur r')) (known (sup_snap s0) \<noteq> None) (changed (sup_snap s0))"
    if "\<And>x. view st = OpVerify x \<Longrightarrow> cur r = x" and "view st \<noteq> OpSnap"
    using ok cur set that by (cases "view st") (auto elim: reg_ok_mono)
  have keeps: "reg_inv ?s r'" if "\<And>x. view st = OpVerify x \<Longrightarrow> cur r = x" and "view st \<noteq> OpSnap"
    using i snap ok' [OF that] w by (auto simp: reg_inv_def pending_def cw_waiting_def cw_claimed_def)
  have calm: "reg_inv ?s r'" if "calm st" using keeps that by (simp add: view_calm)
  have fail: "reg_inv (cw_fail e now ?s) r'" for e
  proof (rule inv_fail [OF _ wfs])
    assume "sup_arm ?s \<noteq> None \<or> sup_activity ?s = Idle"
    then consider "calm st" | "sup_activity s0 = Idle" "sup_arm s0 = None"
      using wf st by (cases "sup_activity s0") (auto simp: cw_wf_def)
    then show "reg_inv ?s r'"
    proof cases
      case 2
      then have "\<not> changed (sup_snap s0)" "sup_plan s0 = []" using i wf by (auto simp: reg_inv_def cw_wf_def)
      with 2 snap show ?thesis by (auto simp: reg_inv_def pending_def cw_claimed_def snap_inv_def)
    qed (rule calm)
  qed (use snap in simp_all)
  have learnt: "reg_inv (?s\<lparr>sup_snap := snap'\<rparr>) r'" and cur': "cur r' = cur r" and orig: "view st = OpSnap \<Longrightarrow> cur r = x0"
    if "changed snap' = changed (sup_snap s0)" and "view st = OpSnap \<Longrightarrow> known snap' = Some (cur r)"
      and "view st \<noteq> OpSnap \<Longrightarrow> view st = OpOther \<and> known snap' = known (sup_snap s0)" for snap'
  proof -
    show c: "cur r' = cur r" using cur that(3) by force
    show x: "cur r = x0" if "view st = OpSnap" using ok that by simp
    have k: "known snap' = None \<or> known snap' = Some x0" "changed snap' \<longrightarrow> known snap' = Some x0"
      using that x snap by (cases "view st = OpSnap"; auto simp: snap_inv_def)+
    have "reg_ok x0 ?g (map view (sup_plan s0)) (Some (cur r')) (known snap' \<noteq> None) (changed (sup_snap s0))"
    proof (cases "view st = OpSnap")
      case True
      have "reg_ok x0 ?g (map view (sup_plan s0)) (Some (cur r)) True (changed (sup_snap s0))"
        using ok unfolding True reg_ok.simps by (rule conjunct2)
      with that(2) [OF True] c show ?thesis by simp
    next
      case False
      with ok that(3) c show ?thesis by (simp split del: if_split)
    qed
    then show "reg_inv (?s\<lparr>sup_snap := snap'\<rparr>) r'"
      using i w k snap that(1) by (auto simp: reg_inv_def snap_inv_def pending_def cw_waiting_def cw_claimed_def)
  qed
  show ?thesis
  proof (cases "answer_kind st out")
    case (AnsFail e)
    with fail show ?thesis by (simp add: complete_answer [OF st])
  next
    case AnsStatus
    then have "st = StepStatus" by (rule answer_kind_steps)
    with calm wfs AnsStatus show ?thesis by (simp add: complete_answer [OF st] inv_on_status)
  next
    case AnsSpeed
    then have "st = CheckSpeed" by (rule answer_kind_steps)
    with calm wfs AnsSpeed show ?thesis by (simp add: complete_answer [OF st] inv_on_speed)
  next
    case (AnsSnapPower p)
    with answer_kind_steps(3) act ans have p: "st = SnapPower" "p = r_power r"
      by (fastforce simp: radio_answers_def step_action_def)+
    with learnt AnsSnapPower show ?thesis by (simp add: complete_answer [OF st] snapped)
  next
    case (AnsSnapBreakIn k)
    with answer_kind_steps(4) act ans have k: "st = SnapBreakIn" "k = r_break_in r"
      by (fastforce simp: radio_answers_def step_action_def)+
    let ?snap = "(sup_snap s0)\<lparr>snap_break_in := Some k\<rparr>"
    have l: "reg_inv (?s\<lparr>sup_snap := ?snap\<rparr>) r'" and c: "cur r' = cur r" and x: "view SnapBreakIn = OpSnap \<Longrightarrow> cur r = x0"
      using learnt [of ?snap] cur' [of ?snap] orig [of ?snap] k by (simp_all add: snapped)
    have b: "r_break_in r' = k" using ans act k by (auto simp: radio_answers_def step_action_def)
    have g: "cw_claimed (?s\<lparr>sup_snap := ?snap\<rparr>) = cw_claimed s0" "\<not> cw_waiting (?s\<lparr>sup_snap := ?snap\<rparr>)"
      using w by (simp_all add: cw_claimed_def cw_waiting_def)
    then have "reg_ok x0 ?g (map view (sup_plan s0)) (Some (cur r')) (known ?snap \<noteq> None) (changed ?snap)"
      using l by (simp add: reg_inv_def pending_def)
    then have "reg_inv (?s\<lparr>sup_snap := ?snap, sup_plan := filter (\<lambda>x. \<not> is_break_in_step x) (sup_plan s0)\<rparr>) r'"
      if "requires_break_in send = Some k"
      using retain [of r' ?g "sup_plan s0" "known ?snap \<noteq> None" "changed ?snap"] that b c x
        inv_new_plan [OF l] by (simp add: g)
    with l AnsSnapBreakIn wf show ?thesis
      by (auto simp: complete_answer [OF st] Let_def cw_wf_def)
  next
    case (AnsAbove p mx)
    then have st': "st = PowerAtMost mx" using answer_kind_steps(5) by blast
    moreover have "sup_arm s0 \<noteq> None"
      using wf st st' by (cases "sup_activity s0") (auto simp: cw_wf_def setting_step_def)
    ultimately show ?thesis
      using calm wfs AnsAbove by (simp add: complete_answer [OF st] inv_begin_stop)
  next
    case AnsStopped
    then have "st = StepStop" by (rule answer_kind_steps)
    with calm have "reg_inv ?s r'" by simp
    then have "reg_inv (?s\<lparr>sup_keyed_until := x\<rparr>) r'" for x by (rule inv_frame) simp_all
    with \<open>reg_inv ?s r'\<close> AnsStopped show ?thesis by (simp add: complete_answer [OF st])
  next
    case AnsBusy
    then have "st = WaitReady" by (rule answer_kind_steps)
    with calm have "reg_inv ?s r'" by simp
    then have "reg_inv (?s\<lparr>sup_plan := WaitReady # sup_plan s0, sup_ready_retry_at := x\<rparr>) r'" for x
      by (simp add: reg_inv_def pending_def view_calm cw_waiting_def cw_claimed_def)
    with AnsBusy show ?thesis by (simp add: complete_answer [OF st])
  next
    case (AnsSent c)
    then have st': "st = Send c" by (rule answer_kind_steps)
    then have a: "sup_arm s0 \<noteq> None"
      using wf st by (cases "sup_activity s0") (auto simp: cw_wf_def setting_step_def)
    have "sup_arm (on_sent est c now ?s) \<noteq> None \<and> sup_snap (on_sent est c now ?s) = sup_snap ?s"
      using a by (auto simp: on_sent_def Let_def split: activity.split)
    with a calm st' AnsSent show ?thesis
      using inv_stays_armed [OF _ wfs wf_on_sent [OF wfs]] by (simp add: complete_answer [OF st])
  next
    case AnsKept
    with answer_kind_steps(9) have "st \<noteq> SnapPower" "st \<noteq> SnapBreakIn" by blast+
    then have "view st \<noteq> OpSnap" using snaps by blast
    with keeps verified [OF ans act AnsKept] AnsKept show ?thesis by (simp add: complete_answer [OF st])
  qed
qed

end

subsection \<open>Power and break-in\<close>

lemma views [simp]:
  "view_power SnapPower = OpSnap" "view_power (SetPower p) = OpSet p" "view_power (VerifyPower p) = OpVerify p"
  "view_power SnapBreakIn = OpOther" "view_power (SetBreakIn k) = OpOther" "view_power (VerifyBreakIn k) = OpOther"
  "view_break_in SnapBreakIn = OpSnap" "view_break_in (SetBreakIn k) = OpSet k" "view_break_in (VerifyBreakIn k) = OpVerify k"
  "view_break_in SnapPower = OpOther" "view_break_in (SetPower p) = OpOther" "view_break_in (VerifyPower p) = OpOther"
  by (simp_all add: view_power_def view_break_in_def)

lemma views_calm [simp]: "calm st \<Longrightarrow> view_power st = OpOther" "calm st \<Longrightarrow> view_break_in st = OpOther"
  by (auto simp: calm_def view_power_def view_break_in_def split: step.splits)

interpretation pw: cw_register send gate view_power power_changed snap_power r_power p0 "low_power_raw gate"
  for send gate p0
proof unfold_locales
  fix st out r r' a assume "radio_answers a r out r'" "step_action st = Some a"
  then show "r_power r' = r_power r \<or> (\<exists>x. view_power st = OpSet x)"
    by (cases st) (auto simp: radio_answers_def step_action_def)
next
  fix st out r r' a x
  assume "radio_answers a r out r'" "step_action st = Some a" "answer_kind st out = AnsKept" "view_power st = OpVerify x"
  then show "r_power r = x"
    using answer_kind_steps(9) [of st out] by (cases st) (auto simp: radio_answers_def step_action_def view_power_def)
next
  fix g r plan sn ch
  assume "reg_ok p0 g (map view_power plan) (Some (r_power r)) sn ch"
  then show "reg_ok p0 g (map view_power (filter (\<lambda>x. \<not> is_break_in_step x) plan)) (Some (r_power r)) sn ch"
    by (subst reg_ok_drop_other) (auto simp: is_break_in_step_def split: step.splits)
next
  fix st assume "view_power st = OpSnap"
  then show "st = SnapPower \<or> st = SnapBreakIn" by (simp add: view_power_def split: step.splits)
qed (auto simp: restore_steps_def arm_steps_def snapshot_default_def mark_issued_def view_power_def calm_def
      split: option.split step.splits)

definition wanted_break_in :: "cw_send_text \<Rightarrow> break_in_kind \<Rightarrow> break_in_kind" where
  "wanted_break_in send b0 = (case requires_break_in send of Some k \<Rightarrow> k | None \<Rightarrow> b0)"

interpretation bk: cw_register send gate view_break_in break_in_changed snap_break_in r_break_in b0 "wanted_break_in send b0"
  for send gate b0
proof unfold_locales
  fix st out r r' a assume "radio_answers a r out r'" "step_action st = Some a"
  then show "r_break_in r' = r_break_in r \<or> (\<exists>x. view_break_in st = OpSet x)"
    by (cases st) (auto simp: radio_answers_def step_action_def)
next
  fix st out r r' a x
  assume "radio_answers a r out r'" "step_action st = Some a" "answer_kind st out = AnsKept" "view_break_in st = OpVerify x"
  then show "r_break_in r = x"
    using answer_kind_steps(9) [of st out] by (cases st) (auto simp: radio_answers_def step_action_def view_break_in_def)
next
  fix g r plan sn ch
  assume "requires_break_in send = Some (r_break_in r)" "g = wanted_break_in send b0 \<or> g = b0"
    "view_break_in SnapBreakIn = OpSnap \<Longrightarrow> r_break_in r = b0"
  then have "g = b0" "r_break_in r = b0" by (auto simp: wanted_break_in_def)
  then show "reg_ok b0 g (map view_break_in (filter (\<lambda>x. \<not> is_break_in_step x) plan)) (Some (r_break_in r)) sn ch"
    by (auto simp: list_all_iff is_break_in_step_def view_break_in_def split: step.splits intro!: reg_ok_untouched)
next
  fix st assume "view_break_in st = OpSnap"
  then show "st = SnapPower \<or> st = SnapBreakIn" by (simp add: view_break_in_def split: step.splits)
qed (auto simp: restore_steps_def arm_steps_def snapshot_default_def mark_issued_def view_break_in_def wanted_break_in_def calm_def
      split: option.split step.splits)

lemma closed_inv:
  assumes "cw_closed est (cw_new cap config) r0 s r" and "send_text cap = Some send" and "tx_gate cap = Some gate"
  shows "cw_wf send gate s \<and> pw.reg_inv (r_power r0) gate s r \<and> bk.reg_inv (r_break_in r0) send s r"
  using assms(1)
proof induction
  case closed_start
  then show ?case
    using assms(2,3)
    by (simp add: cw_new_def cw_wf_def pw.reg_inv_def bk.reg_inv_def pw.snap_inv_def bk.snap_inv_def snapshot_default_def
        pending_def cw_claimed_def)
next
  case (closed_request s r req now)
  then show ?case by (blast intro: wf_handle pw.inv_handle bk.inv_handle)
next
  case (closed_poll s r now)
  then show ?case by (blast intro: wf_next pw.inv_next bk.inv_next)
next
  case (closed_answer s r st a out r' now)
  then have w: "cw_wf send gate s" and i: "pw.reg_inv (r_power r0) gate s r" "bk.reg_inv (r_break_in r0) send s r" by blast+
  show ?case
    using wf_complete [OF w] pw.inv_complete [OF i(1) w closed_answer.hyps(2-4)] bk.inv_complete [OF i(2) w closed_answer.hyps(2-4)]
    by simp
qed

text \<open>An action is the action of the step it leaves outstanding.\<close>

lemma next_loop_action:
  "fst (next_loop n now s) = Some a \<Longrightarrow> \<exists>st. sup_outstanding (snd (next_loop n now s)) = Some st \<and> step_action st = Some a"
proof (induction n arbitrary: s)
  case (Suc n)
  show ?case
  proof (cases "sup_plan s")
    case Nil
    with Suc show ?thesis by (cases "cw_finish now s") (auto split: if_splits)
  next
    case (Cons st rest)
    with Suc show ?thesis by (cases st) (auto simp: step_action_def split: option.splits if_splits)
  qed
qed simp

lemma sending_armed:
  assumes "cw_wf send gate s" and "sup_outstanding s = Some (Send c)"
  shows "sup_arm s \<noteq> None"
  using assms by (cases "sup_activity s") (auto simp: cw_wf_def setting_step_def)

lemma settings_restored:
  assumes "cw_closed est (cw_new cap config) r0 s r" and "send_text cap = Some send" and "tx_gate cap = Some gate"
  shows "(\<not> blocks_external_ptt s \<longrightarrow> r = r0) \<and>
    (sup_arm s \<noteq> None \<longrightarrow> r_power r = low_power_raw gate \<and>
       r_break_in r = (case requires_break_in send of Some k \<Rightarrow> k | None \<Rightarrow> r_break_in r0))"
proof -
  from closed_inv [OF assms]
  have i: "cw_wf send gate s" "pw.reg_inv (r_power r0) gate s r" "bk.reg_inv (r_break_in r0) send s r" by blast+
  have "r_power r = r_power r0 \<and> r_break_in r = r_break_in r0" if "\<not> blocks_external_ptt s"
    using that i(2,3) by (simp add: blocks_external_ptt_def pw.reg_inv_def bk.reg_inv_def pw.snap_inv_def bk.snap_inv_def)
  moreover have "r_power r = low_power_raw gate \<and> r_break_in r = wanted_break_in send (r_break_in r0)" if "sup_arm s \<noteq> None"
    using pw.armed_inv [OF i(1) that] bk.armed_inv [OF i(1) that] i(2,3) by simp
  ultimately show ?thesis by (simp add: wanted_break_in_def)
qed

lemma keys_at_clamp:
  assumes "cw_closed est (cw_new cap config) r0 s r" and "send_text cap = Some send" and "tx_gate cap = Some gate"
    and "fst (next_action now s) = Some (SendChunk t)"
  shows "sup_arm (snd (next_action now s)) \<noteq> None \<and> r_power r = low_power_raw gate \<and>
    r_break_in r = (case requires_break_in send of Some k \<Rightarrow> k | None \<Rightarrow> r_break_in r0)"
proof -
  let ?s = "snd (next_action now s)"
  from closed_inv [OF closed_poll [OF assms(1)] assms(2,3), of now]
  have i: "cw_wf send gate ?s" "pw.reg_inv (r_power r0) gate ?s r" "bk.reg_inv (r_break_in r0) send ?s r" by blast+
  from assms(4) obtain st where "sup_outstanding ?s = Some st" "step_action st = Some (SendChunk t)"
    using next_loop_action [of 64 now "check_timers now s"] by (auto simp: next_action_def split: if_splits)
  then obtain c where "sup_outstanding ?s = Some (Send c)" by (auto simp: step_action_def split: step.splits)
  with i(1) have a: "sup_arm ?s \<noteq> None" by (rule sending_armed)
  with pw.armed_inv [OF i(1) a] bk.armed_inv [OF i(1) a] i(2,3) show ?thesis by (simp add: wanted_break_in_def)
qed

subsection \<open>A sample run\<close>

text \<open>What happens to a supervisor, one thing after another.\<close>

datatype cw_event = EvRequest cw_request | EvPoll | EvAnswer cw_outcome

lemma radio_answers_code [code]:
  "radio_answers a r out r' \<longleftrightarrow>
     (case (a, out) of (ReadPower, Power p) \<Rightarrow> p = r_power r | (ReadBreakIn, BreakIn k) \<Rightarrow> k = r_break_in r | _ \<Rightarrow> True) \<and>
     (r_power r' = r_power r \<or> a = ActSetPower (r_power r')) \<and>
     (r_break_in r' = r_break_in r \<or> a = ActSetBreakIn (r_break_in r'))"
  by (auto simp: radio_answers_def split: cw_action.split cw_outcome.split)

fun closed_run :: "(ustr \<Rightarrow> u16 \<Rightarrow> duration) \<Rightarrow> (cw_event \<times> cw_radio) list \<Rightarrow> instant \<Rightarrow> cw_supervisor \<times> cw_radio \<Rightarrow>
    (cw_supervisor \<times> cw_radio) option" where
  "closed_run est [] now (s, r) = Some (s, r)"
| "closed_run est ((EvRequest req, _) # evs) now (s, r) = closed_run est evs now (cw_handle est req now s, r)"
| "closed_run est ((EvPoll, _) # evs) now (s, r) = closed_run est evs now (snd (next_action now s), r)"
| "closed_run est ((EvAnswer out, r') # evs) now (s, r) =
     (case sup_outstanding s of
        None \<Rightarrow> None
      | Some st \<Rightarrow>
          (case step_action st of
             None \<Rightarrow> None
           | Some a \<Rightarrow> if radio_answers a r out r' then closed_run est evs now (cw_complete est out now s, r') else None))"

lemma closed_run_sound:
  "closed_run est evs now (s, r) = Some (s', r') \<Longrightarrow> cw_closed est s0 r0 s r \<Longrightarrow> cw_closed est s0 r0 s' r'"
proof (induction est evs now "(s, r)" arbitrary: s r rule: closed_run.induct)
  case (4 est out r1 evs now s r)
  then show ?case by (auto split: option.splits if_splits intro: closed_answer)
qed (auto intro: cw_closed.intros)

text \<open>A keyer that takes two characters at a time, armed, and about to be sent its first chunk.\<close>

definition small_keyer :: cw_capability where
  "small_keyer = \<lparr>cw_pitch = None, pitch_writable = False, keyer_wpm = None, keyer_wpm_writable = False, cw_break_in = [BreakInFull],
     send_text = Some \<lparr>max_chunk_chars = 2, charset = ulit ''DEK'', pacing = BufferFlag, abort_kind = DrainOnly,
       requires_break_in = Some BreakInFull\<rparr>,
     tx_gate = Some \<lparr>low_power_raw = 5, low_power_label = [], power_raw_range = \<lparr>rr_min = 5, rr_max = 100\<rparr>\<rparr>\<rparr>"

definition small_config :: cw_config where
  "small_config = \<lparr>key_down_cap = 20, drain_bound = 10, idle_ttl = 50, id_interval = 50, tick = 1, pacing_margin = 1,
     watchdog_margin = 2, restore_retry = 3\<rparr>"

definition small_estimate :: "ustr \<Rightarrow> u16 \<Rightarrow> duration" where
  "small_estimate t wpm = length t"

definition small_radio :: cw_radio where
  "small_radio = \<lparr>r_power = 50, r_break_in = BreakInSemi\<rparr>"

definition arm_run :: "cw_event list" where
  "arm_run = [EvRequest (ReqArm 1 (ulit ''k'') None), EvPoll, EvAnswer (Status True False (Some 20)),
     EvPoll, EvAnswer (Power 50), EvPoll, EvAnswer (BreakIn BreakInSemi), EvPoll, EvAnswer Done,
     EvPoll, EvAnswer (Power 5), EvPoll, EvAnswer Done, EvPoll, EvAnswer (BreakIn BreakInFull), EvPoll]"

definition send_run :: "cw_event list" where
  "send_run = [EvRequest (ReqSend 1 (ulit ''ke'')), EvPoll, EvAnswer (Status True False (Some 20)),
     EvPoll, EvAnswer (Power 5), EvPoll, EvAnswer (Ready True), EvPoll, EvAnswer (Status True False (Some 20))]"

text \<open>The radio after each of them.\<close>

definition run_radios :: "cw_radio list" where
  "run_radios = replicate 8 small_radio @ replicate 4 (small_radio\<lparr>r_power := 5\<rparr>) @
     replicate 13 \<lparr>r_power = 5, r_break_in = BreakInFull\<rparr>"

definition armed_keyer :: "cw_supervisor \<times> cw_radio" where
  "armed_keyer = the (closed_run small_estimate (zip (arm_run @ send_run) run_radios) 1 (cw_new small_keyer small_config, small_radio))"

lemma armed_keyer_closed:
  "cw_closed small_estimate (cw_new small_keyer small_config) small_radio (fst armed_keyer) (snd armed_keyer)"
proof -
  have "closed_run small_estimate (zip (arm_run @ send_run) run_radios) 1 (cw_new small_keyer small_config, small_radio) \<noteq> None"
    by code_simp
  then have "closed_run small_estimate (zip (arm_run @ send_run) run_radios) 1 (cw_new small_keyer small_config, small_radio) =
      Some (fst armed_keyer, snd armed_keyer)"
    by (auto simp: armed_keyer_def)
  from closed_run_sound [OF this closed_start] show ?thesis .
qed

section \<open>Properties\<close>

text \<open>
  C4: The radio is put back. Whatever consoles request, whenever they hang up, and whichever
  exchanges fail, when the supervisor no longer refuses PTT from elsewhere the radio's power and
  break-in are what they were before anyone armed. While an arm is held they are the clamp and the
  break-in the keyer needs. The radio answers reads with its settings as they are, and nothing but the
  supervisor's own writes changes them; a write may fail or have no effect.
\<close>

theorem cw_settings_restored:
  assumes "cw_closed est (cw_new cap config) r0 s r" and "send_text cap = Some send" and "tx_gate cap = Some gate"
  shows "(\<not> blocks_external_ptt s \<longrightarrow> r = r0) \<and>
    (sup_arm s \<noteq> None \<longrightarrow> r_power r = low_power_raw gate \<and>
       r_break_in r = (case requires_break_in send of Some k \<Rightarrow> k | None \<Rightarrow> r_break_in r0))"
  using assms by (rule settings_restored)

theorem cw_settings_restored_witness:
  "sup_arm (fst armed_keyer) \<noteq> None \<and> r_power small_radio = 50 \<and> r_power (snd armed_keyer) = 5 \<and>
   r_break_in (snd armed_keyer) = BreakInFull"
proof -
  have "sup_arm (fst armed_keyer) \<noteq> None" by code_simp
  with cw_settings_restored [OF armed_keyer_closed, of "the (send_text small_keyer)" "the (tx_gate small_keyer)"]
  show ?thesis by (simp add: small_keyer_def small_radio_def)
qed

end
