(* ===== verification/Cw_Progress.thy ===== *)
theory Cw_Progress imports Cw_Safety begin

text \<open>
  The supervisor over whole histories: any requests, polls and answers in any order. Three
  invariants are carried through every operation: what may be sent is sendable (\<open>texts_ok\<close>), a
  send waits for its power check or has had it (\<open>guard_ok\<close>), and the waits in a plan are apart
  (\<open>paced\<close>). They give that nothing is keyed unchecked, that a poll never ends in a dead end, and what
  an abort does to the wire.
\<close>

section \<open>Definitions\<close>

text \<open>What of a supervisor can be seen from outside: a send it accepts, a power it is told, a chunk it has sent.\<close>

datatype cw_log = LogSend u32 | LogPower u16 | LogChunk ustr

definition cw_step :: "(ustr \<Rightarrow> u16 \<Rightarrow> duration) \<Rightarrow> cw_event \<Rightarrow> instant \<Rightarrow> cw_supervisor \<Rightarrow> cw_log list \<times> cw_supervisor" where
  "cw_step est ev now s =
     (case ev of
        EvRequest req \<Rightarrow>
          ((case req of
              ReqSend owner t \<Rightarrow> (case fst (cw_send est owner t now s) of Inr job \<Rightarrow> [LogSend job] | Inl _ \<Rightarrow> [])
            | _ \<Rightarrow> []),
           cw_handle est req now s)
      | EvPoll \<Rightarrow>
          (case next_action now s of
             (a, s') \<Rightarrow> ((case a of Some (SendChunk t) \<Rightarrow> [LogChunk t] | _ \<Rightarrow> []), s'))
      | EvAnswer out \<Rightarrow>
          ((case out of Power p \<Rightarrow> if sup_outstanding s \<noteq> None then [LogPower p] else [] | _ \<Rightarrow> []),
           cw_complete est out now s))"

fun cw_trace :: "(ustr \<Rightarrow> u16 \<Rightarrow> duration) \<Rightarrow> (cw_event \<times> instant) list \<Rightarrow> cw_supervisor \<Rightarrow> cw_log list \<times> cw_supervisor" where
  "cw_trace est [] s = ([], s)"
| "cw_trace est ((ev, now) # evs) s =
     (case cw_step est ev now s of (l, s1) \<Rightarrow> (case cw_trace est evs s1 of (ls, s2) \<Rightarrow> (l @ ls, s2)))"

section \<open>Lemmas\<close>

lemma cw_trace_append:
  "cw_trace est (evs @ evs') s =
     (case cw_trace est evs s of (l, s1) \<Rightarrow> (case cw_trace est evs' s1 of (l', s2) \<Rightarrow> (l @ l', s2)))"
  by (induction est evs s rule: cw_trace.induct) (auto split: prod.split)

subsection \<open>The guard of a send\<close>

text \<open>The power as it was last read since the last send was accepted.\<close>

definition last_power :: "cw_log list \<Rightarrow> u16 option" where
  "last_power log = fold (\<lambda>e p. case e of LogSend _ \<Rightarrow> None | LogPower q \<Rightarrow> Some q | LogChunk _ \<Rightarrow> p) log None"

lemma last_power_append:
  "last_power (log @ []) = last_power log" "last_power (log @ [LogSend j]) = None"
  "last_power (log @ [LogPower p]) = Some p" "last_power (log @ [LogChunk t]) = last_power log"
  by (simp_all add: last_power_def)

text \<open>A text in the characters the keyer sends, and a chunk the radio takes.\<close>

definition sendable :: "cw_send_text \<Rightarrow> ustr \<Rightarrow> bool" where
  "sendable send t \<longleftrightarrow> (\<forall>c \<in> set t. c = 32 \<or> c \<in> set (charset send))"

definition good_chunk :: "cw_send_text \<Rightarrow> ustr \<Rightarrow> bool" where
  "good_chunk send t \<longleftrightarrow> t \<noteq> [] \<and> length t \<le> unat (max (max_chunk_chars send) 1) \<and> sendable send t"

lemma sendable_simps [simp]:
  "sendable send (a @ b) \<longleftrightarrow> sendable send a \<and> sendable send b"
  "sendable send (32 # a) \<longleftrightarrow> sendable send a" "sendable send []"
  by (auto simp: sendable_def)

lemma good_chunks:
  assumes "sendable send t" and "c \<in> set (chunks est t (max_chunk_chars send) d wpm)"
  shows "good_chunk send c"
proof -
  have "chunk_ok (chunk_fits est (max_chunk_chars send) d wpm) c"
    using chunks_ok(1) [of est "max_chunk_chars send" d wpm t] assms(2) by (auto simp: list_all_iff)
  moreover have "1 \<le> unat (max (max_chunk_chars send) 1)"
    by (simp add: max_def word_le_nat_alt)
  ultimately have "c \<noteq> [] \<and> length c \<le> unat (max (max_chunk_chars send) 1)"
    by (auto simp: chunk_ok_def chunk_fits_def)
  moreover have "sendable send c" using chunks_chars [OF assms(2)] assms(1) by (auto simp: sendable_def)
  ultimately show ?thesis by (simp add: good_chunk_def)
qed

definition good_plan :: "cw_send_text \<Rightarrow> step list \<Rightarrow> bool" where
  "good_plan send plan \<longleftrightarrow> (\<forall>c. Send c \<in> set plan \<longrightarrow> good_chunk send (ch_text c))"

lemma good_plan_simps [simp]:
  "good_plan send []" "good_plan send (a @ b) \<longleftrightarrow> good_plan send a \<and> good_plan send b"
  "good_plan send (st # b) \<longleftrightarrow> (case st of Send c \<Rightarrow> good_chunk send (ch_text c) | _ \<Rightarrow> True) \<and> good_plan send b"
  by (auto simp: good_plan_def split: step.split)

lemma good_plan_filter: "good_plan send plan \<Longrightarrow> good_plan send (filter P plan)"
  by (auto simp: good_plan_def)

lemma good_plan_settings [simp]: "list_all setting_step plan \<Longrightarrow> good_plan send plan"
  by (auto simp: good_plan_def list_all_iff setting_step_def)

lemma good_chunk_steps:
  "(\<And>t e. (t, e) \<in> set cs \<Longrightarrow> good_chunk send t) \<Longrightarrow> good_plan send (chunk_steps send cs)"
  by (induction send cs rule: chunk_steps.induct) auto

lemma good_replan_steps:
  "(\<And>c. c \<in> set cs \<Longrightarrow> good_chunk send (ch_text c)) \<Longrightarrow> good_plan send (replan_steps send first cs)"
  by (induction send first cs rule: replan_steps.induct) auto

lemma mark_last_texts: "(t, e) \<in> set (mark_last ts) \<Longrightarrow> t \<in> set ts"
  by (induction ts rule: mark_last.induct) auto

lemma rechunk_texts: "c' \<in> set (rechunk c ts) \<Longrightarrow> ch_text c' \<in> set ts"
  by (induction c ts rule: rechunk.induct) auto

text \<open>Everything that may be sent is sendable.\<close>

definition texts_ok :: "cw_send_text \<Rightarrow> cw_supervisor \<Rightarrow> bool" where
  "texts_ok send s \<longleftrightarrow>
     good_plan send (sup_plan s) \<and>
     pred_option (\<lambda>a. sendable send (arm_callsign a)) (sup_arm s) \<and>
     (case sup_activity s of
        Arming _ _ callsign _ _ \<Rightarrow> sendable send callsign
      | Sending job \<Rightarrow> sendable send (job_operator job) \<and> pred_option (sendable send) (job_id_text job)
      | _ \<Rightarrow> True)"

lemma good_pieces:
  assumes "good_plan send (sup_plan s)" and "c \<in> set (replan_pieces est wpm send s)"
  shows "good_chunk send (ch_text c)"
proof -
  from assms(2) obtain c0 where c0: "c0 \<in> set (plan_sends (sup_plan s))"
    and c: "c \<in> set (rechunk c0 (chunks est (ch_text c0) (max_chunk_chars send) (chunk_bound send (sup_config s)) wpm))"
    by (auto simp: replan_pieces_def)
  have "Send c0 \<in> set (sup_plan s)" using c0 by (auto simp: plan_sends_def split: step.splits)
  with assms(1) have "sendable send (ch_text c0)" by (auto simp: good_plan_def good_chunk_def)
  from good_chunks [OF this rechunk_texts [OF c]] show ?thesis .
qed

lemma texts_start_restore: "texts_ok send s \<Longrightarrow> texts_ok send (start_restore reason ticket s)"
  by (simp add: texts_ok_def start_restore_def plan_restore_def Let_def)

lemma texts_begin_stop: "texts_ok send s \<Longrightarrow> texts_ok send (begin_stop reason m andthen s)"
  by (cases "\<exists>job. sup_activity s = Sending job")
    (auto simp: begin_stop_def Let_def texts_ok_def start_restore_def plan_restore_def split: option.split activity.split after.split)

lemma texts_refuse_arm: "texts_ok send s \<Longrightarrow> texts_ok send (refuse_arm code m s)"
  by (auto simp: refuse_arm_def Let_def texts_ok_def cw_reply_def start_restore_def plan_restore_def split: activity.split)

lemma texts_end_arm:
  assumes "texts_ok send s"
  shows "texts_ok send (end_arm reason stop ticket s)"
proof (cases "sup_activity s")
  case Stopping
  with assms show ?thesis by (simp add: end_arm_def texts_ok_def split: after.split)
qed (use assms in \<open>simp_all add: end_arm_def texts_begin_stop texts_start_restore\<close>)

lemma texts_fail:
  assumes "texts_ok send s"
  shows "texts_ok send (cw_fail e now s)"
proof (cases "sup_activity s")
  case Stopping
  with assms show ?thesis by (simp add: cw_fail_def texts_ok_def)
next
  case Restoring
  with assms show ?thesis by (simp add: cw_fail_def texts_ok_def cw_reply_def Let_def split: option.split)
qed (use assms in \<open>simp_all add: cw_fail_def texts_begin_stop texts_refuse_arm\<close>)

lemma texts_frame:
  assumes "texts_ok send s" and "sup_plan s' = sup_plan s" and "sup_activity s' = sup_activity s"
    and "map_option arm_callsign (sup_arm s') = map_option arm_callsign (sup_arm s)"
  shows "texts_ok send s'"
  using assms by (cases "sup_arm s"; cases "sup_arm s'") (simp_all add: texts_ok_def)

lemma sendable_upper: "rejected_char send (map to_ascii_uppercase t) = None \<Longrightarrow> sendable send (map to_ascii_uppercase t)"
  by (auto simp: rejected_char_None sendable_def)

lemma join_words_upper: "join_words (map (map to_ascii_uppercase) ws) = map to_ascii_uppercase (join_words ws)"
  by (induction ws rule: join_words.induct) (auto simp: to_ascii_uppercase_def)

lemma send_job_texts:
  assumes "send_job est send arm t now s = Inr job" and "sendable send (arm_callsign arm)" and "sendable send (ulit ''DE'')"
  shows "sendable send (job_operator job) \<and> pred_option (sendable send) (job_id_text job)"
proof -
  let ?op = "join_words (map (map to_ascii_uppercase) (split_whitespace t))"
  from assms(1) have "rejected_char send ?op = None" "job_operator job = ?op"
    "job_id_text job = None \<or> job_id_text job = Some (ulit ''DE '' @ arm_callsign arm)"
    by (auto simp: send_job_def Let_def split: if_splits option.splits)
  moreover have "sendable send (ulit ''DE '')" using assms(3) by (simp add: sendable_def ulit_def)
  ultimately show ?thesis using assms(2) sendable_upper [of send "join_words (split_whitespace t)"]
    by (auto simp: join_words_upper)
qed

text \<open>A supervisor that is not sending has nothing to send.\<close>

definition no_sends :: "step list \<Rightarrow> bool" where
  "no_sends plan \<longleftrightarrow> list_all (\<lambda>st. \<not> is_send st) plan"

definition stopped :: "cw_supervisor \<Rightarrow> bool" where
  "stopped s \<longleftrightarrow> no_sends (sup_plan s) \<and> (\<forall>job. sup_activity s \<noteq> Sending job)"

lemma no_sends_simps [simp]:
  "no_sends []" "no_sends (st # xs) \<longleftrightarrow> \<not> is_send st \<and> no_sends xs" "no_sends (xs @ ys) \<longleftrightarrow> no_sends xs \<and> no_sends ys"
  "\<not> is_send StepStop" "\<not> is_send (WaitKeyed d)" "\<not> is_send WaitReady"
  by (simp_all add: no_sends_def is_send_def)

lemma no_sends_settings [simp]: "list_all setting_step plan \<Longrightarrow> no_sends plan"
  by (auto simp: no_sends_def list_all_iff setting_step_def is_send_def split: step.splits)

lemma no_sends_filter [simp]: "no_sends plan \<Longrightarrow> no_sends (filter P plan)"
  by (auto simp: no_sends_def list_all_iff)

lemma stopped_start_restore [simp]: "stopped (start_restore reason ticket s)"
  by (simp add: stopped_def start_restore_def plan_restore_def Let_def)

lemma stopped_begin_stop:
  "stopped s \<or> (\<exists>job. sup_activity s = Sending job) \<Longrightarrow> stopped (begin_stop reason m andthen s)"
proof (cases "\<exists>job. sup_activity s = Sending job")
  case False
  then have "begin_stop reason m andthen s = (case andthen of Restore r t \<Rightarrow> start_restore r t s | StayArmed \<Rightarrow> s)"
    by (auto simp: begin_stop_def split: activity.split)
  moreover assume "stopped s \<or> (\<exists>job. sup_activity s = Sending job)"
  ultimately show ?thesis using False by (simp split: after.split)
qed (auto simp: begin_stop_def stopped_def Let_def split: option.split)

lemma stopped_refuse_arm [simp]: "stopped (refuse_arm code m s)"
  by (simp add: refuse_arm_def Let_def) (simp add: stopped_def)

lemma stopped_end_arm:
  assumes "stopped s \<or> (\<exists>job. sup_activity s = Sending job)"
  shows "stopped (end_arm reason stop ticket s)"
proof (cases "sup_activity s")
  case Stopping
  with assms show ?thesis by (auto simp: end_arm_def stopped_def split: after.split)
qed (use assms in \<open>auto simp: end_arm_def stopped_begin_stop\<close>)

lemma stopped_fail:
  assumes "stopped s \<or> (\<exists>job. sup_activity s = Sending job)"
  shows "stopped (cw_fail e now s)"
proof (cases "sup_activity s")
  case Stopping
  with assms show ?thesis by (auto simp: cw_fail_def stopped_def)
next
  case Restoring
  with assms show ?thesis by (auto simp: cw_fail_def stopped_def cw_reply_def Let_def split: option.split)
qed (use assms in \<open>auto simp: cw_fail_def stopped_begin_stop\<close>)

text \<open>A send waits for its power check, or has had it.\<close>

definition no_check :: "step list \<Rightarrow> bool" where
  "no_check xs \<longleftrightarrow> (\<forall>mx. PowerAtMost mx \<notin> set xs)"

definition guard_ok :: "u16 \<Rightarrow> cw_log list \<Rightarrow> cw_supervisor \<Rightarrow> bool" where
  "guard_ok low log s \<longleftrightarrow>
     stopped s \<or>
     (\<exists>job. sup_activity s = Sending job) \<and>
     (pending s = [StepStatus, PowerAtMost low] \<or>
      (\<exists>post. pending s = PowerAtMost low # post \<and> no_check post) \<or>
      no_check (pending s) \<and> (\<exists>p. p \<le> low \<and> last_power log = Some p))"

lemma no_check_simps [simp]:
  "no_check []" "no_check (st # xs) \<longleftrightarrow> (\<forall>mx. st \<noteq> PowerAtMost mx) \<and> no_check xs" "no_check (xs @ ys) \<longleftrightarrow> no_check xs \<and> no_check ys"
  by (auto simp: no_check_def)

lemma no_check_chunk_steps [simp]: "no_check (chunk_steps send cs)"
  by (induction send cs rule: chunk_steps.induct) simp_all

lemma no_check_replan_steps [simp]: "no_check (replan_steps send first cs)"
  by (induction send first cs rule: replan_steps.induct) simp_all

lemma guard_frame:
  assumes "guard_ok low log s" and "sup_plan s' = sup_plan s" and "sup_outstanding s' = sup_outstanding s"
    and "sup_activity s' = sup_activity s"
  shows "guard_ok low log s'"
  using assms by (simp add: guard_ok_def stopped_def pending_def)

lemma guard_stopped: "stopped s \<Longrightarrow> guard_ok low log s"
  by (simp add: guard_ok_def)

lemma guard_cases: "guard_ok low log s \<Longrightarrow> stopped s \<or> (\<exists>job. sup_activity s = Sending job)"
  by (auto simp: guard_ok_def)

text \<open>Requests.\<close>

definition callsign_ok :: "cw_send_text \<Rightarrow> cw_event \<Rightarrow> bool" where
  "callsign_ok send ev \<longleftrightarrow>
     (case ev of EvRequest (ReqArm _ callsign _) \<Rightarrow> rejected_char send (map to_ascii_uppercase callsign) = None | _ \<Rightarrow> True)"

lemma texts_request:
  assumes "texts_ok send s" and "cw_wf send gate s" and "sendable send (ulit ''DE'')" and "callsign_ok send (EvRequest req)"
  shows "texts_ok send (cw_handle est req now s)"
proof (cases req)
  case (ReqArm owner callsign cap)
  from arm_request_cases [OF assms(2), of owner callsign cap] show ?thesis
    using assms ReqArm
    by cases (simp_all add: cw_handle_def texts_ok_def callsign_ok_def sendable_upper)
next
  case (ReqSend owner t)
  have "sup_send_text s = Some send" using assms(2) by (simp add: cw_wf_def)
  from send_cases [OF this, of est owner t now] show ?thesis
  proof cases
    case (2 arm job)
    from 2(2) assms(1) have "sendable send (arm_callsign arm)" by (simp add: texts_ok_def)
    from send_job_texts [OF 2(3) this assms(3)] ReqSend 2 assms(1) show ?thesis by (simp add: cw_handle_def texts_ok_def)
  qed (use assms ReqSend in \<open>simp add: cw_handle_def\<close>)
next
  case ReqAbort
  with assms show ?thesis by (simp add: cw_handle_def abort_send_def texts_begin_stop split: activity.split)
next
  case (ReqDisarm owner)
  have "texts_ok send (snd (take_ticket s))" by (rule texts_frame [OF assms(1)]) (simp_all add: take_ticket_def)
  with ReqDisarm assms(1) show ?thesis
    by (auto simp: cw_handle_def cw_disarm_def texts_end_arm split: option.splits activity.splits after.splits prod.splits)
next
  case ReqDetached
  with assms show ?thesis
    by (simp add: cw_handle_def cw_detached_def texts_end_arm texts_refuse_arm split: activity.split option.split)
next
  case ReqShutdown
  have "texts_ok send (s\<lparr>sup_shutting_down := True\<rparr>)" by (rule texts_frame [OF assms(1)]) simp_all
  with ReqShutdown show ?thesis
    by (simp add: cw_handle_def cw_shutdown_def Let_def texts_end_arm texts_refuse_arm split: activity.split)
next
  case ReqTakeNotices
  then show ?thesis by (auto simp: cw_handle_def take_notices_def intro: texts_frame [OF assms(1)])
qed

lemma guard_request:
  assumes "guard_ok (low_power_raw gate) log s" and "cw_wf send gate s" and "cw_step est (EvRequest req) now s = (l, s')"
  shows "guard_ok (low_power_raw gate) (log @ l) s'"
proof (cases req)
  case (ReqArm owner callsign cap)
  with assms(3) have s': "s' = snd (cw_arm_request owner callsign cap s)" "l = []" by (auto simp: cw_step_def cw_handle_def)
  from arm_request_cases [OF assms(2), of owner callsign cap] show ?thesis
    by cases (use assms(1) s' in \<open>auto intro: guard_stopped simp: stopped_def\<close>)
next
  case (ReqSend owner t)
  have "sup_send_text s = Some send" "sup_gate s = Some gate" using assms(2) by (simp_all add: cw_wf_def)
  from send_cases [OF this(1), of est owner t now] show ?thesis
    by cases (use assms ReqSend \<open>sup_gate s = Some gate\<close>
        in \<open>auto simp: cw_step_def cw_handle_def guard_ok_def pending_def cw_wf_def\<close>)
next
  case ReqAbort
  with assms show ?thesis
    by (auto simp: cw_step_def cw_handle_def abort_send_def stopped_begin_stop guard_stopped split: activity.splits)
next
  case (ReqDisarm owner)
  have "stopped (end_arm r st t (snd (take_ticket s)))" for r st t
    using guard_cases [OF assms(1)] by (intro stopped_end_arm) (auto simp: take_ticket_def stopped_def)
  with ReqDisarm assms(1,3) show ?thesis
    by (auto simp: cw_step_def cw_handle_def cw_disarm_def guard_stopped split: option.splits activity.splits after.splits prod.splits)
next
  case ReqDetached
  with assms guard_cases [OF assms(1)] show ?thesis
    by (auto simp: cw_step_def cw_handle_def cw_detached_def stopped_end_arm guard_stopped split: activity.splits option.splits)
next
  case ReqShutdown
  have "stopped (end_arm r st t (s\<lparr>sup_shutting_down := True\<rparr>))" for r st t
    using guard_cases [OF assms(1)] by (intro stopped_end_arm) (auto simp: stopped_def)
  moreover have "guard_ok (low_power_raw gate) log (s\<lparr>sup_shutting_down := True\<rparr>)" by (rule guard_frame [OF assms(1)]) simp_all
  ultimately show ?thesis using ReqShutdown assms(3)
    by (auto simp: cw_step_def cw_handle_def cw_shutdown_def Let_def guard_stopped split: activity.splits if_splits)
next
  case ReqTakeNotices
  with assms(3) show ?thesis by (auto simp: cw_step_def cw_handle_def take_notices_def intro: guard_frame [OF assms(1)])
qed

text \<open>Polls.\<close>

lemma next_loop_issue:
  assumes "P s" and "sup_outstanding s = None" and "fst (next_loop n now s) = Some a"
    and fin: "\<And>s. P s \<Longrightarrow> sup_outstanding s = None \<Longrightarrow> sup_plan s = [] \<Longrightarrow> P (snd (cw_finish now s))"
    and pop: "\<And>s d rest. P s \<Longrightarrow> sup_outstanding s = None \<Longrightarrow> sup_plan s = WaitKeyed d # rest \<Longrightarrow> P (s\<lparr>sup_plan := rest\<rparr>)"
  shows "\<exists>s1 st rest. P s1 \<and> sup_outstanding s1 = None \<and> sup_plan s1 = st # rest \<and> step_action st = Some a"
  using assms(1-3)
proof (induction n arbitrary: s)
  case (Suc n)
  show ?case
  proof (cases "sup_plan s")
    case Nil
    obtain again s1 where f: "cw_finish now s = (again, s1)" by fastforce
    with fin [OF Suc.prems(1,2) Nil] outstanding_finish [of now s] Suc.prems(2) have "P s1" "sup_outstanding s1 = None" by auto
    with Suc Nil f show ?thesis by (auto split: if_splits)
  next
    case (Cons st rest)
    show ?thesis
    proof (cases st)
      case (WaitKeyed d)
      with Cons Suc.prems pop have "P (s\<lparr>sup_plan := rest\<rparr>)" by simp
      with WaitKeyed Cons Suc.prems Suc.IH [of "s\<lparr>sup_plan := rest\<rparr>"] show ?thesis by (auto split: option.splits if_splits)
    next
      case WaitReady
      with Cons Suc.prems show ?thesis by (auto simp: step_action_def split: if_splits)
    qed (use Cons Suc.prems in auto)
  qed
qed simp

lemma texts_finish:
  assumes "texts_ok send s" and "sup_plan s = []"
  shows "texts_ok send (snd (cw_finish now s))"
  using assms
  by (auto simp: cw_finish_def texts_ok_def cw_reply_def touch_arm_def end_job_def start_restore_def plan_restore_def Let_def
      option.pred_map comp_def split: activity.splits after.splits option.splits)

lemma stopped_finish: "sup_plan s = [] \<Longrightarrow> stopped (snd (cw_finish now s))"
  by (auto simp: cw_finish_def stopped_def cw_reply_def touch_arm_def end_job_def start_restore_def plan_restore_def Let_def
      split: activity.splits after.splits option.splits)

lemma texts_check_timers: "texts_ok send s \<Longrightarrow> texts_ok send (check_timers now s)"
  by (auto simp: check_timers_def texts_begin_stop texts_start_restore split: activity.split option.split)

lemma guard_check_timers: "guard_ok low log s \<Longrightarrow> guard_ok low log (check_timers now s)"
  by (auto simp: check_timers_def guard_stopped stopped_begin_stop split: activity.split option.split)

lemma guard_pop:
  assumes "guard_ok low log s" and "sup_outstanding s = None" and "sup_plan s = WaitKeyed d # rest"
  shows "guard_ok low log (s\<lparr>sup_plan := rest\<rparr>)"
  using assms by (auto simp: guard_ok_def stopped_def pending_def)

lemma guard_issue:
  assumes "guard_ok low log s" and "sup_outstanding s = None" and "sup_plan s = st # rest" and "sup_plan s' = rest"
    and "sup_outstanding s' = Some st" and "sup_activity s' = sup_activity s"
  shows "guard_ok low log s'"
  using assms by (simp add: guard_ok_def stopped_def pending_def) blast

lemma guard_sends:
  assumes "guard_ok low log s" and "sup_outstanding s = None" and "sup_plan s = Send c # rest"
  shows "\<exists>p. p \<le> low \<and> last_power log = Some p"
  using assms by (auto simp: guard_ok_def stopped_def pending_def is_send_def)

lemma texts_tail: "texts_ok send s \<Longrightarrow> sup_plan s = st # rest \<Longrightarrow> texts_ok send (s\<lparr>sup_plan := rest\<rparr>)"
  by (simp add: texts_ok_def)

definition ready_to_key :: "cw_send_text \<Rightarrow> u16 \<Rightarrow> cw_log list \<Rightarrow> cw_supervisor \<Rightarrow> bool" where
  "ready_to_key send low log s \<longleftrightarrow> texts_ok send s \<and> guard_ok low log s"

lemma ready_finish:
  "ready_to_key send low log s \<Longrightarrow> sup_plan s = [] \<Longrightarrow> ready_to_key send low log (snd (cw_finish now s))"
  by (simp add: ready_to_key_def texts_finish guard_stopped stopped_finish)

lemma ready_pop:
  "ready_to_key send low log s \<Longrightarrow> sup_outstanding s = None \<Longrightarrow> sup_plan s = WaitKeyed d # rest \<Longrightarrow>
   ready_to_key send low log (s\<lparr>sup_plan := rest\<rparr>)"
  by (simp add: ready_to_key_def texts_tail guard_pop)

lemma ready_poll:
  assumes "ready_to_key send low log s" and "cw_step est EvPoll now s = (l, s')"
  shows "ready_to_key send low (log @ l) s' \<and>
    (\<forall>t. LogChunk t \<in> set l \<longrightarrow> good_chunk send t \<and> (\<exists>p. p \<le> low \<and> last_power log = Some p))"
proof (cases "sup_outstanding s")
  case None
  let ?s = "check_timers now s"
  have i: "ready_to_key send low log ?s" "sup_outstanding ?s = None"
    using assms(1) None by (simp_all add: ready_to_key_def texts_check_timers guard_check_timers)
  have l: "l = (case fst (next_loop 64 now ?s) of Some (SendChunk t) \<Rightarrow> [LogChunk t] | _ \<Rightarrow> [])" "s' = snd (next_loop 64 now ?s)"
    using assms(2) None by (simp_all add: cw_step_def next_action_def split: prod.splits)
  have "ready_to_key send low log s'"
    unfolding l
  proof (rule next_loop_inv [where P = "ready_to_key send low log", OF i])
    fix s st rest assume a: "ready_to_key send low log s" "sup_outstanding s = None" "sup_plan s = st # rest"
    then show "ready_to_key send low log (s\<lparr>sup_plan := rest, sup_snap := mark_issued st (sup_snap s), sup_outstanding := Some st\<rparr>)"
      by (simp add: ready_to_key_def) (simp add: texts_ok_def guard_issue [OF _ a(2,3)])
  next
    fix s rest assume a: "ready_to_key send low log s" "sup_outstanding s = None" "sup_plan s = WaitReady # rest"
    then show "ready_to_key send low log (s\<lparr>sup_ready_retry_at := None, sup_plan := rest, sup_outstanding := Some WaitReady\<rparr>)"
      by (simp add: ready_to_key_def) (simp add: texts_ok_def guard_issue [OF _ a(2,3)])
  qed (simp_all add: ready_finish ready_pop)
  moreover have "last_power (log @ l) = last_power log"
    unfolding l by (auto simp: last_power_append split: option.split cw_action.split)
  then have "guard_ok low (log @ l) s' = guard_ok low log s'" by (simp add: guard_ok_def)
  moreover have "good_chunk send t \<and> (\<exists>p. p \<le> low \<and> last_power log = Some p)" if "LogChunk t \<in> set l" for t
  proof -
    from that l have "fst (next_loop 64 now ?s) = Some (SendChunk t)" by (auto split: option.splits cw_action.splits)
    from next_loop_issue [where P = "ready_to_key send low log", OF i this] obtain s1 st rest where
      s1: "ready_to_key send low log s1" "sup_outstanding s1 = None" "sup_plan s1 = st # rest" "step_action st = Some (SendChunk t)"
      using ready_finish ready_pop by blast
    from s1(4) obtain c where "st = Send c" "ch_text c = t" by (auto simp: step_action_def split: step.splits)
    with s1 guard_sends [of low log s1 c rest] show ?thesis by (simp add: ready_to_key_def texts_ok_def)
  qed
  ultimately show ?thesis by (simp add: ready_to_key_def)
qed (use assms in \<open>auto simp: cw_step_def next_action_def last_power_append\<close>)

text \<open>Answers.\<close>

lemma good_planned:
  assumes "sendable send op'" and "pred_option (sendable send) ident" and "sup_send_text s = Some send" and "good_plan send (sup_plan s)"
  shows "good_plan send (sup_plan (plan_chunks est op' ident first wpm s))"
proof -
  have "good_chunk send t" if "(t, e) \<in> set (mark_last (case ident of Some t \<Rightarrow> chunks est t (max_chunk_chars send) d wpm | None \<Rightarrow> []))" for t e d
    using mark_last_texts [OF that] assms(2) by (cases ident) (auto intro: good_chunks)
  moreover have "good_chunk send t" if "t \<in> set (chunks est op' (max_chunk_chars send) d wpm)" for t d
    using assms(1) that by (rule good_chunks)
  ultimately show ?thesis
    using assms(3,4) by (auto simp: plan_chunks_def Let_def intro!: good_chunk_steps)
qed

lemma plan_chunks_frame [simp]:
  "sup_activity (plan_chunks est op' ident first wpm s) = sup_activity s" "sup_arm (plan_chunks est op' ident first wpm s) = sup_arm s"
  "sup_outstanding (plan_chunks est op' ident first wpm s) = sup_outstanding s"
  by (simp_all add: plan_chunks_def Let_def split: option.split)

lemma texts_on_status:
  assumes "texts_ok send s" and "sup_send_text s = Some send"
  shows "texts_ok send (on_status est m t w s)"
proof (cases "sup_activity s")
  case (Sending job)
  have "texts_ok send (set_watchdog e (plan_chunks est (job_operator job) (job_id_text job) first wpm (s\<lparr>sup_arm := map_option f (sup_arm s)\<rparr>)))"
    if "\<And>a. arm_callsign (f a) = arm_callsign a" for e first wpm f
    using Sending assms that
      good_planned [of send "job_operator job" "job_id_text job" "s\<lparr>sup_arm := map_option f (sup_arm s)\<rparr>" est first wpm]
    by (simp add: texts_ok_def set_watchdog_def Let_def option.pred_map comp_def)
  with Sending assms show ?thesis by (simp add: on_status_def Let_def texts_begin_stop)
next
  case Arming
  with assms show ?thesis by (simp add: on_status_def Let_def texts_refuse_arm) (simp add: texts_ok_def)
qed (use assms in \<open>simp_all add: on_status_def Let_def\<close>)

lemma replan_cases:
  assumes "sup_activity s = Sending job" and "sup_send_text s = Some send"
  obtains m where "replan est wpm now s = begin_stop StopError (Some m) StayArmed s"
  | budget where "replan est wpm now s = s\<lparr>
       sup_plan := replan_steps send True (replan_pieces est wpm send s) @ [WaitKeyed (pacing_margin (sup_config s))],
       sup_activity := Sending (job\<lparr>job_deadline := now + budget\<rparr>)\<rparr>"
proof -
  have "(\<exists>m. replan est wpm now s = begin_stop StopError (Some m) StayArmed s) \<or>
    (\<exists>budget. replan est wpm now s = s\<lparr>
       sup_plan := replan_steps send True (replan_pieces est wpm send s) @ [WaitKeyed (pacing_margin (sup_config s))],
       sup_activity := Sending (job\<lparr>job_deadline := now + budget\<rparr>)\<rparr>)"
    unfolding replan_def assms Let_def option.case activity.case by (auto split del: if_split split: if_split)
  with that show ?thesis by blast
qed

lemma texts_on_speed:
  assumes "texts_ok send s" and "sup_send_text s = Some send"
  shows "texts_ok send (on_speed est m w now s)"
proof (cases "sup_activity s")
  case (Sending job)
  have r: "texts_ok send (replan est wpm now s')" if "texts_ok send s'" "sup_send_text s' = Some send" "sup_activity s' = Sending job" for s' wpm
  proof (cases rule: replan_cases [OF that(3,2), of est wpm now])
    case 2
    with that good_pieces [of send s' _ est wpm] show ?thesis by (auto simp: texts_ok_def intro!: good_replan_steps)
  qed (use that texts_begin_stop in simp)
  have "texts_ok send (s\<lparr>sup_arm := Some (a\<lparr>arm_wpm := wpm\<rparr>)\<rparr>)" if "sup_arm s = Some a" for a wpm
    by (rule texts_frame [OF assms(1)]) (simp_all add: that)
  with r assms Sending show ?thesis by (auto simp: on_speed_def Let_def texts_begin_stop split: option.split)
qed (use assms in \<open>simp_all add: on_speed_def\<close>)

lemma texts_on_sent: "texts_ok send s \<Longrightarrow> texts_ok send (on_sent est c now s)"
  by (auto simp: on_sent_def Let_def texts_ok_def option.pred_map comp_def split: activity.splits)

lemma texts_complete:
  assumes "texts_ok send s0" and "sup_send_text s0 = Some send"
  shows "texts_ok send (cw_complete est out now s0)"
proof (cases "sup_outstanding s0")
  case (Some st)
  let ?s = "s0\<lparr>sup_outstanding := None\<rparr>"
  have s: "texts_ok send ?s" by (rule texts_frame [OF assms(1)]) simp_all
  have keep: "texts_ok send (?s\<lparr>sup_snap := x, sup_plan := filter P (sup_plan s0)\<rparr>)" for x P
    using assms by (simp add: texts_ok_def good_plan_filter)
  have "texts_ok send (?s\<lparr>sup_snap := x\<rparr>)" "texts_ok send (?s\<lparr>sup_keyed_until := y\<rparr>)"
    "texts_ok send (?s\<lparr>sup_plan := WaitReady # sup_plan s0, sup_ready_retry_at := y\<rparr>)" for x y
    using assms by (simp_all add: texts_ok_def)
  with s keep assms(2) show ?thesis
    unfolding complete_answer [OF Some]
    by (cases "answer_kind st out")
      (simp_all add: Let_def texts_fail texts_on_status texts_on_speed texts_on_sent texts_begin_stop split: if_split)
qed (use assms in \<open>simp add: cw_complete_def\<close>)

lemma guard_planned:
  assumes "guard_ok low log s0" and "sup_activity s0 = Sending job" and "sup_outstanding s0 = Some st" and "st \<noteq> PowerAtMost low"
    and "\<exists>job'. sup_activity s = Sending job'" and "sup_outstanding s = None"
    and "sup_plan s = sup_plan s0 @ post \<or> st \<noteq> StepStatus \<and> sup_plan s = post" and "no_check post"
  shows "guard_ok low log s"
  using assms by (auto simp: guard_ok_def stopped_def pending_def)

lemma guard_answer_sending:
  assumes "guard_ok low log s0" and "sup_activity s0 = Sending job" and "sup_outstanding s0 = Some st" and "calm st"
    and "cw_step est (EvAnswer out) now s0 = (l, s')" and "sup_send_text s0 = Some send"
  shows "guard_ok low (log @ l) s'"
proof -
  let ?s = "s0\<lparr>sup_outstanding := None\<rparr>"
  have st: "stopped (begin_stop r m a ?s)" "stopped (cw_fail e now ?s)" for r m a e
    using assms(2) by (simp_all add: stopped_begin_stop stopped_fail)
  have s': "s' = cw_complete est out now s0" using assms(5) by (simp add: cw_step_def)
  have l: "last_power (log @ l) = (case out of Power p \<Rightarrow> Some p | _ \<Rightarrow> last_power log)"
    using assms(3,5) by (auto simp: cw_step_def last_power_append split: cw_outcome.splits)
  have quiet: "guard_ok low (log @ l) s'" if "guard_ok low log s'" "\<And>p. out \<noteq> Power p"
    using that l by (auto simp: guard_ok_def split: cw_outcome.splits)
  note [simp] = guard_stopped st complete_answer [OF assms(3)] s'
  note planned = guard_planned [OF assms(1-3)]
  show ?thesis
  proof (cases "answer_kind st out")
    case (AnsStatus m t w)
    then have o: "\<And>p. out \<noteq> Power p" and t: "st = StepStatus"
      by (auto simp: answer_kind_def split: step.splits cw_outcome.splits if_splits)
    have "guard_ok low log (set_watchdog e (plan_chunks est op' ident first wpm (?s\<lparr>sup_arm := f\<rparr>)))" for e op' ident first wpm f
      using assms(2) t
      by (intro planned [where post = "sup_plan (plan_chunks est op' ident first wpm (?s\<lparr>sup_plan := []\<rparr>))"])
        (auto simp: set_watchdog_def plan_chunks_def Let_def split: option.split)
    with AnsStatus assms(2) show ?thesis by (intro quiet o) (simp add: on_status_def Let_def)
  next
    case (AnsSpeed m w)
    then have o: "\<And>p. out \<noteq> Power p" and t: "st = CheckSpeed"
      by (auto simp: answer_kind_def split: step.splits cw_outcome.splits if_splits)
    have r: "guard_ok low log (replan est wpm now (?s\<lparr>sup_arm := f\<rparr>))" for wpm f
    proof -
      have "sup_activity (?s\<lparr>sup_arm := f\<rparr>) = Sending job" "sup_send_text (?s\<lparr>sup_arm := f\<rparr>) = Some send"
        using assms(2,6) by simp_all
      then show ?thesis
      proof (cases rule: replan_cases [of _ _ _ est wpm now])
        case (1 m)
        with assms(2) show ?thesis by (auto intro!: guard_stopped stopped_begin_stop)
      next
        case (2 budget)
        with t show ?thesis
          by (intro planned [where post = "replan_steps send True (replan_pieces est wpm send (?s\<lparr>sup_arm := f\<rparr>)) @
              [WaitKeyed (pacing_margin (sup_config s0))]"]) simp_all
      qed
    qed
    have k: "guard_ok low log ?s" using assms(2) t by (intro planned [where post = "[]"]) auto
    from r [of _ "sup_arm s0"] have "guard_ok low log (replan est wpm now ?s)" for wpm by simp
    with AnsSpeed assms(2) r k show ?thesis by (intro quiet o) (auto simp: on_speed_def Let_def split: option.split)
  next
    case AnsStopped
    then have o: "\<And>p. out \<noteq> Power p" and t: "st = StepStop"
      by (auto simp: answer_kind_def split: step.splits cw_outcome.splits if_splits)
    with AnsStopped assms(2) show ?thesis
      by (intro quiet o planned [where post = "[]"]) auto
  next
    case AnsBusy
    then have o: "\<And>p. out \<noteq> Power p" and t: "st = WaitReady"
      by (auto simp: answer_kind_def split: step.splits cw_outcome.splits if_splits)
    with AnsBusy assms(1-3) show ?thesis by (intro quiet o) (auto simp: guard_ok_def stopped_def pending_def)
  next
    case (AnsSent c)
    then have o: "\<And>p. out \<noteq> Power p" and t: "st = Send c"
      by (auto simp: answer_kind_def split: step.splits cw_outcome.splits if_splits)
    with AnsSent assms(2) show ?thesis
      by (intro quiet o planned [where post = "[]"])
        (auto simp: on_sent_def Let_def)
  next
    case AnsKept
    then consider "st = WaitReady" "out = Ready True" | p mx where "out = Power p" "st = PowerAtMost mx" "p \<le> mx"
      using assms(4) by (auto simp: answer_kind_def calm_def split: step.splits cw_outcome.splits if_splits)
    then show ?thesis
    proof cases
      case 1
      with AnsKept assms(2) show ?thesis by (intro quiet planned [where post = "[]"]) auto
    next
      case (2 p mx)
      with assms(1-3) have "mx = low" "no_check (sup_plan s0)" by (auto simp: guard_ok_def stopped_def pending_def)
      with 2 AnsKept assms(2) l show ?thesis by (auto simp: guard_ok_def pending_def)
    qed
  next
    case (AnsSnapPower p)
    with answer_kind_steps(3) assms(4) show ?thesis by (fastforce simp: calm_def)
  next
    case (AnsSnapBreakIn k)
    with answer_kind_steps(4) assms(4) show ?thesis by (fastforce simp: calm_def)
  qed simp_all
qed

lemma guard_answer:
  assumes "guard_ok low log s0" and "cw_wf send gate s0" and "cw_step est (EvAnswer out) now s0 = (l, s')"
  shows "guard_ok low (log @ l) s'"
proof (cases "sup_outstanding s0")
  case None
  with assms show ?thesis by (auto simp: cw_step_def cw_complete_def split: cw_outcome.splits)
next
  case (Some st)
  show ?thesis
  proof (cases "\<exists>job. sup_activity s0 = Sending job")
    case True
    with guard_answer_sending [OF assms(1) _ Some _ assms(3)] assms(2) Some show ?thesis by (auto simp: cw_wf_def)
  next
    case False
    let ?s = "s0\<lparr>sup_outstanding := None\<rparr>"
    from False assms(1) have s: "stopped ?s" by (auto simp: guard_ok_def stopped_def)
    have "stopped (on_status est m t w ?s)" "stopped (on_speed est m w now ?s)" "stopped (on_sent est c now ?s)" for m t w c
      using False s by (simp_all add: on_status_def on_speed_def on_sent_def Let_def split: activity.split) (simp_all add: stopped_def)
    moreover have "stopped (?s\<lparr>sup_snap := x\<rparr>)" "stopped (?s\<lparr>sup_snap := x, sup_plan := filter P (sup_plan s0)\<rparr>)"
      "stopped (?s\<lparr>sup_keyed_until := y\<rparr>)" "stopped (?s\<lparr>sup_plan := WaitReady # sup_plan s0, sup_ready_retry_at := y\<rparr>)" for x P y
      using s by (auto simp: stopped_def)
    ultimately have "stopped (cw_complete est out now s0)"
      unfolding complete_answer [OF Some]
      using s stopped_fail [of ?s] stopped_begin_stop [of ?s] by (cases "answer_kind st out") (simp_all add: Let_def split: if_split)
    with assms(3) show ?thesis by (simp add: cw_step_def guard_stopped)
  qed
qed

text \<open>All of them.\<close>

lemma ready_step:
  assumes "cw_wf send gate s" and "ready_to_key send (low_power_raw gate) log s" and "callsign_ok send ev"
    and "sendable send (ulit ''DE'')" and "cw_step est ev now s = (l, s')"
  shows "cw_wf send gate s' \<and> ready_to_key send (low_power_raw gate) (log @ l) s' \<and>
    (\<forall>t. LogChunk t \<in> set l \<longrightarrow> good_chunk send t \<and> (\<exists>p. p \<le> low_power_raw gate \<and> last_power log = Some p))"
proof (cases ev)
  case (EvRequest req)
  have "LogChunk t \<notin> set l" for t using assms(5) EvRequest by (auto simp: cw_step_def split: cw_request.splits sum.splits)
  moreover have "s' = cw_handle est req now s" using assms(5) EvRequest by (simp add: cw_step_def)
  ultimately show ?thesis
    using assms EvRequest texts_request [OF _ assms(1,4)] guard_request [OF _ assms(1)] wf_handle [OF assms(1)]
    by (auto simp: ready_to_key_def)
next
  case EvPoll
  with assms(5) have "s' = snd (next_action now s)" by (auto simp: cw_step_def split: prod.splits)
  with EvPoll ready_poll [OF assms(2)] assms(5) wf_next [OF assms(1)] show ?thesis by simp
next
  case (EvAnswer out)
  have "LogChunk t \<notin> set l" for t using assms(5) EvAnswer by (auto simp: cw_step_def split: cw_outcome.splits if_splits)
  moreover have "s' = cw_complete est out now s" using assms(5) EvAnswer by (simp add: cw_step_def)
  moreover have "sup_send_text s = Some send" using assms(1) by (simp add: cw_wf_def)
  ultimately show ?thesis
    using assms EvAnswer texts_complete guard_answer [OF _ assms(1)] wf_complete [OF assms(1)]
    by (auto simp: ready_to_key_def)
qed

lemma ready_trace:
  assumes "cw_trace est evs s = (log', s')" and "cw_wf send gate s" and "ready_to_key send (low_power_raw gate) log s"
    and "\<forall>(ev, now) \<in> set evs. callsign_ok send ev" and "sendable send (ulit ''DE'')"
    and "log' = pre @ LogChunk t # post"
  shows "good_chunk send t \<and> (\<exists>p. p \<le> low_power_raw gate \<and> last_power (log @ pre) = Some p)"
  using assms
proof (induction evs arbitrary: s log log' s' pre)
  case (Cons e evs)
  obtain ev now where e: "e = (ev, now)" by fastforce
  obtain l s1 where 1: "cw_step est ev now s = (l, s1)" by fastforce
  obtain ls s2 where 2: "cw_trace est evs s1 = (ls, s2)" by fastforce
  have l: "log' = l @ ls" using Cons.prems(1) e 1 2 by simp
  have i: "cw_wf send gate s1 \<and> ready_to_key send (low_power_raw gate) (log @ l) s1 \<and>
    (\<forall>t. LogChunk t \<in> set l \<longrightarrow> good_chunk send t \<and> (\<exists>p. p \<le> low_power_raw gate \<and> last_power log = Some p))"
    using ready_step [OF Cons.prems(2,3) _ Cons.prems(5) 1] Cons.prems(4) e by simp
  have len: "length l \<le> 1" using 1
    by (auto simp: cw_step_def split: cw_event.splits cw_request.splits cw_outcome.splits sum.splits prod.splits option.splits cw_action.splits if_splits)
  show ?case
  proof (cases "length l \<le> length pre")
    case True
    with l Cons.prems(6) obtain pre' where "pre = l @ pre'" "ls = pre' @ LogChunk t # post"
      by (auto simp: append_eq_append_conv2 Cons_eq_append_conv)
    with Cons.IH [OF 2, of "log @ l" pre'] i Cons.prems(4,5) show ?thesis by simp
  next
    case False
    with len have "length pre = 0" "length l = 1" by linarith+
    with l Cons.prems(6) have "l = [LogChunk t]" by (cases l) auto
    with i \<open>length pre = 0\<close> show ?thesis by simp
  qed
qed simp

subsection \<open>Progress\<close>

text \<open>Waits for the keyer are apart, so a poll passes few of them.\<close>

definition is_wait :: "step \<Rightarrow> bool" where
  "is_wait st \<longleftrightarrow> (case st of WaitKeyed _ \<Rightarrow> True | _ \<Rightarrow> False)"

fun spaced :: "step list \<Rightarrow> bool" where
  "spaced (a # b # xs) \<longleftrightarrow> \<not> (is_wait a \<and> is_wait b) \<and> spaced (b # xs)"
| "spaced _ \<longleftrightarrow> True"

definition waits :: "step list \<Rightarrow> nat" where
  "waits xs = length (filter is_wait xs)"

definition paced :: "cw_supervisor \<Rightarrow> bool" where
  "paced s \<longleftrightarrow>
     (case sup_activity s of
        Sending _ \<Rightarrow> (\<exists>p. pending s = [StepStatus, PowerAtMost p]) \<or> StepStatus \<notin> set (pending s) \<and> spaced (sup_plan s)
      | _ \<Rightarrow> waits (sup_plan s) \<le> 1)"

lemma is_wait_simps [simp]: "is_wait (WaitKeyed d)" "\<not> is_wait StepStop" "\<not> is_wait (Send c)" "\<not> is_wait CheckSpeed"
  "\<not> is_wait WaitReady" "\<not> is_wait StepStatus" "\<not> is_wait (PowerAtMost p)"
  by (simp_all add: is_wait_def)

lemma waits_simps [simp]: "waits [] = 0" "waits (st # xs) = (if is_wait st then 1 else 0) + waits xs"
  by (simp_all add: waits_def)

lemma waits_append: "waits (xs @ ys) = waits xs + waits ys"
  by (simp add: waits_def)

lemma waits_filter: "waits (filter P xs) \<le> waits xs"
  by (induction xs) (auto simp: waits_def)

lemma waits_spaced: "waits xs \<le> 1 \<Longrightarrow> spaced xs"
  by (induction xs rule: spaced.induct) (auto split: if_splits)

lemma waits_restore_steps [simp]: "waits (restore_steps m snap) = 1"
proof -
  have "waits (if b then case x of Some v \<Rightarrow> [f v, g v] | None \<Rightarrow> [] else []) = 0" if "\<And>v. \<not> is_wait (f v) \<and> \<not> is_wait (g v)"
    for b and x :: "'a option" and f g
    using that by (cases b; cases x) simp_all
  from this [of SetPower VerifyPower] this [of SetBreakIn VerifyBreakIn] show ?thesis
    by (simp only: restore_steps_def waits_append) (simp add: is_wait_def)
qed

lemma waits_arm_steps [simp]: "waits (arm_steps send gate) = 0"
  by (auto simp: arm_steps_def waits_def is_wait_def split: option.split)

lemma spaced_Cons: "spaced (a # xs) \<longleftrightarrow> spaced xs \<and> (xs = [] \<or> \<not> (is_wait a \<and> is_wait (hd xs)))"
  by (cases xs) auto

lemma spaced_chunk_steps: "spaced (chunk_steps send cs @ [WaitKeyed d])"
  by (induction send cs rule: chunk_steps.induct) (simp_all add: spaced_Cons)

lemma spaced_replan_steps: "spaced (replan_steps send first cs @ [WaitKeyed d])"
  by (induction send first cs rule: replan_steps.induct) (simp_all add: spaced_Cons)

lemma StepStatus_steps [simp]: "StepStatus \<notin> set (chunk_steps send cs)" "StepStatus \<notin> set (replan_steps send first ds)"
  by (induction send cs rule: chunk_steps.induct, simp_all) (induction send first ds rule: replan_steps.induct, simp_all)

lemma paced_frame:
  assumes "paced s" and "sup_plan s' = sup_plan s" and "sup_outstanding s' = sup_outstanding s" and "sup_activity s' = sup_activity s"
  shows "paced s'"
  using assms by (simp add: paced_def pending_def split: activity.splits)

lemma paced_start_restore [simp]: "paced (start_restore reason ticket s)"
  by (simp add: paced_def start_restore_def plan_restore_def Let_def)

lemma paced_begin_stop: "paced s \<Longrightarrow> paced (begin_stop reason m andthen s)"
proof (cases "\<exists>job. sup_activity s = Sending job")
  case False
  then have "begin_stop reason m andthen s = (case andthen of Restore r t \<Rightarrow> start_restore r t s | StayArmed \<Rightarrow> s)"
    by (auto simp: begin_stop_def split: activity.split)
  moreover assume "paced s"
  ultimately show ?thesis using False by (simp split: after.split)
qed (auto simp: begin_stop_def paced_def Let_def split: option.split)

lemma paced_refuse_arm [simp]: "paced (refuse_arm code m s)"
  by (simp add: refuse_arm_def Let_def) (simp add: paced_def)

lemma paced_end_arm:
  assumes "paced s"
  shows "paced (end_arm reason stop ticket s)"
proof (cases "sup_activity s")
  case Stopping
  with assms show ?thesis by (auto simp: end_arm_def paced_def split: after.split)
qed (use assms in \<open>auto simp: end_arm_def paced_begin_stop\<close>)

lemma paced_fail:
  assumes "paced s"
  shows "paced (cw_fail e now s)"
proof (cases "sup_activity s")
  case Stopping
  with assms show ?thesis by (auto simp: cw_fail_def paced_def)
next
  case Restoring
  with assms show ?thesis by (auto simp: cw_fail_def paced_def cw_reply_def Let_def split: option.split)
qed (use assms in \<open>auto simp: cw_fail_def paced_begin_stop\<close>)

lemma paced_request:
  assumes "paced s" and "cw_wf send gate s"
  shows "paced (cw_handle est req now s)"
proof (cases req)
  case (ReqArm owner callsign cap)
  from arm_request_cases [OF assms(2), of owner callsign cap] show ?thesis
    by cases (use assms ReqArm in \<open>simp_all add: cw_handle_def paced_def\<close>)
next
  case (ReqSend owner t)
  have "sup_send_text s = Some send" using assms(2) by (simp add: cw_wf_def)
  from send_cases [OF this, of est owner t now] show ?thesis
    by cases (use assms ReqSend in \<open>auto simp: cw_handle_def paced_def pending_def cw_wf_def\<close>)
next
  case ReqAbort
  with assms show ?thesis by (auto simp: cw_handle_def abort_send_def paced_begin_stop split: activity.splits)
next
  case (ReqDisarm owner)
  have "paced (end_arm r st t (snd (take_ticket s)))" for r st t
    by (intro paced_end_arm paced_frame [OF assms(1)]) (simp_all add: take_ticket_def)
  with ReqDisarm assms(1) show ?thesis
    by (auto simp: cw_handle_def cw_disarm_def split: option.splits activity.splits after.splits prod.splits)
next
  case ReqDetached
  with assms show ?thesis
    by (auto simp: cw_handle_def cw_detached_def paced_end_arm split: activity.splits option.splits)
next
  case ReqShutdown
  have "paced (s\<lparr>sup_shutting_down := True\<rparr>)" by (rule paced_frame [OF assms(1)]) simp_all
  with ReqShutdown show ?thesis
    by (auto simp: cw_handle_def cw_shutdown_def Let_def paced_end_arm split: activity.splits if_splits)
next
  case ReqTakeNotices
  then show ?thesis by (auto simp: cw_handle_def take_notices_def intro: paced_frame [OF assms(1)])
qed

lemma paced_check_timers: "paced s \<Longrightarrow> paced (check_timers now s)"
  by (auto simp: check_timers_def paced_begin_stop split: activity.split option.split)

lemma paced_finish: "sup_plan s = [] \<Longrightarrow> paced (snd (cw_finish now s))"
  by (auto simp: cw_finish_def paced_def cw_reply_def touch_arm_def end_job_def start_restore_def plan_restore_def Let_def
      split: activity.splits after.splits option.splits)

lemma paced_pop:
  assumes "paced s" and "sup_outstanding s = None" and "sup_plan s = WaitKeyed d # rest"
  shows "paced (s\<lparr>sup_plan := rest\<rparr>)"
  using assms by (auto simp: paced_def pending_def spaced_Cons split: activity.splits)

lemma paced_issue:
  assumes "paced s" and "sup_outstanding s = None" and "sup_plan s = st # rest" and "sup_plan s' = rest"
    and "sup_outstanding s' = Some st" and "sup_activity s' = sup_activity s"
  shows "paced s'"
  using assms by (auto simp: paced_def pending_def spaced_Cons split: activity.splits if_splits)

lemma paced_next:
  assumes "paced s"
  shows "paced (snd (next_action now s))"
proof (cases "sup_outstanding s")
  case None
  have "paced (snd (next_loop 64 now (check_timers now s)))"
  proof (rule next_loop_inv [where P = paced])
    fix s st rest assume a: "paced s" "sup_outstanding s = None" "sup_plan s = st # rest"
    show "paced (s\<lparr>sup_plan := rest, sup_snap := mark_issued st (sup_snap s), sup_outstanding := Some st\<rparr>)"
      by (rule paced_issue [OF a]) simp_all
  next
    fix s rest assume a: "paced s" "sup_outstanding s = None" "sup_plan s = WaitReady # rest"
    show "paced (s\<lparr>sup_ready_retry_at := None, sup_plan := rest, sup_outstanding := Some WaitReady\<rparr>)"
      by (rule paced_issue [OF a]) simp_all
  qed (use assms None in \<open>simp_all add: paced_check_timers paced_finish paced_pop\<close>)
  with None show ?thesis by (simp add: next_action_def)
qed (use assms in \<open>simp add: next_action_def\<close>)

lemma paced_answer_sending:
  assumes "paced s0" and "sup_activity s0 = Sending job" and "sup_outstanding s0 = Some st" and "calm st" and "sup_send_text s0 = Some send"
  shows "paced (cw_complete est out now s0)"
proof -
  let ?s = "s0\<lparr>sup_outstanding := None\<rparr>"
  have st: "paced (begin_stop r m a s')" "paced (cw_fail e now s')" if "sup_activity s' = Sending job" for r m a e s'
    using that by (auto simp: begin_stop_def cw_fail_def paced_def Let_def split: option.split)
  note [simp] = complete_answer [OF assms(3)]
  have kept: "paced s'" if "st \<noteq> StepStatus" "sup_activity s' = Sending j" "sup_outstanding s' = None" "sup_plan s' = sup_plan s0" for s' j
    using that assms(1-3) by (auto simp: paced_def pending_def)
  show ?thesis
  proof (cases "answer_kind st out")
    case (AnsStatus m t w)
    then have "st = StepStatus" by (rule answer_kind_steps)
    then obtain p where p: "sup_plan s0 = [PowerAtMost p]" using assms(1-3) by (auto simp: paced_def pending_def)
    have "paced (set_watchdog e (plan_chunks est op' ident first wpm (?s\<lparr>sup_arm := f\<rparr>)))" for e op' ident first wpm f
      using p assms(2,5) spaced_chunk_steps
      by (auto simp: set_watchdog_def plan_chunks_def Let_def paced_def pending_def spaced_Cons)
    with AnsStatus assms(2) st [of ?s] show ?thesis by (simp add: on_status_def Let_def)
  next
    case (AnsSpeed m w)
    then have t: "st = CheckSpeed" by (rule answer_kind_steps)
    have "paced (replan est wpm now s')" if "sup_activity s' = Sending job" "sup_send_text s' = Some send" "sup_outstanding s' = None" for wpm s'
    proof (cases rule: replan_cases [OF that(1,2), of est wpm now])
      case (2 budget)
      with that spaced_replan_steps show ?thesis by (simp add: paced_def pending_def)
    qed (use st that in simp)
    with AnsSpeed assms(2,5) st [of ?s] kept [of ?s job] t show ?thesis by (auto simp: on_speed_def Let_def split: option.split)
  next
    case AnsStopped
    with answer_kind_steps(6) [OF AnsStopped] assms(2) kept show ?thesis by auto
  next
    case AnsBusy
    with answer_kind_steps(7) [OF AnsBusy] assms(1-3) show ?thesis by (auto simp: paced_def pending_def spaced_Cons)
  next
    case (AnsSent c)
    with answer_kind_steps(8) [OF AnsSent] assms(2) kept show ?thesis by (auto simp: on_sent_def Let_def)
  next
    case AnsKept
    with answer_kind_steps(9) [OF AnsKept] assms(2) kept show ?thesis by auto
  next
    case (AnsSnapPower p)
    with answer_kind_steps(3) assms(4) show ?thesis by (fastforce simp: calm_def)
  next
    case (AnsSnapBreakIn k)
    with answer_kind_steps(4) assms(4) show ?thesis by (fastforce simp: calm_def)
  qed (use assms(2) st in simp_all)
qed

lemma paced_complete:
  assumes "paced s0" and "cw_wf send gate s0"
  shows "paced (cw_complete est out now s0)"
proof (cases "sup_outstanding s0")
  case None
  with assms show ?thesis by (simp add: cw_complete_def)
next
  case (Some st)
  show ?thesis
  proof (cases "\<exists>job. sup_activity s0 = Sending job")
    case True
    with paced_answer_sending [OF assms(1) _ Some] assms(2) Some show ?thesis by (auto simp: cw_wf_def)
  next
    case False
    let ?s = "s0\<lparr>sup_outstanding := None\<rparr>"
    from False have act: "paced s' \<longleftrightarrow> waits (sup_plan s') \<le> 1" if "sup_activity s' = sup_activity s0" for s'
      using that by (auto simp: paced_def split: activity.split)
    from act [of ?s] act [of s0] assms(1) have s: "paced ?s" by simp
    have "paced (on_status est m t w ?s)" "paced (on_speed est m w now ?s)" "paced (on_sent est c now ?s)" for m t w c
      using False s by (simp_all add: on_status_def on_speed_def on_sent_def Let_def split: activity.split)
        (auto simp: paced_def split: activity.splits)
    moreover have "paced (?s\<lparr>sup_snap := x\<rparr>)" "paced (?s\<lparr>sup_snap := x, sup_plan := filter P (sup_plan s0)\<rparr>)"
      "paced (?s\<lparr>sup_keyed_until := y\<rparr>)" "paced (?s\<lparr>sup_plan := WaitReady # sup_plan s0, sup_ready_retry_at := y\<rparr>)" for x P y
      using s waits_filter [of P "sup_plan s0"] by (simp_all add: act)
    ultimately show ?thesis
      unfolding complete_answer [OF Some]
      using s by (cases "answer_kind st out") (simp_all add: Let_def paced_fail paced_begin_stop split: if_split)
  qed
qed

text \<open>A supervisor with nothing to do now: it has finished, or it waits for an instant that will come.\<close>

definition waiting_until :: "instant \<Rightarrow> cw_supervisor \<Rightarrow> bool" where
  "waiting_until t s \<longleftrightarrow>
     (case sup_plan s of
        WaitKeyed margin # _ \<Rightarrow> (\<exists>k. sup_keyed_until s = Some k \<and> t = k + margin)
      | WaitReady # _ \<Rightarrow> sup_ready_retry_at s = Some t
      | [] \<Rightarrow> (\<exists>reason ticket n e. sup_activity s = Restoring reason ticket n e (Some t))
      | _ \<Rightarrow> False)"

definition loop_rank :: "cw_supervisor \<Rightarrow> nat" where
  "loop_rank s =
     (case sup_activity s of
        Sending _ \<Rightarrow> 2 | Stopping _ _ _ _ \<Rightarrow> 2 | Restoring _ _ _ _ (Some _) \<Rightarrow> 2 | _ \<Rightarrow> 0) +
     (case sup_plan s of st # _ \<Rightarrow> if is_wait st then 1 else 0 | [] \<Rightarrow> 0)"

lemma paced_spaced: "paced s \<Longrightarrow> sup_outstanding s = None \<Longrightarrow> spaced (sup_plan s)"
  by (auto simp: paced_def pending_def waits_spaced split: activity.splits)

lemma next_loop_progress:
  assumes "paced s" and "sup_outstanding s = None" and "loop_rank s < n" and "fst (next_loop n now s) = None"
  shows "(sup_activity (snd (next_loop n now s)) = Idle \<and> sup_plan (snd (next_loop n now s)) = []) \<or>
    (\<exists>t. now < t \<and> waiting_until t (snd (next_loop n now s)))"
  using assms
proof (induction n arbitrary: s)
  case (Suc n)
  show ?case
  proof (cases "sup_plan s")
    case Nil
    obtain again s1 where f: "cw_finish now s = (again, s1)" by fastforce
    have o: "sup_outstanding s1 = None" "paced s1"
      using outstanding_finish [of now s] paced_finish [OF Nil, of now] Suc.prems(2) f by simp_all
    show ?thesis
    proof (cases again)
      case True
      with f have "loop_rank s1 < loop_rank s" using Nil
        by (auto simp: cw_finish_def loop_rank_def touch_arm_def end_job_def start_restore_def plan_restore_def Let_def is_wait_def
            restore_steps_def split: activity.splits option.splits after.splits if_splits)
      with o True f Nil Suc show ?thesis by simp
    next
      case False
      with f Nil Suc.prems show ?thesis
        by (auto simp: cw_finish_def waiting_until_def cw_reply_def Let_def split: activity.splits option.splits after.splits if_splits)
    qed
  next
    case (Cons st rest)
    show ?thesis
    proof (cases st)
      case (WaitKeyed d)
      have p: "paced (s\<lparr>sup_plan := rest\<rparr>)" using paced_pop Suc.prems Cons WaitKeyed by blast
      have "\<not> is_wait a" if "rest = a # r" for a r
        using paced_spaced [OF Suc.prems(1,2)] Cons WaitKeyed that by simp
      then have "loop_rank (s\<lparr>sup_plan := rest\<rparr>) < loop_rank s" using Cons WaitKeyed by (auto simp: loop_rank_def split: list.split)
      with p Suc.IH [of "s\<lparr>sup_plan := rest\<rparr>"] Suc.prems Cons WaitKeyed show ?thesis
        by (auto simp: waiting_until_def split: option.splits if_splits)
    next
      case WaitReady
      with Cons Suc.prems show ?thesis by (auto simp: waiting_until_def split: option.splits if_splits)
    qed (use Cons Suc.prems in \<open>auto simp: step_action_def\<close>)
  qed
qed simp

lemma trace_inv:
  assumes "cw_trace est evs s = (log, s')" and "cw_wf send gate s" and "paced s"
  shows "cw_wf send gate s' \<and> paced s'"
  using assms
proof (induction evs arbitrary: s log)
  case (Cons e evs)
  obtain ev now where e: "e = (ev, now)" by fastforce
  obtain l s1 where 1: "cw_step est ev now s = (l, s1)" by fastforce
  have "cw_wf send gate s1 \<and> paced s1"
  proof (cases ev)
    case EvPoll
    with 1 have "s1 = snd (next_action now s)" by (simp add: cw_step_def split: prod.splits)
    with wf_next [OF Cons.prems(2)] paced_next [OF Cons.prems(3)] show ?thesis by simp
  next
    case (EvRequest req)
    with 1 have "s1 = cw_handle est req now s" by (simp add: cw_step_def)
    with wf_handle [OF Cons.prems(2)] paced_request [OF Cons.prems(3,2)] show ?thesis by simp
  next
    case (EvAnswer out)
    with 1 have "s1 = cw_complete est out now s" by (simp add: cw_step_def)
    with wf_complete [OF Cons.prems(2)] paced_complete [OF Cons.prems(3,2)] show ?thesis by simp
  qed
  with Cons e 1 show ?case by (auto split: prod.splits)
qed simp

lemma new_inv:
  assumes "send_text cap = Some send" and "tx_gate cap = Some gate"
  shows "cw_wf send gate (cw_new cap config)" "paced (cw_new cap config)" "ready_to_key send low [] (cw_new cap config)"
  using assms by (simp_all add: cw_new_def cw_wf_def paced_def ready_to_key_def texts_ok_def guard_ok_def stopped_def)

text \<open>A stop that is first in the plan is the next action; one that is not in the plan is not.\<close>

lemma next_loop_pos:
  "0 < n \<Longrightarrow> sup_plan s = StepStop # rest \<Longrightarrow> fst (next_loop n now s) = Some ActStop"
  "0 < n \<Longrightarrow> sup_plan s = WaitReady # rest \<Longrightarrow> fst (next_loop n now s) \<noteq> Some ActStop"
  by (cases n; simp add: step_action_def)+

lemma stop_not_restored: "StepStop \<notin> set (restore_steps m snap)"
  using setting_restore_steps [of m snap] by (auto simp: list_all_iff setting_step_def)

lemma next_no_stop:
  assumes "sup_outstanding s = None" and "StepStop \<notin> set (sup_plan s)"
  shows "fst (next_loop n now s) \<noteq> Some ActStop"
proof
  assume a: "fst (next_loop n now s) = Some ActStop"
  have fin: "StepStop \<notin> set (sup_plan (snd (cw_finish now s)))" if "sup_plan s = []" for s
    using that by (auto simp: cw_finish_def cw_reply_def touch_arm_def end_job_def start_restore_def plan_restore_def stop_not_restored Let_def
        split: activity.splits after.splits option.splits)
  have pop: "StepStop \<notin> set (sup_plan (s\<lparr>sup_plan := rest\<rparr>))"
    if "StepStop \<notin> set (sup_plan s)" "sup_plan s = WaitKeyed d # rest" for s :: cw_supervisor and d rest
    using that by simp
  have "\<exists>(s1 :: cw_supervisor) st rest. StepStop \<notin> set (sup_plan s1) \<and> sup_outstanding s1 = None \<and> sup_plan s1 = st # rest \<and> step_action st = Some ActStop"
    by (rule next_loop_issue [where P = "\<lambda>s. StepStop \<notin> set (sup_plan s)" and s = s and n = n and now = now])
      (use assms a fin pop in blast)+
  then obtain s1 :: cw_supervisor and st rest where "StepStop \<notin> set (sup_plan s1)" "sup_plan s1 = st # rest" "step_action st = Some ActStop" by blast
  then show False by (cases st) (simp_all add: step_action_def)
qed

lemma small_keyer_sends:
  "send_text small_keyer = Some (the (send_text small_keyer))" "tx_gate small_keyer = Some (the (tx_gate small_keyer))"
  by (simp_all add: small_keyer_def)

section \<open>Properties\<close>

text \<open>
  C7: Nothing is keyed unchecked. Whatever consoles request and whatever the radio answers, when a
  chunk is handed to the radio its power has been read since the send was accepted, and the last
  reading was at or below the clamp. The chunk is not empty, not longer than the radio takes, and
  in the characters its keyer sends. This is for consoles whose callsigns have been validated and
  a keyer that can send \<^verbatim>\<open>DE\<close>.
\<close>

theorem cw_send_guarded:
  assumes "cw_trace est evs (cw_new cap config) = (pre @ LogChunk t # post, s)"
    and "send_text cap = Some send" and "tx_gate cap = Some gate"
    and "\<forall>(ev, now) \<in> set evs. callsign_ok send ev" and "sendable send (ulit ''DE'')"
  shows "(\<exists>p. last_power pre = Some p \<and> p \<le> low_power_raw gate) \<and> t \<noteq> [] \<and>
    length t \<le> unat (max (max_chunk_chars send) 1) \<and> sendable send t"
  using ready_trace [OF assms(1) new_inv(1) [OF assms(2,3)] new_inv(3) [OF assms(2,3)] assms(4,5) refl]
  by (auto simp: good_chunk_def)

theorem cw_send_guarded_witness:
  "let evs = map (\<lambda>ev. (ev, 1)) (arm_run @ send_run @ [EvPoll])
   in fst (cw_trace small_estimate evs (cw_new small_keyer small_config)) =
        [LogPower 50, LogPower 5, LogSend 1, LogPower 5, LogChunk (ulit ''KE'')] \<and>
      (\<exists>p. last_power [LogPower 50, LogPower 5, LogSend 1, LogPower 5] = Some p \<and> p \<le> 5)"
proof -
  let ?evs = "map (\<lambda>ev. (ev, 1)) (arm_run @ send_run @ [EvPoll])" and ?send = "the (send_text small_keyer)"
  let ?run = "cw_trace small_estimate ?evs (cw_new small_keyer small_config)" and ?pre = "[LogPower 50, LogPower 5, LogSend 1, LogPower 5]"
  have l: "fst ?run = ?pre @ [LogChunk (ulit ''KE'')]" by code_simp
  have c: "\<forall>(ev, now) \<in> set ?evs. callsign_ok ?send ev" by code_simp
  have d: "sendable ?send (ulit ''DE'')" by code_simp
  have low: "low_power_raw (the (tx_gate small_keyer)) = 5" by (simp add: small_keyer_def)
  have "?run = (?pre @ LogChunk (ulit ''KE'') # [], snd ?run)" unfolding l [symmetric] by (rule surjective_pairing)
  from cw_send_guarded [OF this small_keyer_sends c d] have "\<exists>p. last_power ?pre = Some p \<and> p \<le> 5" unfolding low by blast
  with l show ?thesis unfolding Let_def append.simps by blast
qed

text \<open>
  C19: A poll that gives the radio nothing to do, with no exchange in flight, is never a dead end, and
  never the end of the loop's allowance: the supervisor is idle, or it waits for an instant that is still to come.
\<close>

theorem cw_never_stuck:
  assumes "cw_trace est evs (cw_new cap config) = (log, s)" and "send_text cap = Some send" and "tx_gate cap = Some gate"
    and "sup_outstanding s = None" and "next_action now s = (None, s')"
  shows "sup_activity s' = Idle \<and> sup_plan s' = [] \<or> (\<exists>t. now < t \<and> waiting_until t s')"
proof -
  have i: "paced s" using trace_inv [OF assms(1) new_inv(1,2) [OF assms(2,3)]] by simp
  have "loop_rank (check_timers now s) < 64" by (simp add: loop_rank_def split: activity.split option.split list.split)
  from next_loop_progress [OF paced_check_timers [OF i] _ this, of now] assms(4,5) show ?thesis
    by (auto simp: next_action_def)
qed

theorem cw_never_stuck_witness:
  "let evs = map (\<lambda>ev. (ev, 1)) (arm_run @ send_run @ [EvPoll, EvAnswer Done]);
       s = snd (cw_trace small_estimate evs (cw_new small_keyer small_config))
   in fst (next_action 2 s) = None \<and> (\<exists>t. 2 < t \<and> waiting_until t (snd (next_action 2 s)))"
proof -
  let ?evs = "map (\<lambda>ev. (ev, 1)) (arm_run @ send_run @ [EvPoll, EvAnswer Done])"
  let ?s = "snd (cw_trace small_estimate ?evs (cw_new small_keyer small_config))"
  have s: "sup_outstanding ?s = None" "fst (next_action 2 ?s) = None" "sup_plan (snd (next_action 2 ?s)) \<noteq> []" by code_simp+
  then have "next_action 2 ?s = (None, snd (next_action 2 ?s))" by (metis prod.collapse)
  from cw_never_stuck [OF surjective_pairing small_keyer_sends s(1) this] s(2,3) show ?thesis by (simp add: Let_def)
qed

text \<open>
  C17: What an abort does to the wire. With no exchange in flight, the stop is the very next action,
  and so it is after the exchange in flight has been answered, with three exceptions: an exchange that
  fails takes the stop out of the plan, a power reading above the clamp replaces it by the
  restoration, and a keyer that answers that it is busy is polled again before it.
\<close>

theorem cw_abort_exact:
  assumes "cw_trace est evs (cw_new cap config) = (log, s)" and "send_text cap = Some send" and "tx_gate cap = Some gate"
    and "sup_activity s = Sending job"
  shows "case sup_outstanding s of
      None \<Rightarrow> fst (next_action now (abort_send s)) = Some ActStop
    | Some st \<Rightarrow> fst (next_action now (cw_complete est out t (abort_send s))) = Some ActStop \<longleftrightarrow>
        (case answer_kind st out of AnsFail _ \<Rightarrow> False | AnsAbove _ _ \<Rightarrow> False | AnsBusy \<Rightarrow> False | _ \<Rightarrow> True)"
proof -
  let ?s = "abort_send s"
  have w: "cw_wf send gate s" using trace_inv [OF assms(1) new_inv(1,2) [OF assms(2,3)]] by simp
  obtain j r m where s: "sup_activity ?s = Stopping j r m StayArmed" "sup_outstanding ?s = sup_outstanding s"
    "sup_plan ?s = [StepStop, WaitKeyed (pacing_margin (sup_config s))]"
    using assms(4) by (auto simp: abort_send_def begin_stop_def Let_def split: option.split)
  have check: "check_timers now s' = s'" if "sup_activity s' = Stopping j r m a" for s' a
    using that by (simp add: check_timers_def)
  show ?thesis
  proof (cases "sup_outstanding s")
    case None
    with s check show ?thesis by (simp add: next_action_def next_loop_pos)
  next
    case (Some st)
    let ?s1 = "?s\<lparr>sup_outstanding := None\<rparr>"
    have o: "sup_outstanding ?s = Some st" using s Some by simp
    have kept: "fst (next_action now s') = Some ActStop"
      if "sup_activity s' = Stopping j r m StayArmed" "sup_outstanding s' = None" "sup_plan s' = sup_plan ?s" for s'
      using that s check [of s'] by (simp add: next_action_def next_loop_pos)
    have calm: "calm st" using w assms(4) Some by (simp add: cw_wf_def)
    note [simp] = complete_answer [OF o] Some
    show ?thesis
    proof (cases "answer_kind st out")
      case (AnsFail e)
      have "check_timers now (cw_fail e t ?s1) = cw_fail e t ?s1" "sup_outstanding (cw_fail e t ?s1) = None"
        "StepStop \<notin> set (sup_plan (cw_fail e t ?s1))"
        using s by (auto simp: cw_fail_def check_timers_def)
      with AnsFail next_no_stop show ?thesis by (simp add: next_action_def)
    next
      case (AnsAbove p mx)
      let ?r = "begin_stop StopError (Some (CwPowerAbove p mx)) (Restore DisPowerAboveClamp None) ?s1"
      have "check_timers now ?r = ?r" "sup_outstanding ?r = None" "StepStop \<notin> set (sup_plan ?r)"
        using s by (auto simp: begin_stop_def start_restore_def plan_restore_def stop_not_restored Let_def check_timers_def)
      with AnsAbove next_no_stop show ?thesis by (simp add: next_action_def)
    next
      case AnsBusy
      with s show ?thesis by (simp add: next_action_def check_timers_def next_loop_pos)
    next
      case (AnsSnapPower p)
      with answer_kind_steps(3) calm show ?thesis by (fastforce simp: calm_def)
    next
      case (AnsSnapBreakIn k)
      with answer_kind_steps(4) calm show ?thesis by (fastforce simp: calm_def)
    qed (use s kept in \<open>simp_all add: on_status_def on_speed_def on_sent_def Let_def\<close>)
  qed
qed

text \<open>A chunk is in the radio and its speed is being read for the next one; an abort, and the answer is an error.\<close>

theorem cw_abort_exact_witness:
  "let evs = map (\<lambda>ev. (ev, 1)) (arm_run @ send_run @ [EvPoll, EvAnswer Done, EvPoll]) @ [(EvPoll, 4)];
       s = snd (cw_trace small_estimate evs (cw_new small_keyer small_config))
   in sup_outstanding s = Some WaitReady \<and>
      fst (next_action 5 (cw_complete small_estimate (Failed []) 5 (abort_send s))) \<noteq> Some ActStop \<and>
      fst (next_action 5 (cw_complete small_estimate (Ready False) 5 (abort_send s))) \<noteq> Some ActStop \<and>
      fst (next_action 5 (cw_complete small_estimate (Ready True) 5 (abort_send s))) = Some ActStop"
proof -
  let ?evs = "map (\<lambda>ev. (ev, 1)) (arm_run @ send_run @ [EvPoll, EvAnswer Done, EvPoll]) @ [(EvPoll, 4)]"
  let ?s = "snd (cw_trace small_estimate ?evs (cw_new small_keyer small_config))"
  have o: "sup_outstanding ?s = Some WaitReady" by code_simp
  have "case sup_activity ?s of Sending _ \<Rightarrow> True | _ \<Rightarrow> False" by code_simp
  then obtain job where "sup_activity ?s = Sending job" by (auto split: activity.splits)
  note exact = cw_abort_exact [OF surjective_pairing small_keyer_sends this, of 5 _ 5]
  from exact [of "Failed []"] exact [of "Ready False"] exact [of "Ready True"] show ?thesis
    unfolding o option.case Let_def using o by (simp add: answer_kind_def)
qed

end
