(* ===== verification/Native_Bridge.thy ===== *)
theory Native_Bridge imports Cw_Progress begin

text \<open>
  The bridge between console connections and the radio (\<^verbatim>\<open>cat-rigctl/src/native_bridge.rs\<close>). Listener
  threads call the shared object; the pump, a task of its own, drives the radio. Any number of calls from the
  threads may happen at each exchange of the pump with the radio, and between cycles: they are the
  events an environment supplies at each of the pump's awaits, with the time the await took. What the pump does
  between two awaits is one step, although the source takes and releases its locks several times there;
  calls that fall between two of those short critical sections are not modelled.

  A thread that waits for an answer is two steps: the request, which returns the channel it waits on,
  and what it returns when the wait ends. A group of channels is a table of the values sent and of the
  receivers that have gone. A poisoned supervisor lock is a flag. The device directory and the closure
  that names the installation belong to the application; of them only the directory is used here, as a
  pair of values. Logging is not modelled.
\<close>

section \<open>Definitions\<close>

subsection \<open>Radios\<close>

record cw_status =
  sta_cw_mode :: bool
  sta_transmitting :: bool
  sta_wpm :: "u16 option"

record cw_settings =
  cws_pitch_hz :: "u32 option"
  cws_keyer_wpm :: "u16 option"
  cws_break_in :: "break_in_kind option"

record 'r native_cw =
  ncw_status :: "'r \<Rightarrow> (ustr + cw_status) \<times> 'r"
  ncw_settings :: "'r \<Rightarrow> cw_settings option \<times> 'r"
  ncw_set_keyer_wpm :: "u16 \<Rightarrow> 'r \<Rightarrow> (ustr + unit) \<times> 'r"
  ncw_power_raw :: "'r \<Rightarrow> (ustr + u16) \<times> 'r"
  ncw_set_power_raw :: "u16 \<Rightarrow> 'r \<Rightarrow> (ustr + unit) \<times> 'r"
  ncw_break_in :: "'r \<Rightarrow> (ustr + break_in_kind) \<times> 'r"
  ncw_set_break_in :: "break_in_kind \<Rightarrow> 'r \<Rightarrow> (ustr + unit) \<times> 'r"
  ncw_ready :: "'r \<Rightarrow> (ustr + bool) \<times> 'r"
  ncw_send_chunk :: "ustr \<Rightarrow> 'r \<Rightarrow> (ustr + unit) \<times> 'r"
  ncw_stop :: "'r \<Rightarrow> (ustr + unit) \<times> 'r"

record 'r native_radio =
  nr_state :: "'r \<Rightarrow> radio_state option \<times> 'r"
  nr_apply :: "native_command \<Rightarrow> 'r \<Rightarrow> (ustr + unit) \<times> 'r"
  nr_levels :: "'r \<Rightarrow> radio_levels option \<times> 'r"
  nr_cw :: "'r native_cw option"

definition outcome_of :: "('a \<Rightarrow> cw_outcome) \<Rightarrow> ustr + 'a \<Rightarrow> cw_outcome" where
  "outcome_of f result = (case result of Inl e \<Rightarrow> Failed e | Inr x \<Rightarrow> f x)"

definition cw_execute :: "'r native_cw \<Rightarrow> cw_action \<Rightarrow> 'r \<Rightarrow> cw_outcome \<times> 'r" where
  "cw_execute radio action r =
     (case action of
        ReadStatus \<Rightarrow> map_prod (outcome_of (\<lambda>s. Status (sta_cw_mode s) (sta_transmitting s) (sta_wpm s))) id (ncw_status radio r)
      | ReadPower \<Rightarrow> map_prod (outcome_of Power) id (ncw_power_raw radio r)
      | ActSetPower raw \<Rightarrow> map_prod (outcome_of (\<lambda>_. Done)) id (ncw_set_power_raw radio raw r)
      | ReadBreakIn \<Rightarrow> map_prod (outcome_of BreakIn) id (ncw_break_in radio r)
      | ActSetBreakIn kind \<Rightarrow> map_prod (outcome_of (\<lambda>_. Done)) id (ncw_set_break_in radio kind r)
      | ActReady \<Rightarrow> map_prod (outcome_of Ready) id (ncw_ready radio r)
      | SendChunk t \<Rightarrow> map_prod (outcome_of (\<lambda>_. Done)) id (ncw_send_chunk radio t r)
      | ActStop \<Rightarrow> map_prod (outcome_of (\<lambda>_. Done)) id (ncw_stop radio r))"

definition no_native :: "'r native_radio" where
  "no_native = \<lparr>nr_state = (\<lambda>r. (None, r)),
     nr_apply = (\<lambda>_ r. (Inl (ulit ''this server was not built to serve consoles''), r)),
     nr_levels = (\<lambda>r. (None, r)), nr_cw = None\<rparr>"

subsection \<open>The shared object\<close>

datatype slot = SlotFrequency u8 | SlotMode | SlotSplit | SlotMemoryChannel | SlotFilterWidth | SlotIfShift | SlotRetune | SlotKeyerSpeed

definition slot_of :: "native_command \<Rightarrow> slot option" where
  "slot_of command =
     (case command of
        SetFrequency vfo _ \<Rightarrow> Some (SlotFrequency vfo)
      | SetMode _ \<Rightarrow> Some SlotMode
      | SetSplit _ \<Rightarrow> Some SlotSplit
      | SetMemoryChannel _ \<Rightarrow> Some SlotMemoryChannel
      | SetFilterWidth _ \<Rightarrow> Some SlotFilterWidth
      | SetIfShift _ \<Rightarrow> Some SlotIfShift
      | Retune _ \<Rightarrow> Some SlotRetune
      | SetKeyerSpeed _ \<Rightarrow> Some SlotKeyerSpeed
      | _ \<Rightarrow> None)"

definition SUPERSEDED :: ustr where
  "SUPERSEDED = ulit ''superseded: a newer setting for the same control was queued before this one reached the radio''"

record cache =
  ca_state :: "radio_state option"
  ca_taken :: "instant option"
  ca_assumed :: bool
  ca_generation :: u64

definition cache_default :: cache where
  "cache_default = \<lparr>ca_state = None, ca_taken = None, ca_assumed = False, ca_generation = 0\<rparr>"

text \<open>\<^verbatim>\<open>std::sync::mpsc::sync_channel(1)\<close> for answers: each channel carries one value at most.\<close>

record 'a channels =
  chn_next :: nat
  chn_values :: "nat \<Rightarrow> 'a option"
  chn_gone :: "nat \<Rightarrow> bool"

definition no_channels :: "'a channels" where
  "no_channels = \<lparr>chn_next = 0, chn_values = (\<lambda>_. None), chn_gone = (\<lambda>_. False)\<rparr>"

definition sync_channel :: "'a channels \<Rightarrow> nat \<times> 'a channels" where
  "sync_channel c = (chn_next c, c\<lparr>chn_next := chn_next c + 1\<rparr>)"

definition chn_send :: "nat \<Rightarrow> 'a \<Rightarrow> 'a channels \<Rightarrow> bool \<times> 'a channels" where
  "chn_send k v c = (if chn_gone c k then (False, c) else (True, c\<lparr>chn_values := (chn_values c)(k := Some v)\<rparr>))"

definition chn_drop :: "nat \<Rightarrow> 'a channels \<Rightarrow> 'a channels" where
  "chn_drop k c = c\<lparr>chn_gone := (chn_gone c)(k := True)\<rparr>"

record cw_waiter =
  cwt_owner :: console_id
  cwt_is_arm :: bool
  cwt_reply :: nat

record ('l, 't, 'p) native_shared =
  sh_capabilities :: radio_capabilities
  sh_consoles :: nat
  sh_cache :: cache
  sh_spectrum :: "spectrum_frame option"
  sh_audio :: "audio_frame option"
  sh_queue :: "(native_command \<times> nat) list"
  sh_devices :: "(device_list list \<times> (device_kind \<Rightarrow> ustr \<Rightarrow> ustr + unit)) option"
  sh_layout :: "'l option"
  sh_theme :: "'t option"
  sh_cw :: "cw_supervisor option"
  sh_poisoned :: bool
  sh_cw_serving :: bool
  sh_cw_kick :: bool
  sh_cw_abort_requested :: bool
  sh_cw_settings :: "cw_settings option"
  sh_cw_waiters :: "ticket \<Rightarrow> cw_waiter option"
  sh_peers :: "console_id \<Rightarrow> 'p option"
  sh_replies :: "(ustr + unit) channels"
  sh_cw_replies :: "(host_refusal + unit) channels"

definition CW_TICK :: duration where
  "CW_TICK = 50 * 10 ^ 6"

definition MAX_CW_STEPS :: nat where
  "MAX_CW_STEPS = 32"

definition shared_new :: "radio_capabilities \<Rightarrow> (device_list list \<times> (device_kind \<Rightarrow> ustr \<Rightarrow> ustr + unit)) option \<Rightarrow>
    ('l, 't, 'p) native_shared" where
  "shared_new capabilities devices =
     \<lparr>sh_capabilities = capabilities, sh_consoles = 0, sh_cache = cache_default, sh_spectrum = None, sh_audio = None,
      sh_queue = [], sh_devices = devices, sh_layout = None, sh_theme = None, sh_cw = None, sh_poisoned = False,
      sh_cw_serving = False, sh_cw_kick = False, sh_cw_abort_requested = False, sh_cw_settings = None,
      sh_cw_waiters = (\<lambda>_. None), sh_peers = (\<lambda>_. None), sh_replies = no_channels, sh_cw_replies = no_channels\<rparr>"

definition publish_spectrum :: "spectrum_frame \<Rightarrow> ('l, 't, 'p) native_shared \<Rightarrow> ('l, 't, 'p) native_shared" where
  "publish_spectrum frame sh = sh\<lparr>sh_spectrum := Some frame\<rparr>"

definition publish_audio :: "audio_frame \<Rightarrow> ('l, 't, 'p) native_shared \<Rightarrow> ('l, 't, 'p) native_shared" where
  "publish_audio frame sh = sh\<lparr>sh_audio := Some frame\<rparr>"

definition shared_set_layout :: "'l \<Rightarrow> ('l, 't, 'p) native_shared \<Rightarrow> ('l, 't, 'p) native_shared" where
  "shared_set_layout layout sh = sh\<lparr>sh_layout := Some layout\<rparr>"

definition shared_set_theme :: "'t \<Rightarrow> ('l, 't, 'p) native_shared \<Rightarrow> ('l, 't, 'p) native_shared" where
  "shared_set_theme theme sh = sh\<lparr>sh_theme := Some theme\<rparr>"

subsection \<open>The cached reading\<close>

definition dial_hz :: "('l, 't, 'p) native_shared \<Rightarrow> u64 option" where
  "dial_hz sh = map_option st_vfo_a_hz (ca_state (sh_cache sh))"

definition generation :: "('l, 't, 'p) native_shared \<Rightarrow> u64" where
  "generation sh = ca_generation (sh_cache sh)"

definition file_reading :: "radio_state option \<Rightarrow> instant \<Rightarrow> u64 \<Rightarrow> cache \<Rightarrow> cache" where
  "file_reading st taken_at gen c =
     (case st of
        None \<Rightarrow> c
      | Some state \<Rightarrow>
          if ca_generation c \<noteq> gen then c
          else c\<lparr>ca_state := Some state, ca_taken := Some taken_at, ca_assumed := False\<rparr>)"

definition shared_publish_state :: "radio_state option \<Rightarrow> instant \<Rightarrow> u64 \<Rightarrow> ('l, 't, 'p) native_shared \<Rightarrow>
    ('l, 't, 'p) native_shared" where
  "shared_publish_state st taken_at gen sh = sh\<lparr>sh_cache := file_reading st taken_at gen (sh_cache sh)\<rparr>"

definition take_queued :: "('l, 't, 'p) native_shared \<Rightarrow> (native_command \<times> nat) list \<times> ('l, 't, 'p) native_shared" where
  "take_queued sh = (sh_queue sh, sh\<lparr>sh_queue := []\<rparr>)"

definition cached_state :: "('l, 't, 'p) native_shared \<Rightarrow> radio_state option" where
  "cached_state sh = ca_state (sh_cache sh)"

definition recent_state :: "instant \<Rightarrow> duration \<Rightarrow> ('l, 't, 'p) native_shared \<Rightarrow> radio_state option" where
  "recent_state now max_age sh =
     (case ca_taken (sh_cache sh) of
        Some taken \<Rightarrow> if now - taken \<le> max_age then ca_state (sh_cache sh) else None
      | None \<Rightarrow> None)"

definition measured_state :: "instant \<Rightarrow> duration \<Rightarrow> ('l, 't, 'p) native_shared \<Rightarrow> radio_state option" where
  "measured_state now max_age sh =
     (if ca_assumed (sh_cache sh) then None
      else (case ca_taken (sh_cache sh) of
              Some taken \<Rightarrow> if now - taken \<le> max_age then ca_state (sh_cache sh) else None
            | None \<Rightarrow> None))"

definition state_age :: "instant \<Rightarrow> ('l, 't, 'p) native_shared \<Rightarrow> duration option" where
  "state_age now sh = map_option (\<lambda>t. now - t) (ca_taken (sh_cache sh))"

definition patch_cache :: "(radio_state \<Rightarrow> radio_state) \<Rightarrow> cache \<Rightarrow> cache" where
  "patch_cache change c = c\<lparr>ca_generation := ca_generation c + 1, ca_assumed := True, ca_state := map_option change (ca_state c)\<rparr>"

definition patch_state :: "(radio_state \<Rightarrow> radio_state) \<Rightarrow> ('l, 't, 'p) native_shared \<Rightarrow> ('l, 't, 'p) native_shared" where
  "patch_state change sh = sh\<lparr>sh_cache := patch_cache change (sh_cache sh)\<rparr>"

definition poll_interval :: "duration \<Rightarrow> duration \<Rightarrow> ('l, 't, 'p) native_shared \<Rightarrow> duration" where
  "poll_interval watching idle sh =
     (let transmitting = (case ca_state (sh_cache sh) of Some s \<Rightarrow> st_transmitting s | None \<Rightarrow> False)
      in if sh_consoles sh > 0 \<and> \<not> transmitting then watching else idle)"

subsection \<open>The CW supervisor behind its lock\<close>

definition no_cw :: host_refusal where
  "no_cw = (Unsupported, MsgText (ulit ''this server does not offer CW control''))"

definition poisoned :: host_refusal where
  "poisoned = (OutOfRange, MsgText (ulit ''the server's CW state is poisoned''))"

definition enable_cw :: "cw_capability \<Rightarrow> ('l, 't, 'p) native_shared \<Rightarrow> ('l, 't, 'p) native_shared" where
  "enable_cw capability sh =
     (if sh_poisoned sh then sh
      else sh\<lparr>sh_cw := Some (cw_new capability cw_config_default), sh_cw_serving := True\<rparr>)"

definition cw_query :: "'a \<Rightarrow> 'a \<Rightarrow> (cw_supervisor \<Rightarrow> 'a) \<Rightarrow> ('l, 't, 'p) native_shared \<Rightarrow> 'a" where
  "cw_query if_poisoned absent f sh =
     (if sh_poisoned sh then if_poisoned else (case sh_cw sh of Some sv \<Rightarrow> f sv | None \<Rightarrow> absent))"

definition with_cw :: "(cw_supervisor \<Rightarrow> 'a \<times> cw_supervisor) \<Rightarrow> ('l, 't, 'p) native_shared \<Rightarrow>
    'a option \<times> ('l, 't, 'p) native_shared" where
  "with_cw f sh =
     (if sh_poisoned sh then (None, sh)
      else (case sh_cw sh of
              None \<Rightarrow> (None, sh)
            | Some sv \<Rightarrow> (case f sv of (x, sv') \<Rightarrow> (Some x, sh\<lparr>sh_cw := Some sv'\<rparr>))))"

definition cw_blocks_external_ptt :: "('l, 't, 'p) native_shared \<Rightarrow> bool" where
  "cw_blocks_external_ptt sh = cw_query True False blocks_external_ptt sh"

definition cw_settled :: "('l, 't, 'p) native_shared \<Rightarrow> bool" where
  "cw_settled sh = cw_query False True is_settled sh"

definition cw_live :: "('l, 't, 'p) native_shared \<Rightarrow> bool" where
  "cw_live sh = cw_query True False is_live sh"

definition kick_pump :: "('l, 't, 'p) native_shared \<Rightarrow> ('l, 't, 'p) native_shared" where
  "kick_pump sh = sh\<lparr>sh_cw_kick := True\<rparr>"

definition take_kick :: "('l, 't, 'p) native_shared \<Rightarrow> bool \<times> ('l, 't, 'p) native_shared" where
  "take_kick sh = (sh_cw_kick sh, sh\<lparr>sh_cw_kick := False\<rparr>)"

definition shutdown_cw :: "('l, 't, 'p) native_shared \<Rightarrow> ('l, 't, 'p) native_shared" where
  "shutdown_cw sh = kick_pump (snd (with_cw (\<lambda>sv. ((), cw_shutdown sv)) sh))"

definition cw_state_for :: "console_id \<Rightarrow> ('l, 't, 'p) native_shared \<Rightarrow> cw_state option" where
  "cw_state_for viewer sh =
     (let settings = (case sh_cw_settings sh of
                        Some c \<Rightarrow> c | None \<Rightarrow> \<lparr>cws_pitch_hz = None, cws_keyer_wpm = None, cws_break_in = None\<rparr>)
      in fst (with_cw (\<lambda>sv. (\<lparr>cs_pitch_hz = cws_pitch_hz settings, cs_keyer_wpm = cws_keyer_wpm settings,
           cs_break_in = cws_break_in settings, cs_armed = armed_state_for viewer sv, cs_sender = cw_sender sv,
           cs_restore = restore_status_of sv, cs_id_owed = sup_id_owed sv\<rparr>, sv)) sh))"

subsection \<open>Requests of consoles\<close>

text \<open>What a request gives at once: its answer, or the channel its thread waits on.\<close>

datatype host_answer = Answered "host_refusal + unit" | WaitQueue nat | WaitCw nat bool

definition cw_wait :: "console_id \<Rightarrow> bool \<Rightarrow> (cw_supervisor \<Rightarrow> (host_refusal + ticket) \<times> cw_supervisor) \<Rightarrow>
    ('l, 't, 'p) native_shared \<Rightarrow> host_answer \<times> ('l, 't, 'p) native_shared" where
  "cw_wait owner is_arm request sh =
     (if sh_poisoned sh then (Answered (Inl poisoned), sh)
      else (case sh_cw sh of
              None \<Rightarrow> (Answered (Inl no_cw), sh)
            | Some sv \<Rightarrow>
                (case request sv of
                   (Inl e, sv') \<Rightarrow> (Answered (Inl e), sh\<lparr>sh_cw := Some sv'\<rparr>)
                 | (Inr t, sv') \<Rightarrow>
                     (case sync_channel (sh_cw_replies sh) of
                        (k, chans) \<Rightarrow>
                          (WaitCw k is_arm,
                           kick_pump (sh\<lparr>sh_cw := Some sv', sh_cw_replies := chans,
                             sh_cw_waiters := (sh_cw_waiters sh)(t \<mapsto> \<lparr>cwt_owner = owner, cwt_is_arm = is_arm, cwt_reply = k\<rparr>)\<rparr>))))))"

definition send_reply :: "nat \<Rightarrow> ustr + unit \<Rightarrow> ('l, 't, 'p) native_shared \<Rightarrow> ('l, 't, 'p) native_shared" where
  "send_reply k result sh = sh\<lparr>sh_replies := snd (chn_send k result (sh_replies sh))\<rparr>"

definition enqueue_command :: "native_command \<Rightarrow> ('l, 't, 'p) native_shared \<Rightarrow> nat \<times> ('l, 't, 'p) native_shared" where
  "enqueue_command command sh =
     (case sync_channel (sh_replies sh) of
        (k, chans) \<Rightarrow>
          (let sh1 = sh\<lparr>sh_replies := chans\<rparr>;
               replaced = (case slot_of command of
                             None \<Rightarrow> []
                           | Some slot \<Rightarrow> filter (\<lambda>(queued, _). slot_of queued = Some slot) (sh_queue sh1));
               kept = (case slot_of command of
                         None \<Rightarrow> sh_queue sh1
                       | Some slot \<Rightarrow> filter (\<lambda>(queued, _). slot_of queued \<noteq> Some slot) (sh_queue sh1));
               sh2 = fold (\<lambda>(_, reply). send_reply reply (Inl SUPERSEDED)) replaced sh1
           in (k, sh2\<lparr>sh_queue := kept @ [(command, k)]\<rparr>)))"

definition host_apply :: "native_command \<Rightarrow> ('l, 't, 'p) native_shared \<Rightarrow> host_answer \<times> ('l, 't, 'p) native_shared" where
  "host_apply command sh =
     (case command of
        AttachDevice kind spec \<Rightarrow>
          (Answered (case sh_devices sh of
                       Some (_, attach) \<Rightarrow> (case attach kind spec of Inl e \<Rightarrow> Inl (host_refusal_from e) | Inr _ \<Rightarrow> Inr ())
                     | None \<Rightarrow> Inl (host_refusal_from (ulit ''this server does not offer device selection''))), sh)
      | _ \<Rightarrow> (case enqueue_command command sh of (k, sh') \<Rightarrow> (WaitQueue k, sh')))"

definition apply_cw :: "(ustr \<Rightarrow> u16 \<Rightarrow> duration) \<Rightarrow> instant \<Rightarrow> console_id \<Rightarrow> native_command \<Rightarrow> ('l, 't, 'p) native_shared \<Rightarrow>
    host_answer \<times> ('l, 't, 'p) native_shared" where
  "apply_cw est now console command sh =
     (case command of
        AbortCw \<Rightarrow>
          (Answered (Inr ()),
           kick_pump (sh\<lparr>sh_cw_abort_requested := True, sh_cw := map_option abort_send (sh_cw sh)\<rparr>))
      | ArmCwTransmit callsign _ key_down_cap_s \<Rightarrow> cw_wait console True (cw_arm_request console callsign key_down_cap_s) sh
      | DisarmCw \<Rightarrow> cw_wait console False (cw_disarm console) sh
      | SendCwText t \<Rightarrow>
          (case with_cw (cw_send est console t now) sh of
             (queued, sh') \<Rightarrow>
               (Answered (case queued of None \<Rightarrow> Inl no_cw | Some (Inl e) \<Rightarrow> Inl e | Some (Inr _) \<Rightarrow> Inr ()), kick_pump sh'))
      | SetKeyerSpeed _ \<Rightarrow>
          if \<not> sh_cw_serving sh then (Answered (Inl no_cw), sh)
          else if cw_blocks_external_ptt sh
          then (Answered (Inl (Forbidden, MsgText (ulit ''not while CW is armed or sending''))), sh)
          else host_apply command sh
      | _ \<Rightarrow> host_apply command sh)"

text \<open>What the thread returns when its wait ends, with the value it received or without one.\<close>

definition wait_result :: "host_answer \<Rightarrow> ('l, 't, 'p) native_shared \<Rightarrow> host_refusal + unit" where
  "wait_result a sh =
     (case a of
        Answered result \<Rightarrow> result
      | WaitQueue k \<Rightarrow>
          (case chn_values (sh_replies sh) k of
             Some (Inr _) \<Rightarrow> Inr ()
           | Some (Inl e) \<Rightarrow> Inl (host_refusal_from e)
           | None \<Rightarrow> Inl (host_refusal_from (ulit ''the radio did not answer in time'')))
      | WaitCw k is_arm \<Rightarrow>
          (case chn_values (sh_cw_replies sh) k of
             Some result \<Rightarrow> result
           | None \<Rightarrow> Inl (OutOfRange, MsgText
               (if is_arm then ulit ''the radio did not finish arming in time; the arm will be released''
                else ulit ''the restore has not finished; the server keeps trying''))))"

definition console_attached :: "('l, 't, 'p) native_shared \<Rightarrow> ('l, 't, 'p) native_shared" where
  "console_attached sh = sh\<lparr>sh_consoles := sh_consoles sh + 1\<rparr>"

definition console_detached :: "('l, 't, 'p) native_shared \<Rightarrow> ('l, 't, 'p) native_shared" where
  "console_detached sh = sh\<lparr>sh_consoles := sh_consoles sh - 1\<rparr>"

definition console_attached_as :: "console_id \<Rightarrow> 'p \<Rightarrow> ('l, 't, 'p) native_shared \<Rightarrow> ('l, 't, 'p) native_shared" where
  "console_attached_as console peer sh = console_attached (sh\<lparr>sh_peers := (sh_peers sh)(console \<mapsto> peer)\<rparr>)"

definition console_detached_as :: "console_id \<Rightarrow> ('l, 't, 'p) native_shared \<Rightarrow> ('l, 't, 'p) native_shared" where
  "console_detached_as console sh =
     (let sh1 = kick_pump (snd (with_cw (\<lambda>sv. ((), cw_detached console sv)) sh))
      in console_detached (sh1\<lparr>sh_peers := (sh_peers sh1)(console := None)\<rparr>))"

definition unread_state :: radio_state where
  "unread_state = \<lparr>st_vfo_a_hz = 0, st_vfo_b_hz = 0, st_mode = Usb, st_split = False, st_transmitting = False,
     st_memory_channel = None, st_if_shift_hz = None, st_filter_width_hz = None, st_meters = [], st_levels = None,
     st_cw = None\<rparr>"

definition shared_state :: "('l, 't, 'p) native_shared \<Rightarrow> radio_state" where
  "shared_state sh = (case cached_state sh of Some s \<Rightarrow> s | None \<Rightarrow> unread_state)"

definition shared_state_as :: "console_id \<Rightarrow> ('l, 't, 'p) native_shared \<Rightarrow> radio_state" where
  "shared_state_as console sh = (shared_state sh)\<lparr>st_cw := cw_state_for console sh\<rparr>"

subsection \<open>Notices\<close>

text \<open>One answer for a console that waits; the console whose finished arm nobody waits for any more.\<close>

definition route_notice :: "cw_notice \<Rightarrow> console_id list \<times> ('l, 't, 'p) native_shared \<Rightarrow>
    console_id list \<times> ('l, 't, 'p) native_shared" where
  "route_notice notice st =
     (case st of (abandoned, sh) \<Rightarrow>
        (case notice of
           Reply ticket result \<Rightarrow>
             (case sh_cw_waiters sh ticket of
                None \<Rightarrow> (abandoned, sh)
              | Some w \<Rightarrow>
                  (case chn_send (cwt_reply w) result (sh_cw_replies sh) of
                     (sent, chans) \<Rightarrow>
                       (if \<not> sent \<and> cwt_is_arm w \<and> result = Inr () then abandoned @ [cwt_owner w] else abandoned,
                        sh\<lparr>sh_cw_waiters := (sh_cw_waiters sh)(ticket := None), sh_cw_replies := chans\<rparr>)))
         | _ \<Rightarrow> (abandoned, sh)))"

definition route_cw_notices :: "cw_notice list \<Rightarrow> ('l, 't, 'p) native_shared \<Rightarrow> ('l, 't, 'p) native_shared" where
  "route_cw_notices notices sh =
     (case fold route_notice notices ([], sh) of
        (abandoned, sh1) \<Rightarrow> fold (\<lambda>owner sh. snd (with_cw (cw_disarm owner) sh)) abandoned sh1)"

definition take_cw_notices :: "('l, 't, 'p) native_shared \<Rightarrow> ('l, 't, 'p) native_shared" where
  "take_cw_notices sh =
     (case with_cw take_notices sh of
        (Some notices, sh1) \<Rightarrow> route_cw_notices notices sh1
      | (None, sh1) \<Rightarrow> sh1)"

subsection \<open>The pump\<close>

text \<open>What the listener threads, and the rest of the server, do while the pump waits for the radio.\<close>

datatype 'p host_call =
    CallApply console_id native_command
  | CallAttach console_id 'p
  | CallDetach console_id
  | CallPatch "radio_state \<Rightarrow> radio_state"
  | CallGiveUp nat
  | CallGiveUpCw nat
  | CallShutdown
  | CallPoison

definition host_step :: "(ustr \<Rightarrow> u16 \<Rightarrow> duration) \<Rightarrow> instant \<Rightarrow> 'p host_call \<Rightarrow> ('l, 't, 'p) native_shared \<Rightarrow>
    ('l, 't, 'p) native_shared" where
  "host_step est now call sh =
     (case call of
        CallApply console command \<Rightarrow> snd (apply_cw est now console command sh)
      | CallAttach console peer \<Rightarrow> console_attached_as console peer sh
      | CallDetach console \<Rightarrow> console_detached_as console sh
      | CallPatch change \<Rightarrow> patch_state change sh
      | CallGiveUp k \<Rightarrow> if k < chn_next (sh_replies sh) then sh\<lparr>sh_replies := chn_drop k (sh_replies sh)\<rparr> else sh
      | CallGiveUpCw k \<Rightarrow> if k < chn_next (sh_cw_replies sh) then sh\<lparr>sh_cw_replies := chn_drop k (sh_cw_replies sh)\<rparr> else sh
      | CallShutdown \<Rightarrow> shutdown_cw sh
      | CallPoison \<Rightarrow> sh\<lparr>sh_poisoned := True\<rparr>)"

record ('r, 'l, 't, 'p) world =
  w_shared :: "('l, 't, 'p) native_shared"
  w_radio :: 'r
  w_clock :: instant
  w_env :: "(duration \<times> 'p host_call list) list"

definition on_shared :: "(('l, 't, 'p) native_shared \<Rightarrow> ('l, 't, 'p) native_shared) \<Rightarrow> ('r, 'l, 't, 'p) world \<Rightarrow> ('r, 'l, 't, 'p) world" where
  "on_shared f w = w\<lparr>w_shared := f (w_shared w)\<rparr>"

text \<open>An await: time passes, and the threads run.\<close>

definition interfere :: "(ustr \<Rightarrow> u16 \<Rightarrow> duration) \<Rightarrow> ('r, 'l, 't, 'p) world \<Rightarrow> ('r, 'l, 't, 'p) world" where
  "interfere est w =
     (case w_env w of
        [] \<Rightarrow> w
      | (d, calls) # rest \<Rightarrow>
          w\<lparr>w_clock := w_clock w + d, w_env := rest,
            w_shared := fold (host_step est (w_clock w + d)) calls (w_shared w)\<rparr>)"

definition radio_call :: "(ustr \<Rightarrow> u16 \<Rightarrow> duration) \<Rightarrow> ('r \<Rightarrow> 'a \<times> 'r) \<Rightarrow> ('r, 'l, 't, 'p) world \<Rightarrow> 'a \<times> ('r, 'l, 't, 'p) world" where
  "radio_call est f w = (case f (w_radio w) of (x, r) \<Rightarrow> (x, interfere est (w\<lparr>w_radio := r\<rparr>)))"

definition no_cw_control :: ustr where
  "no_cw_control = ulit ''this radio has no CW control''"

definition drive_answer :: "(ustr \<Rightarrow> u16 \<Rightarrow> duration) \<Rightarrow> 'r native_radio \<Rightarrow> cw_action \<Rightarrow> ('r, 'l, 't, 'p) world \<Rightarrow>
    cw_outcome \<times> ('r, 'l, 't, 'p) world" where
  "drive_answer est radio action w =
     (case nr_cw radio of
        Some c \<Rightarrow> radio_call est (cw_execute c action) w
      | None \<Rightarrow> (Failed no_cw_control, w))"

fun drive_loop :: "(ustr \<Rightarrow> u16 \<Rightarrow> duration) \<Rightarrow> 'r native_radio \<Rightarrow> nat \<Rightarrow> ('r, 'l, 't, 'p) world \<Rightarrow> ('r, 'l, 't, 'p) world" where
  "drive_loop est radio 0 w = w"
| "drive_loop est radio (Suc n) w =
     (case with_cw (next_action (w_clock w)) (w_shared w) of
        (action, sh) \<Rightarrow>
          (let w1 = w\<lparr>w_shared := take_cw_notices sh\<rparr>
           in case action of
                Some (Some a) \<Rightarrow>
                  (case drive_answer est radio a w1 of
                     (outcome, w2) \<Rightarrow>
                       drive_loop est radio n
                         (on_shared (\<lambda>sh. take_cw_notices (snd (with_cw (\<lambda>sv. ((), cw_complete est outcome (w_clock w2) sv)) sh))) w2))
              | _ \<Rightarrow> w1))"

definition drive_cw :: "(ustr \<Rightarrow> u16 \<Rightarrow> duration) \<Rightarrow> 'r native_radio \<Rightarrow> ('r, 'l, 't, 'p) world \<Rightarrow> ('r, 'l, 't, 'p) world" where
  "drive_cw est radio w = drive_loop est radio MAX_CW_STEPS w"

definition IDLE_MULTIPLIER :: nat where
  "IDLE_MULTIPLIER = 10"

definition LEVELS_INTERVAL :: duration where
  "LEVELS_INTERVAL = 5 * 10 ^ 9"

record pump_state =
  ps_levels :: "radio_levels option"
  ps_last_levels :: "instant option"
  ps_last_cw_settings :: "instant option"
  ps_cw_checked :: bool
  ps_poison_stopped :: bool

definition pump_state_default :: pump_state where
  "pump_state_default = \<lparr>ps_levels = None, ps_last_levels = None, ps_last_cw_settings = None, ps_cw_checked = False,
     ps_poison_stopped = False\<rparr>"

definition check_cw :: "(uchar \<Rightarrow> bool) \<Rightarrow> 'r native_radio \<Rightarrow> pump_state \<Rightarrow> ('l, 't, 'p) native_shared \<Rightarrow> pump_state \<times> ('l, 't, 'p) native_shared" where
  "check_cw is_lowercase radio pump sh =
     (if ps_cw_checked pump then (pump, sh)
      else
        (pump\<lparr>ps_cw_checked := True\<rparr>,
         case (cw (sh_capabilities sh), nr_cw radio) of
           (Some capability, Some _) \<Rightarrow>
             (case cw_validate is_lowercase capability of Inr _ \<Rightarrow> enable_cw capability sh | Inl _ \<Rightarrow> sh)
         | _ \<Rightarrow> sh))"

definition stop_after_poison :: "(ustr \<Rightarrow> u16 \<Rightarrow> duration) \<Rightarrow> 'r native_radio \<Rightarrow> pump_state \<Rightarrow> ('r, 'l, 't, 'p) world \<Rightarrow>
    pump_state \<times> ('r, 'l, 't, 'p) world" where
  "stop_after_poison est radio pump w =
     (let abort = sh_cw_abort_requested (w_shared w);
          w1 = on_shared (\<lambda>sh. sh\<lparr>sh_cw_abort_requested := False\<rparr>) w
      in if ps_poison_stopped pump \<and> \<not> abort then (pump, w1)
         else
           (pump\<lparr>ps_poison_stopped := True\<rparr>,
            case nr_cw radio of Some c \<Rightarrow> snd (radio_call est (ncw_stop c) w1) | None \<Rightarrow> w1))"

definition apply_queued :: "(ustr \<Rightarrow> u16 \<Rightarrow> duration) \<Rightarrow> 'r native_radio \<Rightarrow> native_command \<Rightarrow> ('r, 'l, 't, 'p) world \<Rightarrow>
    (ustr + unit) \<times> ('r, 'l, 't, 'p) world" where
  "apply_queued est radio command w =
     (case command of
        SetKeyerSpeed wpm \<Rightarrow>
          if cw_blocks_external_ptt (w_shared w) then (Inl (ulit ''not while CW is armed or sending''), w)
          else (case nr_cw radio of
                  Some c \<Rightarrow>
                    (case radio_call est (ncw_set_keyer_wpm c wpm) w of
                       (Inr _, w1) \<Rightarrow>
                         (Inr (), on_shared (\<lambda>sh. sh\<lparr>sh_cw_settings := Some
                            ((case sh_cw_settings sh of
                                Some cs \<Rightarrow> cs
                              | None \<Rightarrow> \<lparr>cws_pitch_hz = None, cws_keyer_wpm = None, cws_break_in = None\<rparr>)\<lparr>cws_keyer_wpm := Some wpm\<rparr>)\<rparr>) w1)
                     | (Inl e, w1) \<Rightarrow> (Inl e, w1))
                | None \<Rightarrow> (Inl no_cw_control, w))
      | _ \<Rightarrow> radio_call est (nr_apply radio command) w)"

fun apply_all :: "(ustr \<Rightarrow> u16 \<Rightarrow> duration) \<Rightarrow> 'r native_radio \<Rightarrow> (native_command \<times> nat) list \<Rightarrow> ('r, 'l, 't, 'p) world \<Rightarrow>
    (nat \<times> (ustr + unit)) list \<times> ('r, 'l, 't, 'p) world" where
  "apply_all est radio [] w = ([], w)"
| "apply_all est radio ((command, reply) # queued) w =
     (case apply_queued est radio command w of
        (result, w1) \<Rightarrow>
          (case apply_all est radio queued (drive_cw est radio w1) of (results, w2) \<Rightarrow> ((reply, result) # results, w2)))"

definition due :: "instant \<Rightarrow> instant option \<Rightarrow> bool" where
  "due now read_at = (case read_at of None \<Rightarrow> True | Some t \<Rightarrow> now - t \<ge> LEVELS_INTERVAL)"

definition read_levels :: "(ustr \<Rightarrow> u16 \<Rightarrow> duration) \<Rightarrow> 'r native_radio \<Rightarrow> pump_state \<Rightarrow> ('r, 'l, 't, 'p) world \<Rightarrow>
    pump_state \<times> ('r, 'l, 't, 'p) world" where
  "read_levels est radio pump w =
     (if due (w_clock w) (ps_last_levels pump) then
        (case radio_call est (nr_levels radio) w of
           (Some fresh, w1) \<Rightarrow> (pump\<lparr>ps_levels := Some fresh, ps_last_levels := Some (w_clock w1)\<rparr>, w1)
         | (None, w1) \<Rightarrow> (pump, w1))
      else (pump, w))"

definition read_cw_settings :: "(ustr \<Rightarrow> u16 \<Rightarrow> duration) \<Rightarrow> 'r native_radio \<Rightarrow> pump_state \<Rightarrow> ('r, 'l, 't, 'p) world \<Rightarrow>
    pump_state \<times> ('r, 'l, 't, 'p) world" where
  "read_cw_settings est radio pump w =
     (if sh_cw_serving (w_shared w) \<and> due (w_clock w) (ps_last_cw_settings pump) then
        (pump\<lparr>ps_last_cw_settings := Some (w_clock w)\<rparr>,
         case nr_cw radio of
           None \<Rightarrow> w
         | Some c \<Rightarrow>
             (case radio_call est (ncw_settings c) w of
                (Some fresh, w1) \<Rightarrow> on_shared (\<lambda>sh. sh\<lparr>sh_cw_settings := Some fresh\<rparr>) w1
              | (None, w1) \<Rightarrow> w1))
      else (pump, w))"

definition poll_radio :: "(ustr \<Rightarrow> u16 \<Rightarrow> duration) \<Rightarrow> 'r native_radio \<Rightarrow> pump_state \<Rightarrow> ('r, 'l, 't, 'p) world \<Rightarrow>
    pump_state \<times> ('r, 'l, 't, 'p) world" where
  "poll_radio est radio pump w =
     (let gen = generation (w_shared w);
          taken_at = w_clock w
      in case radio_call est (nr_state radio) w of
           (state, w1) \<Rightarrow>
             (case read_levels est radio pump w1 of
                (pump1, w2) \<Rightarrow>
                  (case read_cw_settings est radio pump1 w2 of
                     (pump2, w3) \<Rightarrow>
                       (pump2, on_shared (shared_publish_state (map_option (\<lambda>s. s\<lparr>st_levels := ps_levels pump2\<rparr>) state) taken_at gen) w3))))"

text \<open>Sleeping between cycles, in ticks where CW is served, until kicked.\<close>

definition nap :: "(ustr \<Rightarrow> u16 \<Rightarrow> duration) \<Rightarrow> duration \<Rightarrow> ('r, 'l, 't, 'p) world \<Rightarrow> ('r, 'l, 't, 'p) world" where
  "nap est d w = interfere est (w\<lparr>w_clock := w_clock w + d\<rparr>)"

lemma nap_clock: "w_clock w + d \<le> w_clock (nap est d w)"
  by (auto simp: nap_def interfere_def split: list.split)

function sleep_loop :: "(ustr \<Rightarrow> u16 \<Rightarrow> duration) \<Rightarrow> instant \<Rightarrow> ('r, 'l, 't, 'p) world \<Rightarrow> ('r, 'l, 't, 'p) world" where
  "sleep_loop est deadline w =
     (if fst (take_kick (w_shared w)) \<or> deadline - w_clock w = 0 then on_shared (snd \<circ> take_kick) w
      else sleep_loop est deadline (nap est (min (deadline - w_clock w) CW_TICK) (on_shared (snd \<circ> take_kick) w)))"
  by pat_completeness auto
termination
proof (relation "measure (\<lambda>(est, deadline, w). deadline - w_clock w)", goal_cases)
  case (2 est deadline w)
  then have "0 < min (deadline - w_clock w) CW_TICK" by (simp add: CW_TICK_def)
  with nap_clock [of "on_shared (snd \<circ> take_kick) w" "min (deadline - w_clock w) CW_TICK" est] 2 show ?case
    by (auto simp: on_shared_def)
qed simp

definition pump_sleep :: "(ustr \<Rightarrow> u16 \<Rightarrow> duration) \<Rightarrow> duration \<Rightarrow> ('r, 'l, 't, 'p) world \<Rightarrow> ('r, 'l, 't, 'p) world" where
  "pump_sleep est d w = (if \<not> sh_cw_serving (w_shared w) then nap est d w else sleep_loop est (w_clock w + d) w)"

definition pump_once :: "(ustr \<Rightarrow> u16 \<Rightarrow> duration) \<Rightarrow> (uchar \<Rightarrow> bool) \<Rightarrow> 'r native_radio \<Rightarrow> duration \<Rightarrow> pump_state \<Rightarrow> ('r, 'l, 't, 'p) world \<Rightarrow>
    duration \<times> pump_state \<times> ('r, 'l, 't, 'p) world" where
  "pump_once est is_lowercase radio interval pump0 w0 =
     (case check_cw is_lowercase radio pump0 (w_shared w0) of
        (pump1, sh1) \<Rightarrow>
          (let w1 = w0\<lparr>w_shared := sh1\<rparr>;
               (pump2, w2) =
                 (if sh_poisoned (w_shared w1) then stop_after_poison est radio pump1 w1
                  else (pump1, on_shared (\<lambda>sh. sh\<lparr>sh_cw_abort_requested := False\<rparr>) w1));
               w3 = drive_cw est radio w2;
               (queued, sh4) = take_queued (w_shared w3);
               (results, w5) = apply_all est radio queued (w3\<lparr>w_shared := sh4\<rparr>);
               (pump6, w6) = (if \<not> cw_live (w_shared w5) then poll_radio est radio pump2 w5 else (pump2, w5));
               w7 = on_shared (fold (\<lambda>(reply, result). send_reply reply result) results) w6
           in (if cw_live (w_shared w7) then CW_TICK
               else poll_interval interval (interval * IDLE_MULTIPLIER) (w_shared w7), pump6, w7)))"

section \<open>Lemmas\<close>

subsection \<open>The queue\<close>

declare sleep_loop.simps [simp del]

text \<open>
  Commands waiting in the queue, and those in \<open>flight\<close> that the pump has taken from it, each have a channel
  of their own on which nothing has been said yet, and no two in the queue set the same control.
\<close>

definition queue_ok :: "nat list \<Rightarrow> ('l, 't, 'p) native_shared \<Rightarrow> bool" where
  "queue_ok flight sh \<longleftrightarrow>
     distinct (flight @ map snd (sh_queue sh)) \<and>
     (\<forall>k \<in> set (flight @ map snd (sh_queue sh)). k < chn_next (sh_replies sh) \<and> chn_values (sh_replies sh) k = None) \<and>
     (\<forall>k. chn_values (sh_replies sh) k \<noteq> None \<longrightarrow> k < chn_next (sh_replies sh)) \<and>
     distinct (filter (\<lambda>x. x \<noteq> None) (map (slot_of \<circ> fst) (sh_queue sh)))"

definition answered :: "nat \<Rightarrow> ('l, 't, 'p) native_shared \<Rightarrow> bool" where
  "answered k sh \<longleftrightarrow> chn_values (sh_replies sh) k \<noteq> None \<or> chn_gone (sh_replies sh) k"

text \<open>What every step does to the queue: answers stay, and what leaves the queue has been answered.\<close>

definition queue_step :: "nat list \<Rightarrow> ('l, 't, 'p) native_shared \<Rightarrow> ('l, 't, 'p) native_shared \<Rightarrow> bool" where
  "queue_step flight sh sh' \<longleftrightarrow>
     (queue_ok flight sh \<longrightarrow> queue_ok flight sh' \<and>
        (\<forall>k v. chn_values (sh_replies sh) k = Some v \<longrightarrow> chn_values (sh_replies sh') k = Some v)) \<and>
     (\<forall>k. answered k sh \<longrightarrow> answered k sh') \<and>
     (\<forall>x \<in> set (sh_queue sh). x \<in> set (sh_queue sh') \<or> answered (snd x) sh')"

lemma queue_step_refl [simp]: "queue_step flight sh sh"
  by (simp add: queue_step_def)

lemma queue_step_trans [trans]: "queue_step flight a b \<Longrightarrow> queue_step flight b c \<Longrightarrow> queue_step flight a c"
  unfolding queue_step_def by blast

lemma queue_step_frame:
  assumes "sh_queue sh' = sh_queue sh" and "sh_replies sh' = sh_replies sh"
  shows "queue_step flight sh sh'"
  using assms by (simp add: queue_step_def queue_ok_def answered_def)

lemma queue_step_fold:
  "(\<And>x sh. x \<in> set xs \<Longrightarrow> queue_step flight sh (f x sh)) \<Longrightarrow> queue_step flight sh (fold f xs sh)"
proof (induction xs arbitrary: sh)
  case (Cons x xs)
  then have "queue_step flight sh (f x sh)" "queue_step flight (f x sh) (fold f xs (f x sh))" by simp_all
  then show ?case by (simp add: queue_step_trans)
qed simp

lemma send_reply_simps [simp]:
  "sh_queue (send_reply k r sh) = sh_queue sh" "chn_next (sh_replies (send_reply k r sh)) = chn_next (sh_replies sh)"
  "chn_gone (sh_replies (send_reply k r sh)) = chn_gone (sh_replies sh)"
  "chn_values (sh_replies (send_reply k r sh)) j =
     (if j = k \<and> \<not> chn_gone (sh_replies sh) k then Some r else chn_values (sh_replies sh) j)"
  "answered j (send_reply k r sh) \<longleftrightarrow> j = k \<or> answered j sh"
  by (auto simp: send_reply_def chn_send_def answered_def)

definition send_all :: "('a \<times> nat) list \<Rightarrow> ('a \<Rightarrow> ustr + unit) \<Rightarrow> ('l, 't, 'p) native_shared \<Rightarrow> ('l, 't, 'p) native_shared" where
  "send_all xs f sh = fold (\<lambda>(c, k). send_reply k (f c)) xs sh"

lemma send_all_simps [simp]:
  "sh_queue (send_all xs f sh) = sh_queue sh" "chn_next (sh_replies (send_all xs f sh)) = chn_next (sh_replies sh)"
  "answered j (send_all xs f sh) \<longleftrightarrow> j \<in> snd ` set xs \<or> answered j sh"
  by (induction xs arbitrary: sh) (auto simp: send_all_def split: prod.splits)

lemma send_all_frame [simp]:
  "sh_cache (send_all xs f sh) = sh_cache sh" "sh_poisoned (send_all xs f sh) = sh_poisoned sh" "sh_cw (send_all xs f sh) = sh_cw sh"
  by (induction xs arbitrary: sh) (auto simp: send_all_def send_reply_def split: prod.splits)

lemma send_all_other: "j \<notin> snd ` set xs \<Longrightarrow> chn_values (sh_replies (send_all xs f sh)) j = chn_values (sh_replies sh) j"
  by (induction xs arbitrary: sh) (auto simp: send_all_def split: prod.splits)

text \<open>Queueing a command.\<close>

lemma enqueue_alt:
  "snd (enqueue_command command sh) =
     (let same = (\<lambda>x. slot_of command \<noteq> None \<and> slot_of (fst x) = slot_of command)
      in (send_all (filter same (sh_queue sh)) (\<lambda>_. Inl SUPERSEDED) (sh\<lparr>sh_replies := snd (sync_channel (sh_replies sh))\<rparr>))
           \<lparr>sh_queue := filter (\<lambda>x. \<not> same x) (sh_queue sh) @ [(command, chn_next (sh_replies sh))]\<rparr>)"
  by (cases "slot_of command") (simp_all add: enqueue_command_def sync_channel_def send_all_def Let_def split_def)

lemma distinct_map_filter: "distinct (filter P (map f xs)) \<Longrightarrow> distinct (filter P (map f (filter Q xs)))"
  by (induction xs) auto

lemma enqueue_step: "queue_step flight sh (snd (enqueue_command command sh))"
proof -
  let ?same = "\<lambda>x :: native_command \<times> nat. slot_of command \<noteq> None \<and> slot_of (fst x) = slot_of command"
  let ?sh1 = "sh\<lparr>sh_replies := snd (sync_channel (sh_replies sh))\<rparr>"
  let ?sent = "send_all (filter ?same (sh_queue sh)) (\<lambda>_. Inl SUPERSEDED) ?sh1"
  let ?sh = "snd (enqueue_command command sh)"
  have q: "sh_queue ?sh = filter (\<lambda>x. \<not> ?same x) (sh_queue sh) @ [(command, chn_next (sh_replies sh))]"
    and r: "sh_replies ?sh = sh_replies ?sent"
    unfolding enqueue_alt Let_def by simp_all
  have n: "chn_next (sh_replies ?sent) = chn_next (sh_replies sh) + 1" by (simp add: sync_channel_def)
  have a: "answered k ?sh \<longleftrightarrow> k \<in> snd ` set (filter ?same (sh_queue sh)) \<or> answered k sh" for k
    using send_all_simps(3) [of k "filter ?same (sh_queue sh)" "\<lambda>_. Inl SUPERSEDED" ?sh1]
    by (simp add: answered_def r sync_channel_def)
  have v: "chn_values (sh_replies ?sh) k = chn_values (sh_replies sh) k" if "k \<notin> snd ` set (filter ?same (sh_queue sh))" for k
    using send_all_other [OF that, of "\<lambda>_. Inl SUPERSEDED" ?sh1] by (simp add: r sync_channel_def)
  have "queue_ok flight ?sh" if ok: "queue_ok flight sh"
  proof -
    have fresh: "chn_next (sh_replies sh) \<notin> set (flight @ map snd (sh_queue sh))" using ok by (auto simp: queue_ok_def)
    have d: "distinct (map snd (sh_queue sh))" "distinct flight" "set flight \<inter> snd ` set (sh_queue sh) = {}"
      using ok by (auto simp: queue_ok_def)
    have kept: "snd x \<notin> snd ` set (filter ?same (sh_queue sh))" if "x \<in> set (filter (\<lambda>x. \<not> ?same x) (sh_queue sh))" for x
      using that d(1) by (auto simp: distinct_map inj_on_def)
    have "distinct (flight @ map snd (sh_queue ?sh))"
      using fresh d by (auto simp: q distinct_map_filter distinct_map inj_on_def)
    moreover have "k < chn_next (sh_replies ?sh) \<and> chn_values (sh_replies ?sh) k = None" if "k \<in> set (flight @ map snd (sh_queue ?sh))" for k
    proof -
      from that have "k = chn_next (sh_replies sh) \<or> k \<in> set flight \<or> k \<in> snd ` set (filter (\<lambda>x. \<not> ?same x) (sh_queue sh))"
        by (auto simp: q)
      moreover from this have "k \<notin> snd ` set (filter ?same (sh_queue sh))"
      proof (elim disjE)
        assume "k \<in> snd ` set (filter (\<lambda>x. \<not> ?same x) (sh_queue sh))"
        then obtain x where "x \<in> set (filter (\<lambda>x. \<not> ?same x) (sh_queue sh))" and k: "k = snd x" by (rule imageE)
        from kept [OF this(1)] show ?thesis unfolding k .
      next
        assume "k = chn_next (sh_replies sh)"
        then show ?thesis using fresh by (auto simp: image_iff)
      next
        assume "k \<in> set flight"
        then have "k \<notin> snd ` set (sh_queue sh)" using d(3) by blast
        then show ?thesis by (auto simp: image_iff)
      qed
      moreover have "chn_values (sh_replies sh) (chn_next (sh_replies sh)) = None" using ok unfolding queue_ok_def by blast
      ultimately show ?thesis using ok v n by (auto simp: queue_ok_def r less_Suc_eq)
    qed
    moreover have "k < chn_next (sh_replies ?sh)" if "chn_values (sh_replies ?sh) k \<noteq> None" for k
      using that ok v [of k] n by (cases "k \<in> snd ` set (filter ?same (sh_queue sh))") (auto simp: queue_ok_def r less_Suc_eq)
    moreover have "distinct (filter (\<lambda>x. x \<noteq> None) (map (slot_of \<circ> fst) (sh_queue ?sh)))"
    proof -
      have "distinct (filter (\<lambda>x. x \<noteq> None) (map (slot_of \<circ> fst) (filter (\<lambda>x. \<not> ?same x) (sh_queue sh))))"
        using ok by (intro distinct_map_filter) (simp add: queue_ok_def)
      then show ?thesis by (auto simp: q)
    qed
    ultimately show ?thesis unfolding queue_ok_def by blast
  qed
  moreover have "chn_values (sh_replies ?sh) k = Some x" if "queue_ok flight sh" "chn_values (sh_replies sh) k = Some x" for k x
  proof -
    have "k \<notin> snd ` set (sh_queue sh)" using that by (auto simp: queue_ok_def image_iff ball_Un)
    then have "k \<notin> snd ` set (filter ?same (sh_queue sh))" by (auto simp: image_iff)
    with v that show ?thesis by simp
  qed
  moreover have "x \<in> set (sh_queue ?sh) \<or> answered (snd x) ?sh" if "x \<in> set (sh_queue sh)" for x
    using that by (auto simp: q a)
  ultimately show ?thesis unfolding queue_step_def a by blast
qed

text \<open>Nothing else touches the queue.\<close>

lemma with_cw_frame [simp]:
  "sh_queue (snd (with_cw f sh)) = sh_queue sh" "sh_replies (snd (with_cw f sh)) = sh_replies sh"
  "sh_cache (snd (with_cw f sh)) = sh_cache sh" "sh_poisoned (snd (with_cw f sh)) = sh_poisoned sh"
  "sh_cw_waiters (snd (with_cw f sh)) = sh_cw_waiters sh" "sh_cw_replies (snd (with_cw f sh)) = sh_cw_replies sh"
  by (auto simp: with_cw_def split: option.split prod.split)

lemma kick_pump_frame [simp]:
  "sh_queue (kick_pump sh) = sh_queue sh" "sh_replies (kick_pump sh) = sh_replies sh" "sh_cache (kick_pump sh) = sh_cache sh"
  "sh_poisoned (kick_pump sh) = sh_poisoned sh" "sh_cw (kick_pump sh) = sh_cw sh"
  "sh_cw_waiters (kick_pump sh) = sh_cw_waiters sh" "sh_cw_replies (kick_pump sh) = sh_cw_replies sh"
  by (simp_all add: kick_pump_def)

lemma route_notice_frame:
  "sh_queue (snd (route_notice n st)) = sh_queue (snd st)" "sh_replies (snd (route_notice n st)) = sh_replies (snd st)"
  "sh_cache (snd (route_notice n st)) = sh_cache (snd st)" "sh_poisoned (snd (route_notice n st)) = sh_poisoned (snd st)"
  by (auto simp: route_notice_def split: cw_notice.split option.split prod.split)

lemma fold_keeps: "(\<And>x st. f (g x st) = f st) \<Longrightarrow> f (fold g xs st) = f st"
  by (induction xs arbitrary: st) simp_all

lemma route_cw_notices_frame [simp]:
  "sh_queue (route_cw_notices ns sh) = sh_queue sh" "sh_replies (route_cw_notices ns sh) = sh_replies sh"
  "sh_cache (route_cw_notices ns sh) = sh_cache sh" "sh_poisoned (route_cw_notices ns sh) = sh_poisoned sh"
proof -
  obtain gone sh1 where r: "fold route_notice ns ([], sh) = (gone, sh1)" by fastforce
  have 1: "f sh1 = f sh" if "\<And>n st. f (snd (route_notice n st)) = f (snd st)" for f
    using fold_keeps [where f = "f \<circ> snd" and g = route_notice and xs = ns and st = "([], sh)"] that r by simp
  have 2: "f (fold (\<lambda>owner sh. snd (with_cw (cw_disarm owner) sh)) gone sh1) = f sh1"
    if "\<And>owner sh. f (snd (with_cw (cw_disarm owner) sh)) = f sh" for f
    using that by (rule fold_keeps)
  show "sh_queue (route_cw_notices ns sh) = sh_queue sh" "sh_replies (route_cw_notices ns sh) = sh_replies sh"
    "sh_cache (route_cw_notices ns sh) = sh_cache sh" "sh_poisoned (route_cw_notices ns sh) = sh_poisoned sh"
    by (simp_all add: route_cw_notices_def r 1 2 route_notice_frame)
qed

lemma take_cw_notices_frame [simp]:
  "sh_queue (take_cw_notices sh) = sh_queue sh" "sh_replies (take_cw_notices sh) = sh_replies sh"
  "sh_cache (take_cw_notices sh) = sh_cache sh" "sh_poisoned (take_cw_notices sh) = sh_poisoned sh"
proof -
  obtain x sh1 where w: "with_cw take_notices sh = (x, sh1)" by fastforce
  note f = with_cw_frame [where f = take_notices and sh = sh, unfolded w snd_conv]
  show "sh_queue (take_cw_notices sh) = sh_queue sh" "sh_replies (take_cw_notices sh) = sh_replies sh"
    "sh_cache (take_cw_notices sh) = sh_cache sh" "sh_poisoned (take_cw_notices sh) = sh_poisoned sh"
    by (simp_all add: take_cw_notices_def w f split: option.split)
qed

lemma cw_wait_frame [simp]:
  "sh_queue (snd (cw_wait owner is_arm f sh)) = sh_queue sh" "sh_replies (snd (cw_wait owner is_arm f sh)) = sh_replies sh"
  "sh_cache (snd (cw_wait owner is_arm f sh)) = sh_cache sh" "sh_poisoned (snd (cw_wait owner is_arm f sh)) = sh_poisoned sh"
  by (auto simp: cw_wait_def sync_channel_def split: option.split prod.split sum.split)

lemma host_apply_cases:
  obtains a where "host_apply command sh = (Answered a, sh)"
  | "host_apply command sh = (WaitQueue (fst (enqueue_command command sh)), snd (enqueue_command command sh))"
  by (cases command) (auto simp: host_apply_def split_def)

lemma apply_cw_cases:
  obtains "sh_queue (snd (apply_cw est now console command sh)) = sh_queue sh"
      "sh_replies (snd (apply_cw est now console command sh)) = sh_replies sh"
      "sh_cache (snd (apply_cw est now console command sh)) = sh_cache sh"
      "sh_poisoned (snd (apply_cw est now console command sh)) = sh_poisoned sh"
  | "snd (apply_cw est now console command sh) = snd (enqueue_command command sh)"
proof -
  let ?sh = "snd (apply_cw est now console command sh)"
  have h: "snd (host_apply command sh) = sh \<or> snd (host_apply command sh) = snd (enqueue_command command sh)"
    by (cases rule: host_apply_cases [of command sh]) simp_all
  have "(sh_queue ?sh = sh_queue sh \<and> sh_replies ?sh = sh_replies sh \<and> sh_cache ?sh = sh_cache sh \<and> sh_poisoned ?sh = sh_poisoned sh) \<or>
    ?sh = snd (enqueue_command command sh)"
  proof (cases command)
    case (SendCwText t)
    obtain q sh' where w: "with_cw (cw_send est console t now) sh = (q, sh')" by fastforce
    note f = with_cw_frame [where f = "cw_send est console t now" and sh = sh, unfolded w snd_conv]
    from SendCwText show ?thesis by (simp add: apply_cw_def w f)
  next
    case (SetKeyerSpeed wpm)
    with h show ?thesis by (auto simp: apply_cw_def split: if_split)
  qed (use h in \<open>auto simp: apply_cw_def\<close>)
  with that show ?thesis by blast
qed

lemma host_step_queue: "queue_step flight sh (host_step est now call sh)"
proof (cases call)
  case (CallApply console command)
  then show ?thesis
    by (cases rule: apply_cw_cases [of est now console command sh]) (simp_all add: host_step_def queue_step_frame enqueue_step)
next
  case (CallGiveUp k)
  then show ?thesis by (auto simp: host_step_def queue_step_def queue_ok_def answered_def chn_drop_def)
qed (auto simp: host_step_def console_attached_as_def console_attached_def console_detached_as_def console_detached_def
      patch_state_def shutdown_cw_def Let_def intro!: queue_step_frame)

lemma interfere_queue: "queue_step flight (w_shared w) (w_shared (interfere est w))"
  by (auto simp: interfere_def intro!: queue_step_fold host_step_queue split: list.split)

lemma radio_call_queue: "queue_step flight (w_shared w) (w_shared (snd (radio_call est f w)))"
  using interfere_queue [of flight "w\<lparr>w_radio := snd (f (w_radio w))\<rparr>" est] by (simp add: radio_call_def split_def)

lemma drive_answer_queue: "queue_step flight (w_shared w) (w_shared (snd (drive_answer est radio a w)))"
  by (simp add: drive_answer_def radio_call_queue split: option.split)

lemma drive_loop_queue: "queue_step flight (w_shared w) (w_shared (drive_loop est radio n w))"
proof (induction est radio n w rule: drive_loop.induct)
  case (2 est radio n w)
  obtain action sh where n: "with_cw (next_action (w_clock w)) (w_shared w) = (action, sh)" by fastforce
  let ?w1 = "w\<lparr>w_shared := take_cw_notices sh\<rparr>"
  have 1: "queue_step flight (w_shared w) (w_shared ?w1)"
    using with_cw_frame [where f = "next_action (w_clock w)" and sh = "w_shared w", unfolded n snd_conv]
    by (intro queue_step_frame) simp_all
  show ?case
  proof (cases "\<exists>a. action = Some (Some a)")
    case True
    then obtain a where a: "action = Some (Some a)" by blast
    obtain outcome w2 where d: "drive_answer est radio a ?w1 = (outcome, w2)" by fastforce
    let ?w3 = "on_shared (\<lambda>sh. take_cw_notices (snd (with_cw (\<lambda>sv. ((), cw_complete est outcome (w_clock w2) sv)) sh))) w2"
    note 1
    also have "queue_step flight (w_shared ?w1) (w_shared w2)" using drive_answer_queue [of flight ?w1 est radio a] d by simp
    also have "queue_step flight (w_shared w2) (w_shared ?w3)" by (intro queue_step_frame) (simp_all add: on_shared_def)
    also have "queue_step flight (w_shared ?w3) (w_shared (drive_loop est radio n ?w3))"
      using 2 n a d by simp
    finally show ?thesis using n a d by simp
  next
    case False
    then have "drive_loop est radio (Suc n) w = ?w1" using n by (auto simp: Let_def split: option.split)
    with 1 show ?thesis by simp
  qed
qed simp

lemma drive_cw_queue: "queue_step flight (w_shared w) (w_shared (drive_cw est radio w))"
  by (simp add: drive_cw_def drive_loop_queue)

lemma apply_queued_queue: "queue_step flight (w_shared w) (w_shared (snd (apply_queued est radio command w)))"
proof (cases command)
  case (SetKeyerSpeed wpm)
  have "queue_step flight (w_shared w) (w_shared (on_shared (\<lambda>sh. sh\<lparr>sh_cw_settings := g sh\<rparr>) (snd (radio_call est f w))))" for f g
    by (rule queue_step_trans [OF radio_call_queue [of flight w est f]]) (auto simp: on_shared_def intro: queue_step_frame)
  then show ?thesis using SetKeyerSpeed radio_call_queue [of flight w est]
    by (auto simp: apply_queued_def split_def split: option.split sum.split)
qed (simp_all add: apply_queued_def radio_call_queue)

lemma apply_all_queue:
  "queue_step flight (w_shared w) (w_shared (snd (apply_all est radio queued w))) \<and>
   map fst (fst (apply_all est radio queued w)) = map snd queued"
proof (induction est radio queued w rule: apply_all.induct)
  case (2 est radio command reply queued w)
  obtain result w1 where a: "apply_queued est radio command w = (result, w1)" by fastforce
  have "queue_step flight (w_shared w) (w_shared w1)" using apply_queued_queue [of flight w est radio command] a by simp
  also have "queue_step flight (w_shared w1) (w_shared (drive_cw est radio w1))" by (rule drive_cw_queue)
  also have "queue_step flight (w_shared (drive_cw est radio w1)) (w_shared (snd (apply_all est radio queued (drive_cw est radio w1))))"
    using 2 [OF a [symmetric]] by simp
  finally show ?case using 2 [OF a [symmetric]] a by (simp add: split_def)
qed simp

lemma read_levels_queue: "queue_step flight (w_shared w) (w_shared (snd (read_levels est radio pump w)))"
  using radio_call_queue [of flight w est "nr_levels radio"]
  by (auto simp: read_levels_def split_def split: option.split)

lemma read_cw_settings_queue: "queue_step flight (w_shared w) (w_shared (snd (read_cw_settings est radio pump w)))"
proof -
  have "queue_step flight (w_shared w) (w_shared (on_shared (\<lambda>sh. sh\<lparr>sh_cw_settings := x\<rparr>) (snd (radio_call est (ncw_settings c) w))))" for x c
    by (rule queue_step_trans [OF radio_call_queue [of flight w est "ncw_settings c"]]) (auto simp: on_shared_def intro: queue_step_frame)
  then show ?thesis
    using radio_call_queue [of flight w est] by (auto simp: read_cw_settings_def split_def split: option.split)
qed

lemma poll_radio_queue: "queue_step flight (w_shared w) (w_shared (snd (poll_radio est radio pump w)))"
proof -
  obtain state w1 where 1: "radio_call est (nr_state radio) w = (state, w1)" by fastforce
  obtain pump1 w2 where 2: "read_levels est radio pump w1 = (pump1, w2)" by fastforce
  obtain pump2 w3 where 3: "read_cw_settings est radio pump1 w2 = (pump2, w3)" by fastforce
  have "queue_step flight (w_shared w) (w_shared w1)" using radio_call_queue [of flight w est "nr_state radio"] 1 by simp
  also have "queue_step flight (w_shared w1) (w_shared w2)" using read_levels_queue [of flight w1 est radio pump] 2 by simp
  also have "queue_step flight (w_shared w2) (w_shared w3)" using read_cw_settings_queue [of flight w2 est radio pump1] 3 by simp
  also have "queue_step flight (w_shared w3) (w_shared (on_shared (shared_publish_state x t g) w3))" for x t g
    by (rule queue_step_frame) (simp_all add: on_shared_def shared_publish_state_def)
  finally show ?thesis by (simp add: poll_radio_def Let_def 1 2 3)
qed

lemma stop_after_poison_queue: "queue_step flight (w_shared w) (w_shared (snd (stop_after_poison est radio pump w)))"
proof -
  let ?w1 = "on_shared (\<lambda>sh. sh\<lparr>sh_cw_abort_requested := False\<rparr>) w"
  have 1: "queue_step flight (w_shared w) (w_shared ?w1)" by (rule queue_step_frame) (simp_all add: on_shared_def)
  show ?thesis
    by (simp add: stop_after_poison_def Let_def 1 queue_step_trans [OF 1 radio_call_queue] split: option.split)
qed

lemma check_cw_frame:
  "sh_queue (snd (check_cw lc radio pump sh)) = sh_queue sh" "sh_replies (snd (check_cw lc radio pump sh)) = sh_replies sh"
  by (auto simp: check_cw_def enable_cw_def split: option.split sum.split)

text \<open>A cycle in its parts.\<close>

lemma pump_once_parts:
  assumes "pump_once est lc radio interval pump0 w0 = (d, pump', w')"
  obtains pump1 sh1 pump2 w2 w3 results w5 where
    "check_cw lc radio pump0 (w_shared w0) = (pump1, sh1)"
    "(pump2, w2) = (if sh_poisoned sh1 then stop_after_poison est radio pump1 (w0\<lparr>w_shared := sh1\<rparr>)
       else (pump1, on_shared (\<lambda>sh. sh\<lparr>sh_cw_abort_requested := False\<rparr>) (w0\<lparr>w_shared := sh1\<rparr>)))"
    "w3 = drive_cw est radio w2"
    "apply_all est radio (sh_queue (w_shared w3)) (on_shared (\<lambda>sh. sh\<lparr>sh_queue := []\<rparr>) w3) = (results, w5)"
    "(pump', on_shared (fold (\<lambda>(reply, result). send_reply reply result) results) (snd (if \<not> cw_live (w_shared w5)
       then poll_radio est radio pump2 w5 else (pump2, w5)))) =
       (fst (if \<not> cw_live (w_shared w5) then poll_radio est radio pump2 w5 else (pump2, w5)), w')"
proof -
  obtain pump1 sh1 where 1: "check_cw lc radio pump0 (w_shared w0) = (pump1, sh1)" by fastforce
  obtain pump2 w2 where 2: "(if sh_poisoned sh1 then stop_after_poison est radio pump1 (w0\<lparr>w_shared := sh1\<rparr>)
       else (pump1, on_shared (\<lambda>sh. sh\<lparr>sh_cw_abort_requested := False\<rparr>) (w0\<lparr>w_shared := sh1\<rparr>))) = (pump2, w2)"
    by fastforce
  define w3 where "w3 = drive_cw est radio w2"
  obtain results w5 where 4: "apply_all est radio (sh_queue (w_shared w3)) (on_shared (\<lambda>sh. sh\<lparr>sh_queue := []\<rparr>) w3) = (results, w5)"
    by fastforce
  show ?thesis
    by (rule that [OF 1 2 [symmetric] w3_def 4])
      (use assms 1 2 4 in \<open>auto simp: pump_once_def Let_def take_queued_def w3_def [symmetric] on_shared_def split: prod.splits if_splits\<close>)
qed

lemma send_results_alt:
  "fold (\<lambda>(reply, result). send_reply reply result) results sh = send_all (map (\<lambda>(k, r). (r, k)) results) (\<lambda>r. r) sh"
  by (induction results arbitrary: sh) (auto simp: send_all_def split: prod.splits)

lemma queue_ok_sent:
  assumes "queue_ok (map fst results) sh"
  shows "queue_ok [] (fold (\<lambda>(reply, result). send_reply reply result) results sh)"
    "chn_values (sh_replies sh) k = Some v \<Longrightarrow>
     chn_values (sh_replies (fold (\<lambda>(reply, result). send_reply reply result) results sh)) k = Some v"
proof -
  let ?xs = "map (\<lambda>(k, r). (r, k)) results" and ?sh = "send_all (map (\<lambda>(k, r). (r, k)) results) (\<lambda>r. r) sh"
  have img: "snd ` set ?xs = set (map fst results)" by (auto simp: image_iff) force+
  have v: "chn_values (sh_replies ?sh) j = chn_values (sh_replies sh) j" if "j \<notin> set (map fst results)" for j
    using send_all_other [of j ?xs "\<lambda>r. r" sh] that unfolding img .
  have "chn_values (sh_replies ?sh) j = None" if "j \<in> set (map snd (sh_queue sh))" for j
  proof -
    have "j \<notin> set (map fst results)" using that assms by (auto simp: queue_ok_def)
    moreover have "chn_values (sh_replies sh) j = None" using that assms by (auto simp: queue_ok_def)
    ultimately show ?thesis using v [of j] by simp
  qed
  moreover have "j < chn_next (sh_replies sh)" if "chn_values (sh_replies ?sh) j \<noteq> None" for j
    using that assms v [of j] by (cases "j \<in> set (map fst results)") (auto simp: queue_ok_def)
  ultimately show "queue_ok [] (fold (\<lambda>(reply, result). send_reply reply result) results sh)"
    using assms unfolding send_results_alt by (auto simp: queue_ok_def)
  show "chn_values (sh_replies sh) k = Some v \<Longrightarrow>
     chn_values (sh_replies (fold (\<lambda>(reply, result). send_reply reply result) results sh)) k = Some v"
    unfolding send_results_alt using assms v [of k] by (cases "k \<in> set (map fst results)") (auto simp: queue_ok_def)
qed

lemma pump_once_queue:
  assumes "pump_once est lc radio interval pump0 w0 = (d, pump', w')"
  shows "(\<forall>x \<in> set (sh_queue (w_shared w0)). answered (snd x) (w_shared w')) \<and>
    (\<forall>k. answered k (w_shared w0) \<longrightarrow> answered k (w_shared w')) \<and>
    (queue_ok [] (w_shared w0) \<longrightarrow> queue_ok [] (w_shared w') \<and>
       (\<forall>k v. chn_values (sh_replies (w_shared w0)) k = Some v \<longrightarrow> chn_values (sh_replies (w_shared w')) k = Some v))"
  using assms
proof (rule pump_once_parts)
  fix pump1 sh1 pump2 w2 w3 results w5
  assume 1: "check_cw lc radio pump0 (w_shared w0) = (pump1, sh1)"
    and 2: "(pump2, w2) = (if sh_poisoned sh1 then stop_after_poison est radio pump1 (w0\<lparr>w_shared := sh1\<rparr>)
       else (pump1, on_shared (\<lambda>sh. sh\<lparr>sh_cw_abort_requested := False\<rparr>) (w0\<lparr>w_shared := sh1\<rparr>)))"
    and 3: "w3 = drive_cw est radio w2"
    and 4: "apply_all est radio (sh_queue (w_shared w3)) (on_shared (\<lambda>sh. sh\<lparr>sh_queue := []\<rparr>) w3) = (results, w5)"
    and 5: "(pump', on_shared (fold (\<lambda>(reply, result). send_reply reply result) results) (snd (if \<not> cw_live (w_shared w5)
       then poll_radio est radio pump2 w5 else (pump2, w5)))) =
       (fst (if \<not> cw_live (w_shared w5) then poll_radio est radio pump2 w5 else (pump2, w5)), w')"
  let ?flight = "map snd (sh_queue (w_shared w3))"
  let ?sh4 = "(w_shared w3)\<lparr>sh_queue := []\<rparr>"
  define w6 where "w6 = snd (if \<not> cw_live (w_shared w5) then poll_radio est radio pump2 w5 else (pump2, w5))"
  have s0: "queue_step [] (w_shared w0) sh1"
    using check_cw_frame [of lc radio pump0 "w_shared w0"] 1 by (intro queue_step_frame) simp_all
  also have "queue_step [] sh1 (w_shared w2)"
    using 2 stop_after_poison_queue [of "[]" "w0\<lparr>w_shared := sh1\<rparr>" est radio pump1]
    by (cases "sh_poisoned sh1") (auto simp: on_shared_def intro: queue_step_frame dest!: arg_cong [of _ _ snd])
  also have "queue_step [] (w_shared w2) (w_shared w3)" unfolding 3 by (rule drive_cw_queue)
  finally have before: "queue_step [] (w_shared w0) (w_shared w3)" .
  have "queue_step ?flight ?sh4 (w_shared w5)" and ids: "map fst results = ?flight"
    using apply_all_queue [of ?flight "on_shared (\<lambda>sh. sh\<lparr>sh_queue := []\<rparr>) w3" est radio "sh_queue (w_shared w3)"] 4
    by (simp_all add: on_shared_def)
  note this(1)
  also have "queue_step ?flight (w_shared w5) (w_shared w6)" by (simp add: w6_def poll_radio_queue)
  finally have during: "queue_step ?flight ?sh4 (w_shared w6)" .
  have w': "w_shared w' = fold (\<lambda>(reply, result). send_reply reply result) results (w_shared w6)"
    using 5 by (auto simp: w6_def on_shared_def)
  have sent: "answered k (w_shared w') \<longleftrightarrow> k \<in> set ?flight \<or> answered k (w_shared w6)" for k
  proof -
    have "snd ` set (map (\<lambda>(k, r). (r, k)) results) = set (map fst results)" by (auto simp: image_iff) force+
    then show ?thesis unfolding w' send_results_alt by (simp add: ids)
  qed
  have 6: "answered k (w_shared w3) \<Longrightarrow> answered k (w_shared w6)" for k
    using during by (auto simp: queue_step_def answered_def)
  have "answered (snd x) (w_shared w')" if "x \<in> set (sh_queue (w_shared w0))" for x
    using that before sent 6 by (auto simp: queue_step_def)
  moreover have "answered k (w_shared w')" if "answered k (w_shared w0)" for k
    using that before sent 6 by (auto simp: queue_step_def)
  moreover have "queue_ok [] (w_shared w') \<and>
       (\<forall>k v. chn_values (sh_replies (w_shared w0)) k = Some v \<longrightarrow> chn_values (sh_replies (w_shared w')) k = Some v)"
    if "queue_ok [] (w_shared w0)"
  proof -
    from that before have b: "queue_ok [] (w_shared w3)"
      "chn_values (sh_replies (w_shared w0)) k = Some v \<Longrightarrow> chn_values (sh_replies (w_shared w3)) k = Some v" for k v
      by (auto simp: queue_step_def)
    then have "queue_ok ?flight ?sh4" by (simp add: queue_ok_def)
    with during have "queue_ok ?flight (w_shared w6)"
      "chn_values (sh_replies (w_shared w3)) k = Some v \<Longrightarrow> chn_values (sh_replies (w_shared w6)) k = Some v" for k v
      by (auto simp: queue_step_def)
    with b queue_ok_sent [of results "w_shared w6"] show ?thesis by (auto simp: w' ids)
  qed
  ultimately show ?thesis by blast
qed

subsection \<open>The cached reading\<close>

text \<open>The patches among the calls made during some awaits.\<close>

definition patches :: "(duration \<times> 'p host_call list) list \<Rightarrow> (radio_state \<Rightarrow> radio_state) list" where
  "patches env = concat (map (\<lambda>call. case call of CallPatch change \<Rightarrow> [change] | _ \<Rightarrow> []) (concat (map snd env)))"

lemma patches_simps [simp]:
  "patches [] = []" "patches (a @ b) = patches a @ patches b"
  by (simp_all add: patches_def)

lemma host_step_cache:
  "sh_cache (host_step est now call sh) =
     fold patch_cache (case call of CallPatch change \<Rightarrow> [change] | _ \<Rightarrow> []) (sh_cache sh)"
proof (cases call)
  case (CallApply console command)
  have "sh_cache (snd (enqueue_command command sh)) = sh_cache sh" by (simp add: enqueue_alt Let_def)
  with CallApply show ?thesis by (cases rule: apply_cw_cases [of est now console command sh]) (simp_all add: host_step_def)
qed (simp_all add: host_step_def console_attached_as_def console_attached_def console_detached_as_def console_detached_def
      patch_state_def shutdown_cw_def Let_def)

lemma calls_cache:
  "sh_cache (fold (host_step est now) calls sh) = fold patch_cache (patches [(d, calls)]) (sh_cache sh)"
  by (induction calls arbitrary: sh) (simp_all add: patches_def host_step_cache)

text \<open>An await takes one batch of calls from the environment, or finds it empty.\<close>

definition awaited :: "nat \<Rightarrow> ('r, 'l, 't, 'p) world \<Rightarrow> ('r, 'l, 't, 'p) world \<Rightarrow> bool" where
  "awaited n w w' \<longleftrightarrow> w_env w' = drop n (w_env w) \<and>
     sh_cache (w_shared w') = fold patch_cache (patches (take n (w_env w))) (sh_cache (w_shared w))"

lemma awaited_trans: "awaited m a b \<Longrightarrow> awaited n b c \<Longrightarrow> awaited (m + n) a c"
  by (simp add: awaited_def take_add add.commute [of n m])

lemma radio_call_awaited: "awaited 1 w (snd (radio_call est f w))"
proof (cases "w_env w")
  case (Cons e env)
  then show ?thesis
    using calls_cache [of est "w_clock w + fst e" "snd e" "w_shared w" "fst e"]
    by (cases e) (simp add: awaited_def radio_call_def interfere_def split_def)
qed (simp add: awaited_def radio_call_def interfere_def split_def)

lemma awaited_0: "w_env w' = w_env w \<Longrightarrow> sh_cache (w_shared w') = sh_cache (w_shared w) \<Longrightarrow> awaited 0 w w'"
  by (simp add: awaited_def)

lemma read_levels_awaited: "\<exists>n. awaited n w (snd (read_levels est radio pump w))"
  using radio_call_awaited [of w est "nr_levels radio"] awaited_0 [of w w]
  by (auto simp: read_levels_def split_def split: option.split)

lemma read_cw_settings_awaited: "\<exists>n. awaited n w (snd (read_cw_settings est radio pump w))"
proof (cases "nr_cw radio")
  case (Some c)
  have "awaited 1 w (on_shared (\<lambda>sh. sh\<lparr>sh_cw_settings := x\<rparr>) (snd (radio_call est (ncw_settings c) w)))" for x
    using radio_call_awaited [of w est "ncw_settings c"] by (simp add: awaited_def on_shared_def)
  with Some radio_call_awaited [of w est "ncw_settings c"] awaited_0 [of w w] show ?thesis
    by (auto simp: read_cw_settings_def split_def split: option.split)
qed (use awaited_0 [of w w] in \<open>auto simp: read_cw_settings_def\<close>)

lemma fold_patch_generation: "ca_generation (fold patch_cache cs c) = ca_generation c + of_nat (length cs)"
  by (induction cs arbitrary: c) (simp_all add: patch_cache_def algebra_simps)

lemma file_after_patches:
  assumes "length cs < 2 ^ 64"
  shows "file_reading (Some st) taken (ca_generation c) (fold patch_cache cs c) =
    (if cs = [] then c\<lparr>ca_state := Some st, ca_taken := Some taken, ca_assumed := False\<rparr> else fold patch_cache cs c)"
proof -
  have "(of_nat (length cs) :: u64) = 0 \<longleftrightarrow> length cs = 0"
    using assms of_nat_inverse [of "length cs" "0 :: u64"] by auto
  then show ?thesis by (simp add: file_reading_def fold_patch_generation)
qed

lemma poll_radio_cache:
  assumes "poll_radio est radio pump w = (pump', w')"
  obtains n where "w_env w' = drop n (w_env w)"
    "length (patches (take n (w_env w))) < 2 ^ 64 \<Longrightarrow>
     sh_cache (w_shared w') =
       (case fst (nr_state radio (w_radio w)) of
          Some st \<Rightarrow> if patches (take n (w_env w)) = []
            then (sh_cache (w_shared w))\<lparr>ca_state := Some (st\<lparr>st_levels := ps_levels pump'\<rparr>), ca_taken := Some (w_clock w), ca_assumed := False\<rparr>
            else fold patch_cache (patches (take n (w_env w))) (sh_cache (w_shared w))
        | None \<Rightarrow> fold patch_cache (patches (take n (w_env w))) (sh_cache (w_shared w)))"
proof -
  obtain state w1 where 1: "radio_call est (nr_state radio) w = (state, w1)" by fastforce
  obtain pump1 w2 where 2: "read_levels est radio pump w1 = (pump1, w2)" by fastforce
  obtain pump2 w3 where 3: "read_cw_settings est radio pump1 w2 = (pump2, w3)" by fastforce
  from radio_call_awaited [of w est "nr_state radio"] 1 have "awaited 1 w w1" by simp
  moreover from read_levels_awaited [of w1 est radio pump] 2 obtain m where "awaited m w1 w2" by auto
  moreover from read_cw_settings_awaited [of w2 est radio pump1] 3 obtain k where "awaited k w2 w3" by auto
  ultimately obtain n where n: "awaited n w w3" by (blast intro: awaited_trans)
  have st: "state = fst (nr_state radio (w_radio w))" using 1 by (auto simp: radio_call_def split: prod.splits)
  from assms 1 2 3 have e: "pump' = pump2" "w' = on_shared (shared_publish_state (map_option (\<lambda>s. s\<lparr>st_levels := ps_levels pump2\<rparr>) state)
      (w_clock w) (generation (w_shared w))) w3"
    by (auto simp: poll_radio_def Let_def)
  show ?thesis
  proof (rule that [of n])
    show "w_env w' = drop n (w_env w)" using n by (simp add: e awaited_def on_shared_def)
    assume "length (patches (take n (w_env w))) < 2 ^ 64"
    from file_after_patches [OF this] n show "sh_cache (w_shared w') =
       (case fst (nr_state radio (w_radio w)) of
          Some st \<Rightarrow> if patches (take n (w_env w)) = []
            then (sh_cache (w_shared w))\<lparr>ca_state := Some (st\<lparr>st_levels := ps_levels pump'\<rparr>), ca_taken := Some (w_clock w), ca_assumed := False\<rparr>
            else fold patch_cache (patches (take n (w_env w))) (sh_cache (w_shared w))
        | None \<Rightarrow> fold patch_cache (patches (take n (w_env w))) (sh_cache (w_shared w)))"
      unfolding st [symmetric]
      by (cases state) (simp_all add: e awaited_def on_shared_def shared_publish_state_def generation_def, simp add: file_reading_def)
  qed
qed

text \<open>A poll of the sample state during which a console tunes.\<close>

definition retuned :: "radio_state \<Rightarrow> radio_state" where
  "retuned st = st\<lparr>st_vfo_a_hz := 14074000\<rparr>"

definition polled_radio :: "unit native_radio" where
  "polled_radio = \<lparr>nr_state = (\<lambda>r. (Some sample_state, r)), nr_apply = (\<lambda>_ r. (Inr (), r)), nr_levels = (\<lambda>r. (None, r)), nr_cw = None\<rparr>"

definition polled_world :: "(unit, unit, unit, unit) world" where
  "polled_world = \<lparr>w_shared = shared_publish_state (Some sample_state) 0 0 (shared_new sample_caps None), w_radio = (), w_clock = 1,
     w_env = [(1, [CallPatch retuned])]\<rparr>"

section \<open>Properties\<close>

text \<open>
  C14: A poll never undoes a setting. While the pump reads the radio's state, consoles may set it and the cached reading is
  patched with what they set. If nothing was patched, the reading is filed with the time the poll began;
  if anything was, the reading is discarded and the cache is exactly the patched one, however the patches
  interleave with the exchanges of the poll.
\<close>

theorem poll_never_undoes_set:
  assumes "poll_radio est radio pump w = (pump', w')" and "length (patches (w_env w)) < 2 ^ 64"
  shows "\<exists>n. w_env w' = drop n (w_env w) \<and>
    sh_cache (w_shared w') =
      (case fst (nr_state radio (w_radio w)) of
         Some st \<Rightarrow> if patches (take n (w_env w)) = []
           then (sh_cache (w_shared w))\<lparr>ca_state := Some (st\<lparr>st_levels := ps_levels pump'\<rparr>), ca_taken := Some (w_clock w), ca_assumed := False\<rparr>
           else fold patch_cache (patches (take n (w_env w))) (sh_cache (w_shared w))
       | None \<Rightarrow> fold patch_cache (patches (take n (w_env w))) (sh_cache (w_shared w)))"
  using assms(1)
proof (rule poll_radio_cache)
  fix n
  have "patches (w_env w) = patches (take n (w_env w)) @ patches (drop n (w_env w))"
    using patches_simps(2) [of "take n (w_env w)" "drop n (w_env w)"] by simp
  with assms(2) have "length (patches (take n (w_env w))) < 2 ^ 64" by simp
  moreover assume "w_env w' = drop n (w_env w)" "length (patches (take n (w_env w))) < 2 ^ 64 \<Longrightarrow> sh_cache (w_shared w') =
      (case fst (nr_state radio (w_radio w)) of
         Some st \<Rightarrow> if patches (take n (w_env w)) = []
           then (sh_cache (w_shared w))\<lparr>ca_state := Some (st\<lparr>st_levels := ps_levels pump'\<rparr>), ca_taken := Some (w_clock w), ca_assumed := False\<rparr>
           else fold patch_cache (patches (take n (w_env w))) (sh_cache (w_shared w))
       | None \<Rightarrow> fold patch_cache (patches (take n (w_env w))) (sh_cache (w_shared w)))"
  ultimately show ?thesis by blast
qed

theorem poll_never_undoes_set_witness:
  "\<exists>n. let w' = snd (poll_radio (\<lambda>_ _. 0) polled_radio pump_state_default polled_world)
   in w_env w' = drop n [(1, [CallPatch retuned])] \<and>
      (patches (take n [(1, [CallPatch retuned :: unit host_call])]) \<noteq> [] \<longrightarrow> map_option st_vfo_a_hz (ca_state (sh_cache (w_shared w'))) = Some 14074000)"
proof -
  have "length (patches (w_env polled_world)) < 2 ^ 64" by (simp add: polled_world_def patches_def)
  from poll_never_undoes_set [OF surjective_pairing this, of "\<lambda>_ _. 0" polled_radio pump_state_default] obtain n where
    n: "w_env (snd (poll_radio (\<lambda>_ _. 0) polled_radio pump_state_default polled_world)) = drop n (w_env polled_world)"
    and c: "sh_cache (w_shared (snd (poll_radio (\<lambda>_ _. 0) polled_radio pump_state_default polled_world))) =
      (if patches (take n (w_env polled_world)) = []
       then (sh_cache (w_shared polled_world))\<lparr>ca_state := Some (sample_state\<lparr>st_levels := ps_levels (fst (poll_radio (\<lambda>_ _. 0) polled_radio pump_state_default polled_world))\<rparr>),
         ca_taken := Some (w_clock polled_world), ca_assumed := False\<rparr>
       else fold patch_cache (patches (take n (w_env polled_world))) (sh_cache (w_shared polled_world)))"
    by (auto simp: polled_radio_def)
  show ?thesis
    using n c by (cases n) (auto simp: polled_world_def patches_def Let_def patch_cache_def retuned_def shared_publish_state_def file_reading_def
        shared_new_def cache_default_def intro!: exI [of _ n])
qed

end
