(* ===== verification/Bridge_Safety.thy ===== *)
theory Bridge_Safety imports Native_Bridge "HOL-Library.Code_Target_Nat" begin

text \<open>
  Safety of the bridge: whatever the listener threads do at the pump's awaits, the radio and
  the supervisor behind its lock are in a closed run of \<^verbatim>\<open>Cw_Safety\<close>. So the radio is put back, it is never
  keyed above the clamp, every queued command is answered, and a poisoned lock fails closed.
\<close>

section \<open>Lemmas\<close>

subsection \<open>The supervisor behind the bridge\<close>

text \<open>A supervisor after some requests.\<close>

definition handled :: "(ustr \<Rightarrow> u16 \<Rightarrow> duration) \<Rightarrow> cw_supervisor \<Rightarrow> cw_supervisor \<Rightarrow> bool" where
  "handled est s s' \<longleftrightarrow> (\<exists>reqs. s' = fold (\<lambda>(req, now). cw_handle est req now) reqs s)"

lemma handled_refl [simp]: "handled est s s"
  unfolding handled_def by (rule exI [of _ "[]"]) simp

lemma handled_trans: "handled est a b \<Longrightarrow> handled est b c \<Longrightarrow> handled est a c"
  unfolding handled_def by (metis fold_append comp_apply)

lemma handled_request: "handled est s (cw_handle est req now s)"
  unfolding handled_def by (rule exI [of _ "[(req, now)]"]) simp

lemma handled_requests:
  "handled est s (snd (cw_arm_request owner callsign cap s))" "handled est s (snd (cw_send est owner t now s))"
  "handled est s (abort_send s)" "handled est s (snd (cw_disarm owner s))" "handled est s (cw_detached owner s)"
  "handled est s (cw_shutdown s)" "handled est s (snd (take_notices s))"
  using handled_request [of est s "ReqArm owner callsign cap" 0] handled_request [of est s "ReqSend owner t" now]
    handled_request [of est s ReqAbort 0] handled_request [of est s "ReqDisarm owner" 0]
    handled_request [of est s "ReqDetached owner" 0] handled_request [of est s ReqShutdown 0]
    handled_request [of est s ReqTakeNotices 0]
  by (simp_all add: cw_handle_def)

lemma handled_closed: "handled est s s' \<Longrightarrow> cw_closed est s0 r0 s r \<Longrightarrow> cw_closed est s0 r0 s' r"
proof -
  assume "handled est s s'" and c: "cw_closed est s0 r0 s r"
  then obtain reqs where "s' = fold (\<lambda>(req, now). cw_handle est req now) reqs s" by (auto simp: handled_def)
  moreover have "cw_closed est s0 r0 (fold (\<lambda>(req, now). cw_handle est req now) reqs s) r"
    using c by (induction reqs arbitrary: s) (auto intro: closed_request)
  ultimately show ?thesis by simp
qed

text \<open>Requests leave the exchange in flight alone.\<close>

lemma outstanding_ends [simp]:
  "sup_outstanding (start_restore reason ticket s) = sup_outstanding s"
  "sup_outstanding (begin_stop r m a s) = sup_outstanding s"
  "sup_outstanding (refuse_arm code e s) = sup_outstanding s"
  "sup_outstanding (end_arm reason stop ticket s) = sup_outstanding s"
proof -
  have 1: "sup_outstanding (start_restore reason ticket s) = sup_outstanding s" for reason ticket s
    by (simp add: start_restore_def plan_restore_def Let_def)
  then show "sup_outstanding (start_restore reason ticket s) = sup_outstanding s" .
  have 2: "sup_outstanding (begin_stop r m a s) = sup_outstanding s" for r m a s
    by (auto simp: begin_stop_def Let_def 1 split: activity.split option.split after.split)
  then show "sup_outstanding (begin_stop r m a s) = sup_outstanding s" .
  show "sup_outstanding (refuse_arm code e s) = sup_outstanding s"
    by (simp add: refuse_arm_def Let_def cw_reply_def 1 split: activity.split)
  show "sup_outstanding (end_arm reason stop ticket s) = sup_outstanding s"
    by (simp add: end_arm_def 1 2 split: activity.split after.split)
qed

lemma outstanding_handle [simp]: "sup_outstanding (cw_handle est req now s) = sup_outstanding s"
proof (cases req)
  case (ReqArm owner callsign cap)
  then show ?thesis
    by (auto simp: cw_handle_def cw_arm_request_def take_ticket_def Let_def split: option.split activity.split)
next
  case (ReqSend owner t)
  then show ?thesis by (auto simp: cw_handle_def cw_send_def split: option.split sum.split)
next
  case (ReqDisarm owner)
  then show ?thesis
    by (auto simp: cw_handle_def cw_disarm_def take_ticket_def split: option.split activity.split after.split)
qed (auto simp: cw_handle_def abort_send_def cw_detached_def cw_shutdown_def take_notices_def Let_def
      split: activity.split option.split)

lemma handled_outstanding: "handled est s s' \<Longrightarrow> sup_outstanding s' = sup_outstanding s"
proof -
  assume "handled est s s'"
  then obtain reqs where "s' = fold (\<lambda>(req, now). cw_handle est req now) reqs s" by (auto simp: handled_def)
  moreover have "sup_outstanding (fold (\<lambda>(req, now). cw_handle est req now) reqs s) = sup_outstanding s"
    by (induction reqs arbitrary: s) auto
  ultimately show ?thesis by simp
qed

text \<open>What happens to the supervisor outside the pump's own calls, unless its lock is poisoned.\<close>

definition gone_ok :: "('l, 't, 'p) native_shared \<Rightarrow> bool" where
  "gone_ok sh \<longleftrightarrow> (\<forall>k. chn_gone (sh_cw_replies sh) k \<longrightarrow> k < chn_next (sh_cw_replies sh))"

definition follows :: "(ustr \<Rightarrow> u16 \<Rightarrow> duration) \<Rightarrow> ('l, 't, 'p) native_shared \<Rightarrow> ('l, 't, 'p) native_shared \<Rightarrow> bool" where
  "follows est sh sh' \<longleftrightarrow> sh_capabilities sh' = sh_capabilities sh \<and> (gone_ok sh \<longrightarrow> gone_ok sh') \<and>
     (\<not> sh_poisoned sh' \<longrightarrow> \<not> sh_poisoned sh \<and>
        (case sh_cw sh of None \<Rightarrow> sh_cw sh' = None | Some s \<Rightarrow> (\<exists>s'. sh_cw sh' = Some s' \<and> handled est s s')))"

lemma follows_frame:
  "sh_cw sh' = sh_cw sh \<Longrightarrow> sh_poisoned sh' = sh_poisoned sh \<Longrightarrow> sh_capabilities sh' = sh_capabilities sh \<Longrightarrow>
   (gone_ok sh \<Longrightarrow> gone_ok sh') \<Longrightarrow> follows est sh sh'"
  by (simp add: follows_def split: option.split)

lemma follows_refl [simp]: "follows est sh sh"
  by (simp add: follows_frame)

lemma follows_trans [trans]: "follows est a b \<Longrightarrow> follows est b c \<Longrightarrow> follows est a c"
  unfolding follows_def by (cases "sh_cw a"; cases "sh_cw b") (auto intro: handled_trans)

lemma follows_fold: "(\<And>x sh. follows est sh (f x sh)) \<Longrightarrow> follows est sh (fold f xs sh)"
proof (induction xs arbitrary: sh)
  case (Cons x xs)
  from Cons.prems Cons.IH [OF Cons.prems] have "follows est sh (f x sh)" "follows est (f x sh) (fold f xs (f x sh))" by blast+
  then show ?case by (simp add: follows_trans)
qed simp

lemma with_cw_follows:
  assumes "\<And>s. handled est s (snd (f s))"
  shows "follows est sh (snd (with_cw f sh))"
proof (cases "sh_cw sh")
  case (Some s)
  with assms [of s] show ?thesis by (simp add: with_cw_def follows_def gone_ok_def split_def)
qed (simp add: with_cw_def)

lemma kick_follows: "follows est sh sh' \<Longrightarrow> follows est sh (kick_pump sh')"
  by (erule follows_trans) (rule follows_frame, simp_all add: kick_pump_def gone_ok_def)

lemma cw_wait_follows: "(\<And>s. handled est s (snd (f s))) \<Longrightarrow> follows est sh (snd (cw_wait owner is_arm f sh))"
proof -
  assume h: "\<And>s. handled est s (snd (f s))"
  show ?thesis
  proof (cases "sh_cw sh")
    case (Some s)
    obtain x s' where f: "f s = (x, s')" by fastforce
    with h [of s] have "handled est s s'" by simp
    with Some f show ?thesis by (cases x) (auto simp: cw_wait_def follows_def kick_pump_def sync_channel_def gone_ok_def less_Suc_eq)
  qed (simp add: cw_wait_def)
qed

lemma send_all_capabilities:
  "sh_capabilities (send_all xs f sh) = sh_capabilities sh" "sh_cw_replies (send_all xs f sh) = sh_cw_replies sh"
  by (induction xs arbitrary: sh) (auto simp: send_all_def send_reply_def split: prod.splits)

lemma enqueue_follows: "follows est sh (snd (enqueue_command command sh))"
  by (rule follows_frame) (simp_all add: enqueue_alt Let_def send_all_capabilities gone_ok_def)

lemma host_apply_follows: "follows est sh (snd (host_apply command sh))"
  by (cases rule: host_apply_cases [of command sh]) (simp_all add: enqueue_follows)

lemma apply_cw_follows: "follows est sh (snd (apply_cw est now console command sh))"
proof (cases command)
  case (SendCwText t)
  have "follows est sh (snd (with_cw (cw_send est console t now) sh))" by (intro with_cw_follows handled_requests)
  from kick_follows [OF this] SendCwText show ?thesis by (simp add: apply_cw_def split_def)
next
  case AbortCw
  have "follows est sh (sh\<lparr>sh_cw_abort_requested := True, sh_cw := map_option abort_send (sh_cw sh)\<rparr>)"
    by (auto simp: follows_def handled_requests gone_ok_def split: option.split)
  with AbortCw show ?thesis by (simp add: apply_cw_def kick_follows)
qed (simp_all add: apply_cw_def host_apply_follows cw_wait_follows handled_requests)

lemma route_notice_cw:
  "sh_cw (snd (route_notice n st)) = sh_cw (snd st)" "sh_capabilities (snd (route_notice n st)) = sh_capabilities (snd st)"
  "gone_ok (snd st) \<Longrightarrow> gone_ok (snd (route_notice n st))"
  by (auto simp: route_notice_def gone_ok_def chn_send_def split: cw_notice.split option.split prod.split)

lemma fold_route_frame:
  "sh_cw (snd (fold route_notice ns st)) = sh_cw (snd st)" "sh_poisoned (snd (fold route_notice ns st)) = sh_poisoned (snd st)"
  "sh_capabilities (snd (fold route_notice ns st)) = sh_capabilities (snd st)"
  by (induction ns arbitrary: st) (simp_all add: route_notice_cw route_notice_frame(4))

lemma fold_route_gone: "gone_ok (snd st) \<Longrightarrow> gone_ok (snd (fold route_notice ns st))"
  by (induction ns arbitrary: st) (simp_all add: route_notice_cw(3))

lemma route_follows: "follows est sh (route_cw_notices ns sh)"
proof -
  obtain gone sh1 where r: "fold route_notice ns ([], sh) = (gone, sh1)" by fastforce
  have "follows est sh sh1"
    using fold_route_frame [of ns "([], sh)"] fold_route_gone [of "([], sh)" ns] r by (intro follows_frame) simp_all
  also have "follows est sh1 (fold (\<lambda>owner sh. snd (with_cw (cw_disarm owner) sh)) gone sh1)"
    by (intro follows_fold with_cw_follows handled_requests)
  finally show ?thesis by (simp add: route_cw_notices_def r)
qed

lemma take_notices_follows: "follows est sh (take_cw_notices sh)"
proof -
  obtain x sh1 where w: "with_cw take_notices sh = (x, sh1)" by fastforce
  have "follows est sh (snd (with_cw take_notices sh))" by (intro with_cw_follows handled_requests)
  then have "follows est sh sh1" by (simp add: w)
  with route_follows show ?thesis by (auto simp: take_cw_notices_def w split: option.split intro: follows_trans)
qed

lemma host_step_follows: "follows est sh (host_step est now call sh)"
proof (cases call)
  case (CallDetach console)
  have "follows est sh (kick_pump (snd (with_cw (\<lambda>sv. ((), cw_detached console sv)) sh)))"
    by (intro kick_follows with_cw_follows) (simp add: handled_requests)
  also have "follows est \<dots> (host_step est now call sh)"
    using CallDetach by (intro follows_frame) (simp_all add: host_step_def console_detached_as_def console_detached_def Let_def gone_ok_def)
  finally show ?thesis .
next
  case CallShutdown
  then show ?thesis by (auto simp: host_step_def shutdown_cw_def handled_requests intro!: kick_follows with_cw_follows)
next
  case CallPoison
  then show ?thesis by (simp add: host_step_def follows_def gone_ok_def)
qed (auto simp: host_step_def apply_cw_follows console_attached_as_def console_attached_def patch_state_def gone_ok_def chn_drop_def
      intro!: follows_frame)

lemma interfere_follows: "follows est (w_shared w) (w_shared (interfere est w))"
  by (auto simp: interfere_def intro!: follows_fold host_step_follows split: list.split)

lemma interfere_radio [simp]: "w_radio (interfere est w) = w_radio w"
  by (simp add: interfere_def split: list.split)

lemma radio_call_follows:
  "follows est (w_shared w) (w_shared (snd (radio_call est f w)))" "w_radio (snd (radio_call est f w)) = snd (f (w_radio w))"
  "fst (radio_call est f w) = fst (f (w_radio w))"
  using interfere_follows [of est "w\<lparr>w_radio := snd (f (w_radio w))\<rparr>"] by (simp_all add: radio_call_def split_def)

text \<open>
  A radio that reports its power and break-in as they are, and changes each of them only when the server sets
  it: nobody turns its knobs. A write that fails, or is answered without effect, is allowed.
\<close>

definition truthful :: "'r native_radio \<Rightarrow> 'r native_cw \<Rightarrow> ('r \<Rightarrow> u16) \<Rightarrow> ('r \<Rightarrow> break_in_kind) \<Rightarrow> bool" where
  "truthful radio c pwr brk \<longleftrightarrow>
     (let same = (\<lambda>r r'. pwr r' = pwr r \<and> brk r' = brk r)
      in nr_cw radio = Some c \<and>
         (\<forall>r. same r (snd (nr_state radio r)) \<and> same r (snd (nr_levels radio r)) \<and>
              (\<forall>command. same r (snd (nr_apply radio command r))) \<and>
              same r (snd (ncw_status c r)) \<and> same r (snd (ncw_settings c r)) \<and> same r (snd (ncw_ready c r)) \<and>
              same r (snd (ncw_stop c r)) \<and> (\<forall>t. same r (snd (ncw_send_chunk c t r))) \<and>
              (\<forall>wpm. same r (snd (ncw_set_keyer_wpm c wpm r))) \<and>
              same r (snd (ncw_power_raw c r)) \<and> (\<forall>p. fst (ncw_power_raw c r) = Inr p \<longrightarrow> p = pwr r) \<and>
              same r (snd (ncw_break_in c r)) \<and> (\<forall>k. fst (ncw_break_in c r) = Inr k \<longrightarrow> k = brk r) \<and>
              (\<forall>p. brk (snd (ncw_set_power_raw c p r)) = brk r \<and> pwr (snd (ncw_set_power_raw c p r)) \<in> {pwr r, p}) \<and>
              (\<forall>k. pwr (snd (ncw_set_break_in c k r)) = pwr r \<and> brk (snd (ncw_set_break_in c k r)) \<in> {brk r, k})))"

definition cw_view :: "('r \<Rightarrow> u16) \<Rightarrow> ('r \<Rightarrow> break_in_kind) \<Rightarrow> 'r \<Rightarrow> cw_radio" where
  "cw_view pwr brk r = \<lparr>r_power = pwr r, r_break_in = brk r\<rparr>"

lemma execute_truthful:
  assumes "truthful radio c pwr brk"
  shows "radio_answers a (cw_view pwr brk r) (fst (cw_execute c a r)) (cw_view pwr brk (snd (cw_execute c a r)))"
proof (cases a)
  case (ActSetPower p)
  from assms have "brk (snd (ncw_set_power_raw c p r)) = brk r \<and> pwr (snd (ncw_set_power_raw c p r)) \<in> {pwr r, p}"
    by (simp add: truthful_def Let_def)
  with ActSetPower show ?thesis by (auto simp: radio_answers_def cw_view_def cw_execute_def)
next
  case (ActSetBreakIn k)
  from assms have "pwr (snd (ncw_set_break_in c k r)) = pwr r \<and> brk (snd (ncw_set_break_in c k r)) \<in> {brk r, k}"
    by (simp add: truthful_def Let_def)
  with ActSetBreakIn show ?thesis by (auto simp: radio_answers_def cw_view_def cw_execute_def)
next
  case ReadPower
  from assms have "pwr (snd (ncw_power_raw c r)) = pwr r \<and> brk (snd (ncw_power_raw c r)) = brk r \<and>
      (\<forall>p. fst (ncw_power_raw c r) = Inr p \<longrightarrow> p = pwr r)"
    by (simp add: truthful_def Let_def)
  with ReadPower show ?thesis
    by (cases "fst (ncw_power_raw c r)") (auto simp: radio_answers_def cw_view_def cw_execute_def outcome_of_def)
next
  case ReadBreakIn
  from assms have "pwr (snd (ncw_break_in c r)) = pwr r \<and> brk (snd (ncw_break_in c r)) = brk r \<and>
      (\<forall>k. fst (ncw_break_in c r) = Inr k \<longrightarrow> k = brk r)"
    by (simp add: truthful_def Let_def)
  with ReadBreakIn show ?thesis
    by (cases "fst (ncw_break_in c r)") (auto simp: radio_answers_def cw_view_def cw_execute_def outcome_of_def)
qed (use assms in \<open>simp_all add: truthful_def Let_def radio_answers_def cw_view_def cw_execute_def\<close>)

text \<open>The supervisor and the radio are in a closed run, as long as the lock is sound.\<close>

definition bridge_closed :: "(ustr \<Rightarrow> u16 \<Rightarrow> duration) \<Rightarrow> radio_capabilities \<Rightarrow> cw_supervisor \<Rightarrow> cw_radio \<Rightarrow> ('r \<Rightarrow> cw_radio) \<Rightarrow>
    ('l, 't, 'p) native_shared \<Rightarrow> 'r \<Rightarrow> bool" where
  "bridge_closed est capabilities s0 r0 view sh r \<longleftrightarrow> sh_capabilities sh = capabilities \<and> gone_ok sh \<and>
     (sh_poisoned sh \<or> (case sh_cw sh of None \<Rightarrow> view r = r0 | Some s \<Rightarrow> cw_closed est s0 r0 s (view r)))"

lemma closed_follows:
  assumes "bridge_closed est capabilities s0 r0 view sh r" and "follows est sh sh'" and "view r' = view r"
  shows "bridge_closed est capabilities s0 r0 view sh' r'"
  using assms by (auto simp: bridge_closed_def follows_def intro: handled_closed split: option.splits)

lemma closed_radio_call:
  assumes "bridge_closed est capabilities s0 r0 view (w_shared w) (w_radio w)" and "view (snd (f (w_radio w))) = view (w_radio w)"
  shows "bridge_closed est capabilities s0 r0 view (w_shared (snd (radio_call est f w))) (w_radio (snd (radio_call est f w)))"
  using closed_follows [OF assms(1) radio_call_follows(1), of _ f] assms(2) by (simp add: radio_call_follows(2))

text \<open>
  A predicate on the radio that only keying can break, and only keying above the clamp or without the
  break-in the keyer needs.
\<close>

definition guards :: "'r native_radio \<Rightarrow> 'r native_cw \<Rightarrow> ('r \<Rightarrow> bool) \<Rightarrow> ('r \<Rightarrow> bool) \<Rightarrow> bool" where
  "guards radio c ready safe \<longleftrightarrow>
     (\<forall>r. safe r \<longrightarrow>
        safe (snd (nr_state radio r)) \<and> safe (snd (nr_levels radio r)) \<and> (\<forall>command. safe (snd (nr_apply radio command r))) \<and>
        safe (snd (ncw_status c r)) \<and> safe (snd (ncw_settings c r)) \<and> safe (snd (ncw_ready c r)) \<and> safe (snd (ncw_stop c r)) \<and>
        (\<forall>wpm. safe (snd (ncw_set_keyer_wpm c wpm r))) \<and> safe (snd (ncw_power_raw c r)) \<and>
        (\<forall>p. safe (snd (ncw_set_power_raw c p r))) \<and> safe (snd (ncw_break_in c r)) \<and> (\<forall>k. safe (snd (ncw_set_break_in c k r))) \<and>
        (\<forall>t. ready r \<longrightarrow> safe (snd (ncw_send_chunk c t r))))"

definition at_clamp :: "cw_send_text \<Rightarrow> tx_gate_capability \<Rightarrow> ('r \<Rightarrow> u16) \<Rightarrow> ('r \<Rightarrow> break_in_kind) \<Rightarrow> 'r \<Rightarrow> bool" where
  "at_clamp send gate pwr brk r \<longleftrightarrow> pwr r = low_power_raw gate \<and> (\<forall>k. requires_break_in send = Some k \<longrightarrow> brk r = k)"

lemma execute_safe:
  assumes "guards radio c ready safe" and "safe r" and "\<And>t. a = SendChunk t \<Longrightarrow> ready r"
  shows "safe (snd (cw_execute c a r))"
  using assms by (cases a) (simp_all add: guards_def cw_execute_def)

lemma drive_loop_closed:
  assumes "truthful radio c pwr brk" and "guards radio c (at_clamp send gate pwr brk) safe"
    and "send_text cap = Some send" and "tx_gate cap = Some gate"
    and "bridge_closed est capabilities (cw_new cap config) r0 (cw_view pwr brk) (w_shared w) (w_radio w)" and "safe (w_radio w)"
  shows "bridge_closed est capabilities (cw_new cap config) r0 (cw_view pwr brk) (w_shared (drive_loop est radio n w)) (w_radio (drive_loop est radio n w)) \<and>
    safe (w_radio (drive_loop est radio n w))"
  using assms(5,6)
proof (induction n arbitrary: w)
  case (Suc n)
  let ?closed = "bridge_closed est capabilities (cw_new cap config) r0 (cw_view pwr brk)"
  let ?poll = "next_action (w_clock w)"
  obtain action sh where n: "with_cw ?poll (w_shared w) = (action, sh)" by fastforce
  let ?w1 = "w\<lparr>w_shared := take_cw_notices sh\<rparr>"
  have sh: "?closed sh (w_radio w)"
  proof (cases "sh_poisoned (w_shared w) \<or> sh_cw (w_shared w) = None")
    case True
    with n have "sh = w_shared w" by (auto simp: with_cw_def split: if_splits)
    with Suc.prems(1) show ?thesis by simp
  next
    case False
    then obtain s where "sh_cw (w_shared w) = Some s" "\<not> sh_poisoned (w_shared w)" by auto
    with n Suc.prems(1) closed_poll [of est _ _ s _ "w_clock w"] show ?thesis
      by (auto simp: with_cw_def bridge_closed_def gone_ok_def split_def)
  qed
  have 1: "?closed (w_shared ?w1) (w_radio ?w1)" using closed_follows [OF sh take_notices_follows] by simp
  show ?case
  proof (cases "\<exists>a. action = Some (Some a)")
    case False
    then have "drive_loop est radio (Suc n) w = ?w1" using n by (auto simp: Let_def split: option.split)
    with 1 Suc.prems(2) show ?thesis by simp
  next
    case True
    then obtain a where a: "action = Some (Some a)" by blast
    from n a obtain s where s: "sh_cw (w_shared w) = Some s" "\<not> sh_poisoned (w_shared w)" "fst (?poll s) = Some a"
      and sh_s: "sh = (w_shared w)\<lparr>sh_cw := Some (snd (?poll s))\<rparr>"
      by (auto simp: with_cw_def split: if_splits option.splits prod.splits)
    obtain st where st: "sup_outstanding (snd (?poll s)) = Some st" "step_action st = Some a"
      using next_loop_action [of 64 "w_clock w" "check_timers (w_clock w) s"] s(3) by (auto simp: next_action_def split: if_splits)
    have c: "nr_cw radio = Some c" using assms(1) by (simp add: truthful_def Let_def)
    let ?w2 = "snd (radio_call est (cw_execute c a) ?w1)" and ?out = "fst (cw_execute c a (w_radio w))"
    have d: "drive_answer est radio a ?w1 = (?out, ?w2)"
      using radio_call_follows(3) [of est "cw_execute c a" ?w1] by (simp add: drive_answer_def c prod_eq_iff)
    have r2: "w_radio ?w2 = snd (cw_execute c a (w_radio w))" using radio_call_follows(2) [of est "cw_execute c a" ?w1] by simp
    have f: "follows est sh (w_shared ?w2)"
      using follows_trans [OF take_notices_follows [of est sh] radio_call_follows(1) [of est ?w1 "cw_execute c a", simplified]] .
    have caps: "sh_capabilities (w_shared ?w2) = capabilities" "gone_ok (w_shared ?w2)"
      using f sh by (simp_all add: follows_def bridge_closed_def)
    have closed_s: "cw_closed est (cw_new cap config) r0 s (cw_view pwr brk (w_radio w))"
      using Suc.prems(1) s by (simp add: bridge_closed_def)
    have safe2: "safe (w_radio ?w2)"
      unfolding r2
    proof (rule execute_safe [OF assms(2) Suc.prems(2)])
      fix t assume "a = SendChunk t"
      with keys_at_clamp [OF closed_s assms(3,4), of "w_clock w" t] s(3)
      show "at_clamp send gate pwr brk (w_radio w)" by (simp add: at_clamp_def cw_view_def)
    qed
    let ?w3 = "on_shared (\<lambda>sh. take_cw_notices (snd (with_cw (\<lambda>sv. ((), cw_complete est ?out (w_clock ?w2) sv)) sh))) ?w2"
    have "?closed (snd (with_cw (\<lambda>sv. ((), cw_complete est ?out (w_clock ?w2) sv)) (w_shared ?w2))) (w_radio ?w2)"
    proof (cases "sh_poisoned (w_shared ?w2)")
      case False
      with f sh_s s(2) obtain s' where s': "sh_cw (w_shared ?w2) = Some s'" "handled est (snd (?poll s)) s'"
        by (auto simp: follows_def)
      have "cw_closed est (cw_new cap config) r0 s' (cw_view pwr brk (w_radio w))"
        by (rule handled_closed [OF s'(2) closed_poll [OF closed_s]])
      moreover have "sup_outstanding s' = Some st" using handled_outstanding [OF s'(2)] st(1) by simp
      ultimately have "cw_closed est (cw_new cap config) r0 (cw_complete est ?out (w_clock ?w2) s') (cw_view pwr brk (w_radio ?w2))"
        using execute_truthful [OF assms(1), of a "w_radio w"] st(2) r2 by (auto intro: closed_answer)
      with False s' caps show ?thesis by (simp add: bridge_closed_def with_cw_def gone_ok_def)
    qed (simp add: bridge_closed_def with_cw_def caps)
    from closed_follows [OF this take_notices_follows] have "?closed (w_shared ?w3) (w_radio ?w3)"
      by (simp add: on_shared_def)
    moreover have "safe (w_radio ?w3)" using safe2 by (simp add: on_shared_def)
    ultimately have "?closed (w_shared (drive_loop est radio n ?w3)) (w_radio (drive_loop est radio n ?w3)) \<and> safe (w_radio (drive_loop est radio n ?w3))"
      by (rule Suc.IH)
    moreover have "drive_loop est radio (Suc n) w = drive_loop est radio n ?w3" using n a d by (simp add: Let_def)
    ultimately show ?thesis by simp
  qed
qed simp

text \<open>The rest of a cycle.\<close>

lemma truthful_view:
  assumes "truthful radio c pwr brk"
  shows "cw_view pwr brk (snd (nr_state radio r)) = cw_view pwr brk r" "cw_view pwr brk (snd (nr_levels radio r)) = cw_view pwr brk r"
    "cw_view pwr brk (snd (nr_apply radio command r)) = cw_view pwr brk r" "cw_view pwr brk (snd (ncw_settings c r)) = cw_view pwr brk r"
    "cw_view pwr brk (snd (ncw_set_keyer_wpm c wpm r)) = cw_view pwr brk r" "cw_view pwr brk (snd (ncw_stop c r)) = cw_view pwr brk r"
    "nr_cw radio = Some c"
  using assms by (simp_all add: truthful_def Let_def cw_view_def)

definition bridge_ok :: "(ustr \<Rightarrow> u16 \<Rightarrow> duration) \<Rightarrow> radio_capabilities \<Rightarrow> cw_supervisor \<Rightarrow> cw_radio \<Rightarrow> ('r \<Rightarrow> cw_radio) \<Rightarrow> ('r \<Rightarrow> bool) \<Rightarrow>
    ('r, 'l, 't, 'p) world \<Rightarrow> bool" where
  "bridge_ok est capabilities s0 r0 view safe w \<longleftrightarrow> bridge_closed est capabilities s0 r0 view (w_shared w) (w_radio w) \<and> safe (w_radio w)"

lemma ok_radio_call:
  assumes "bridge_ok est capabilities s0 r0 view safe w" and "view (snd (f (w_radio w))) = view (w_radio w)"
    and "safe (w_radio w) \<Longrightarrow> safe (snd (f (w_radio w)))"
  shows "bridge_ok est capabilities s0 r0 view safe (snd (radio_call est f w))"
  using assms closed_radio_call [of est capabilities s0 r0 view w f] by (simp add: bridge_ok_def radio_call_follows(2))

lemma ok_on_shared:
  assumes "bridge_ok est capabilities s0 r0 view safe w" and "\<And>sh. sh_cw (g sh) = sh_cw sh" and "\<And>sh. sh_poisoned (g sh) = sh_poisoned sh"
    and "\<And>sh. sh_capabilities (g sh) = sh_capabilities sh" and "\<And>sh. sh_cw_replies (g sh) = sh_cw_replies sh"
  shows "bridge_ok est capabilities s0 r0 view safe (on_shared g w)"
  using assms by (simp add: bridge_ok_def gone_ok_def bridge_closed_def on_shared_def)

lemma ok_drive:
  assumes "truthful radio c pwr brk" and "guards radio c (at_clamp send gate pwr brk) safe"
    and "send_text cap = Some send" and "tx_gate cap = Some gate"
    and "bridge_ok est capabilities (cw_new cap config) r0 (cw_view pwr brk) safe w"
  shows "bridge_ok est capabilities (cw_new cap config) r0 (cw_view pwr brk) safe (drive_cw est radio w)"
  unfolding bridge_ok_def drive_cw_def
  by (rule drive_loop_closed [OF assms(1-4)]) (use assms(5) in \<open>simp_all add: bridge_ok_def\<close>)

lemma ok_apply_queued:
  assumes "truthful radio c pwr brk" and "guards radio c ready safe" and "bridge_ok est capabilities s0 r0 (cw_view pwr brk) safe w"
  shows "bridge_ok est capabilities s0 r0 (cw_view pwr brk) safe (snd (apply_queued est radio command w))"
proof (cases command)
  case (SetKeyerSpeed wpm)
  have 1: "bridge_ok est capabilities s0 r0 (cw_view pwr brk) safe (snd (radio_call est (ncw_set_keyer_wpm c wpm) w))"
    using assms by (intro ok_radio_call) (simp_all add: truthful_view [OF assms(1)] guards_def)
  have 2: "bridge_ok est capabilities s0 r0 (cw_view pwr brk) safe (on_shared (\<lambda>sh. sh\<lparr>sh_cw_settings := g sh\<rparr>) (snd (radio_call est (ncw_set_keyer_wpm c wpm) w)))"
    for g by (rule ok_on_shared [OF 1]) simp_all
  from SetKeyerSpeed assms(3) 1 2 show ?thesis
    by (auto simp: apply_queued_def truthful_view(7) [OF assms(1)] split_def split: sum.split)
qed (use assms in \<open>simp_all add: apply_queued_def ok_radio_call truthful_view [OF assms(1)] guards_def\<close>)

lemma ok_apply_all:
  assumes "truthful radio c pwr brk" and "guards radio c (at_clamp send gate pwr brk) safe"
    and "send_text cap = Some send" and "tx_gate cap = Some gate"
    and "bridge_ok est capabilities (cw_new cap config) r0 (cw_view pwr brk) safe w"
  shows "bridge_ok est capabilities (cw_new cap config) r0 (cw_view pwr brk) safe (snd (apply_all est radio queued w))"
  using assms(5)
proof (induction queued arbitrary: w)
  case (Cons q queued)
  obtain command reply where q: "q = (command, reply)" by fastforce
  have "bridge_ok est capabilities (cw_new cap config) r0 (cw_view pwr brk) safe
      (snd (apply_all est radio queued (drive_cw est radio (snd (apply_queued est radio command w)))))"
    by (intro Cons.IH ok_drive [OF assms(1-4)] ok_apply_queued [OF assms(1,2)] Cons.prems)
  then show ?case by (simp add: q split_def)
qed simp

lemma ok_poll:
  assumes "truthful radio c pwr brk" and "guards radio c ready safe" and "bridge_ok est capabilities s0 r0 (cw_view pwr brk) safe w"
  shows "bridge_ok est capabilities s0 r0 (cw_view pwr brk) safe (snd (poll_radio est radio pump w))"
proof -
  let ?ok = "bridge_ok est capabilities s0 r0 (cw_view pwr brk) safe"
  have levels: "?ok (snd (read_levels est radio pump w))" if "?ok w" for w pump
  proof -
    have "?ok (snd (radio_call est (nr_levels radio) w))"
      using that assms(2) by (intro ok_radio_call) (simp_all add: truthful_view [OF assms(1)] guards_def)
    with that show ?thesis by (auto simp: read_levels_def split_def split: option.split)
  qed
  have settings: "?ok (snd (read_cw_settings est radio pump w))" if "?ok w" for w pump
  proof -
    have 1: "?ok (snd (radio_call est (ncw_settings c) w))"
      using that assms(2) by (intro ok_radio_call) (simp_all add: truthful_view [OF assms(1)] guards_def)
    have "?ok (on_shared (\<lambda>sh. sh\<lparr>sh_cw_settings := x\<rparr>) (snd (radio_call est (ncw_settings c) w)))" for x
      by (rule ok_on_shared [OF 1]) simp_all
    with that 1 show ?thesis
      by (auto simp: read_cw_settings_def truthful_view(7) [OF assms(1)] split_def split: option.split)
  qed
  have 1: "?ok (snd (radio_call est (nr_state radio) w))"
    using assms(2,3) by (intro ok_radio_call) (simp_all add: truthful_view [OF assms(1)] guards_def)
  have "?ok (on_shared (shared_publish_state x t g) (snd (read_cw_settings est radio p2 (snd (read_levels est radio p1 (snd (radio_call est (nr_state radio) w)))))))"
    for x t g p1 p2
    by (rule ok_on_shared [OF settings [OF levels [OF 1]]]) (simp_all add: shared_publish_state_def)
  then show ?thesis by (simp add: poll_radio_def Let_def split_def)
qed

lemma ok_stop_after_poison:
  assumes "truthful radio c pwr brk" and "guards radio c ready safe" and "bridge_ok est capabilities s0 r0 (cw_view pwr brk) safe w"
  shows "bridge_ok est capabilities s0 r0 (cw_view pwr brk) safe (snd (stop_after_poison est radio pump w))"
proof -
  let ?ok = "bridge_ok est capabilities s0 r0 (cw_view pwr brk) safe" and ?w1 = "on_shared (\<lambda>sh. sh\<lparr>sh_cw_abort_requested := False\<rparr>) w"
  have 1: "?ok ?w1" by (rule ok_on_shared [OF assms(3)]) simp_all
  then have "?ok (snd (radio_call est (ncw_stop c) ?w1))"
    using assms(2) by (intro ok_radio_call) (simp_all add: truthful_view [OF assms(1)] guards_def)
  with 1 show ?thesis by (simp add: stop_after_poison_def Let_def truthful_view(7) [OF assms(1)])
qed

lemma ok_check_cw:
  assumes "bridge_ok est capabilities (cw_new cap cw_config_default) r0 view safe w" and "cw capabilities = Some cap"
    and "\<not> ps_cw_checked pump \<Longrightarrow> sh_poisoned (w_shared w) \<or> sh_cw (w_shared w) = None"
    and "check_cw lc radio pump (w_shared w) = (pump', sh')"
  shows "bridge_ok est capabilities (cw_new cap cw_config_default) r0 view safe (w\<lparr>w_shared := sh'\<rparr>) \<and> ps_cw_checked pump'"
  using assms
  by (auto simp: check_cw_def enable_cw_def bridge_ok_def bridge_closed_def gone_ok_def closed_start split: if_splits option.splits sum.splits)

lemma ok_pump_once:
  assumes "truthful radio c pwr brk" and "guards radio c (at_clamp send gate pwr brk) safe"
    and "send_text cap = Some send" and "tx_gate cap = Some gate"
    and "bridge_ok est capabilities (cw_new cap cw_config_default) r0 (cw_view pwr brk) safe w0"
    and "cw capabilities = Some cap"
    and "\<not> ps_cw_checked pump0 \<Longrightarrow> sh_poisoned (w_shared w0) \<or> sh_cw (w_shared w0) = None"
    and "pump_once est lc radio interval pump0 w0 = (d, pump', w')"
  shows "bridge_ok est capabilities (cw_new cap cw_config_default) r0 (cw_view pwr brk) safe w' \<and> ps_cw_checked pump'"
  using assms(8)
proof (rule pump_once_parts)
  let ?ok = "bridge_ok est capabilities (cw_new cap cw_config_default) r0 (cw_view pwr brk) safe"
  fix pump1 sh1 pump2 w2 w3 results w5
  assume 1: "check_cw lc radio pump0 (w_shared w0) = (pump1, sh1)"
    and 2: "(pump2, w2) = (if sh_poisoned sh1 then stop_after_poison est radio pump1 (w0\<lparr>w_shared := sh1\<rparr>)
       else (pump1, on_shared (\<lambda>sh. sh\<lparr>sh_cw_abort_requested := False\<rparr>) (w0\<lparr>w_shared := sh1\<rparr>)))"
    and 3: "w3 = drive_cw est radio w2"
    and 4: "apply_all est radio (sh_queue (w_shared w3)) (on_shared (\<lambda>sh. sh\<lparr>sh_queue := []\<rparr>) w3) = (results, w5)"
    and 5: "(pump', on_shared (fold (\<lambda>(reply, result). send_reply reply result) results) (snd (if \<not> cw_live (w_shared w5)
       then poll_radio est radio pump2 w5 else (pump2, w5)))) =
       (fst (if \<not> cw_live (w_shared w5) then poll_radio est radio pump2 w5 else (pump2, w5)), w')"
  from ok_check_cw [OF assms(5-7) 1] have ok1: "?ok (w0\<lparr>w_shared := sh1\<rparr>)" and checked: "ps_cw_checked pump1" by simp_all
  have "?ok (on_shared (\<lambda>sh. sh\<lparr>sh_cw_abort_requested := False\<rparr>) (w0\<lparr>w_shared := sh1\<rparr>))"
    by (rule ok_on_shared [OF ok1]) simp_all
  with ok_stop_after_poison [OF assms(1,2) ok1, of pump1] 2 have ok2: "?ok w2"
    by (cases "sh_poisoned sh1") (auto dest!: arg_cong [of _ _ snd])
  have checked2: "ps_cw_checked pump2"
    using 2 checked by (auto simp: stop_after_poison_def Let_def split: if_splits)
  have "?ok (on_shared (\<lambda>sh. sh\<lparr>sh_queue := []\<rparr>) w3)"
    unfolding 3 by (rule ok_on_shared [OF ok_drive [OF assms(1-4) ok2]]) simp_all
  from ok_apply_all [OF assms(1-4) this, of "sh_queue (w_shared w3)"] 4 have ok5: "?ok w5" by simp
  have "?ok (snd (if \<not> cw_live (w_shared w5) then poll_radio est radio pump2 w5 else (pump2, w5)))"
    using ok5 ok_poll [OF assms(1,2) ok5] by simp
  then have "?ok (on_shared (fold (\<lambda>(reply, result). send_reply reply result) results)
      (snd (if \<not> cw_live (w_shared w5) then poll_radio est radio pump2 w5 else (pump2, w5))))"
    by (rule ok_on_shared) (simp_all only: send_results_alt send_all_frame send_all_capabilities)
  moreover have "ps_cw_checked (fst (poll_radio est radio pump2 w5))"
    using checked2 by (auto simp: poll_radio_def read_levels_def read_cw_settings_def Let_def split: prod.splits option.splits if_splits)
  ultimately show ?thesis using 5 checked2 by (auto split: if_splits)
qed

text \<open>Every state the bridge can be in: cycles of the pump, and calls between them.\<close>

inductive bridge_reach :: "(ustr \<Rightarrow> u16 \<Rightarrow> duration) \<Rightarrow> (uchar \<Rightarrow> bool) \<Rightarrow> 'r native_radio \<Rightarrow> radio_capabilities \<Rightarrow> 'r \<Rightarrow>
    pump_state \<Rightarrow> ('r, 'l, 't, 'p) world \<Rightarrow> bool"
  for est lc radio capabilities r0 where
  reach_new: "bridge_reach est lc radio capabilities r0 pump_state_default
     \<lparr>w_shared = shared_new capabilities devices, w_radio = r0, w_clock = now, w_env = []\<rparr>"
| reach_call: "bridge_reach est lc radio capabilities r0 pump w \<Longrightarrow> w_clock w \<le> now \<Longrightarrow>
     bridge_reach est lc radio capabilities r0 pump (w\<lparr>w_clock := now, w_shared := host_step est now call (w_shared w)\<rparr>)"
| reach_cycle: "bridge_reach est lc radio capabilities r0 pump w \<Longrightarrow>
     pump_once est lc radio interval pump (w\<lparr>w_env := env\<rparr>) = (d, pump', w') \<Longrightarrow>
     bridge_reach est lc radio capabilities r0 pump' w'"

lemma reach_ok:
  assumes "bridge_reach est lc radio capabilities r0 pump w"
    and "truthful radio c pwr brk" and "guards radio c (at_clamp send gate pwr brk) safe" and "safe r0"
    and "cw capabilities = Some cap" and "send_text cap = Some send" and "tx_gate cap = Some gate"
  shows "bridge_ok est capabilities (cw_new cap cw_config_default) (cw_view pwr brk r0) (cw_view pwr brk) safe w \<and>
    (\<not> ps_cw_checked pump \<longrightarrow> sh_poisoned (w_shared w) \<or> sh_cw (w_shared w) = None)"
  using assms(1)
proof induction
  case (reach_new devices now)
  then show ?case using assms(4) by (simp add: bridge_ok_def bridge_closed_def shared_new_def gone_ok_def no_channels_def)
next
  case (reach_call pump w now call)
  have f: "follows est (w_shared w) (host_step est now call (w_shared w))" by (rule host_step_follows)
  with reach_call show ?case
    using closed_follows [OF _ f, of capabilities _ _ "cw_view pwr brk" "w_radio w" "w_radio w"]
    by (auto simp: bridge_ok_def follows_def split: option.splits)
next
  case (reach_cycle pump w interval env d pump' w')
  then have "bridge_ok est capabilities (cw_new cap cw_config_default) (cw_view pwr brk r0) (cw_view pwr brk) safe (w\<lparr>w_env := env\<rparr>)"
    by (simp add: bridge_ok_def)
  from ok_pump_once [OF assms(2,3,6,7) this assms(5) _ reach_cycle.hyps(2)] reach_cycle.IH show ?case by simp
qed

lemma reach_queue:
  assumes "bridge_reach est lc radio capabilities r0 pump w"
  shows "queue_ok [] (w_shared w)"
  using assms
proof induction
  case (reach_new devices now)
  then show ?case by (simp add: queue_ok_def shared_new_def no_channels_def)
next
  case (reach_call pump w now call)
  with host_step_queue [of "[]" "w_shared w" est now call] show ?case by (simp add: queue_step_def)
next
  case (reach_cycle pump w interval env d pump' w')
  with pump_once_queue [OF reach_cycle.hyps(2)] show ?case by simp
qed

lemma ok_restored:
  assumes "bridge_ok est capabilities (cw_new cap cw_config_default) (cw_view pwr brk r0) (cw_view pwr brk) safe w"
    and "send_text cap = Some send" and "tx_gate cap = Some gate" and "\<not> cw_blocks_external_ptt (w_shared w)"
  shows "pwr (w_radio w) = pwr r0 \<and> brk (w_radio w) = brk r0"
proof -
  have i: "bridge_closed est capabilities (cw_new cap cw_config_default) (cw_view pwr brk r0) (cw_view pwr brk) (w_shared w) (w_radio w)"
    using assms(1) by (simp add: bridge_ok_def)
  have "\<not> sh_poisoned (w_shared w)" using assms(4) by (simp add: cw_blocks_external_ptt_def cw_query_def split: if_splits)
  show ?thesis
  proof (cases "sh_cw (w_shared w)")
    case None
    with i \<open>\<not> sh_poisoned (w_shared w)\<close> show ?thesis by (simp add: bridge_closed_def cw_view_def)
  next
    case (Some s)
    with i \<open>\<not> sh_poisoned (w_shared w)\<close>
    have "cw_closed est (cw_new cap cw_config_default) (cw_view pwr brk r0) s (cw_view pwr brk (w_radio w))"
      by (simp add: bridge_closed_def)
    moreover have "\<not> blocks_external_ptt s"
      using assms(4) Some \<open>\<not> sh_poisoned (w_shared w)\<close> by (simp add: cw_blocks_external_ptt_def cw_query_def)
    ultimately have "cw_view pwr brk (w_radio w) = cw_view pwr brk r0"
      using settings_restored [of est cap cw_config_default "cw_view pwr brk r0" s "cw_view pwr brk (w_radio w)" send gate] assms(2,3)
      by blast
    then show ?thesis by (simp add: cw_view_def)
  qed
qed

text \<open>After a panic inside the supervisor its lock stays poisoned, and the pump drives nothing.\<close>

lemma poisoned_host_step: "sh_poisoned sh \<Longrightarrow> sh_poisoned (host_step est now call sh)"
  using host_step_follows [of est sh now call] by (auto simp: follows_def)

lemma poisoned_radio_call:
  assumes "sh_poisoned (w_shared w)" and "safe (snd (f (w_radio w)))"
  shows "sh_poisoned (w_shared (snd (radio_call est f w))) \<and> safe (w_radio (snd (radio_call est f w)))"
  using assms radio_call_follows(1) [of est w f] by (auto simp: follows_def radio_call_follows(2))

lemma poisoned_drive: "sh_poisoned (w_shared w) \<Longrightarrow> drive_cw est radio w = w"
  by (simp add: drive_cw_def MAX_CW_STEPS_def with_cw_def take_cw_notices_def numeral_eq_Suc)

lemma poisoned_apply_all:
  assumes "\<And>command r. safe r \<Longrightarrow> safe (snd (nr_apply radio command r))" and "sh_poisoned (w_shared w)" and "safe (w_radio w)"
  shows "sh_poisoned (w_shared (snd (apply_all est radio queued w))) \<and> safe (w_radio (snd (apply_all est radio queued w)))"
  using assms(2,3)
proof (induction queued arbitrary: w)
  case (Cons q queued)
  obtain command reply where q: "q = (command, reply)" by fastforce
  let ?w = "snd (apply_queued est radio command w)"
  have "sh_poisoned (w_shared ?w) \<and> safe (w_radio ?w)"
    using Cons.prems assms(1) poisoned_radio_call [OF Cons.prems(1), of safe "nr_apply radio command" est]
    by (cases command) (simp_all add: apply_queued_def cw_blocks_external_ptt_def cw_query_def)
  with Cons.IH [of ?w] show ?case by (simp add: q split_def poisoned_drive)
qed simp

lemma poisoned_pump_once:
  assumes "\<And>command r. safe r \<Longrightarrow> safe (snd (nr_apply radio command r))" and "\<And>c r. nr_cw radio = Some c \<Longrightarrow> safe r \<Longrightarrow> safe (snd (ncw_stop c r))"
    and "sh_poisoned (w_shared w0)" and "safe (w_radio w0)" and "pump_once est lc radio interval pump0 w0 = (d, pump', w')"
  shows "sh_poisoned (w_shared w') \<and> safe (w_radio w')"
  using assms(5)
proof (rule pump_once_parts)
  let ?ok = "\<lambda>w. sh_poisoned (w_shared w) \<and> safe (w_radio w)"
  fix pump1 sh1 pump2 w2 w3 results w5
  assume 1: "check_cw lc radio pump0 (w_shared w0) = (pump1, sh1)"
    and 2: "(pump2, w2) = (if sh_poisoned sh1 then stop_after_poison est radio pump1 (w0\<lparr>w_shared := sh1\<rparr>)
       else (pump1, on_shared (\<lambda>sh. sh\<lparr>sh_cw_abort_requested := False\<rparr>) (w0\<lparr>w_shared := sh1\<rparr>)))"
    and 3: "w3 = drive_cw est radio w2"
    and 4: "apply_all est radio (sh_queue (w_shared w3)) (on_shared (\<lambda>sh. sh\<lparr>sh_queue := []\<rparr>) w3) = (results, w5)"
    and 5: "(pump', on_shared (fold (\<lambda>(reply, result). send_reply reply result) results) (snd (if \<not> cw_live (w_shared w5)
       then poll_radio est radio pump2 w5 else (pump2, w5)))) =
       (fst (if \<not> cw_live (w_shared w5) then poll_radio est radio pump2 w5 else (pump2, w5)), w')"
  have sh1: "sh_poisoned sh1"
    using 1 assms(3) by (auto simp: check_cw_def enable_cw_def split: if_splits option.splits sum.splits)
  let ?w1 = "on_shared (\<lambda>sh. sh\<lparr>sh_cw_abort_requested := False\<rparr>) (w0\<lparr>w_shared := sh1\<rparr>)"
  have "?ok ?w1" using sh1 assms(4) by (simp add: on_shared_def)
  moreover from this have "?ok (snd (radio_call est (ncw_stop c) ?w1))" if "nr_cw radio = Some c" for c
    using assms(2) [OF that] by (intro poisoned_radio_call) simp_all
  moreover have "w2 = snd (stop_after_poison est radio pump1 (w0\<lparr>w_shared := sh1\<rparr>))" using 2 sh1 by (metis snd_conv)
  ultimately have "?ok w2"
    by (auto simp: stop_after_poison_def Let_def split: option.split)
  then have "?ok (on_shared (\<lambda>sh. sh\<lparr>sh_queue := []\<rparr>) w3)" by (simp add: 3 poisoned_drive on_shared_def)
  with poisoned_apply_all [of safe radio "on_shared (\<lambda>sh. sh\<lparr>sh_queue := []\<rparr>) w3" est "sh_queue (w_shared w3)"] 4 assms(1)
  have "?ok w5" by simp
  with 5 show ?thesis by (auto simp: cw_live_def cw_query_def on_shared_def send_results_alt)
qed

subsection \<open>A sample radio\<close>

text \<open>A radio on the bench that does what it is told, and remembers whether it was ever keyed above 5 or without full break-in.\<close>

record bench =
  be_power :: u16
  be_break_in :: break_in_kind
  be_hot :: bool

definition bench_cw :: "bench native_cw" where
  "bench_cw = \<lparr>ncw_status = (\<lambda>r. (Inr \<lparr>sta_cw_mode = True, sta_transmitting = False, sta_wpm = Some 20\<rparr>, r)),
     ncw_settings = (\<lambda>r. (None, r)), ncw_set_keyer_wpm = (\<lambda>_ r. (Inr (), r)),
     ncw_power_raw = (\<lambda>r. (Inr (be_power r), r)), ncw_set_power_raw = (\<lambda>p r. (Inr (), r\<lparr>be_power := p\<rparr>)),
     ncw_break_in = (\<lambda>r. (Inr (be_break_in r), r)), ncw_set_break_in = (\<lambda>k r. (Inr (), r\<lparr>be_break_in := k\<rparr>)),
     ncw_ready = (\<lambda>r. (Inr True, r)),
     ncw_send_chunk = (\<lambda>t r. (Inr (), r\<lparr>be_hot := be_hot r \<or> be_power r \<noteq> 5 \<or> be_break_in r \<noteq> BreakInFull\<rparr>)),
     ncw_stop = (\<lambda>r. (Inr (), r))\<rparr>"

definition bench_radio :: "bench native_radio" where
  "bench_radio = \<lparr>nr_state = (\<lambda>r. (None, r)), nr_apply = (\<lambda>_ r. (Inr (), r)), nr_levels = (\<lambda>r. (None, r)), nr_cw = Some bench_cw\<rparr>"

definition bench_start :: bench where
  "bench_start = \<lparr>be_power = 50, be_break_in = BreakInSemi, be_hot = False\<rparr>"

definition bench_caps :: radio_capabilities where
  "bench_caps = sample_caps\<lparr>cw := Some small_keyer\<rparr>"

lemma evaluated_constants [code]:
  "cw_config_default = \<lparr>key_down_cap = 60000000000, drain_bound = 3000000000, idle_ttl = 600000000000, id_interval = 600000000000,
     tick = 50000000, pacing_margin = 250000000, watchdog_margin = 3000000000, restore_retry = 5000000000\<rparr>"
  "CW_TICK = 50000000" "LEVELS_INTERVAL = 5000000000"
  by (simp_all add: cw_config_default_def CW_TICK_def LEVELS_INTERVAL_def)

type_synonym bench_world = "pump_state \<times> (bench, unit, unit, unit) world"

definition bench_new :: bench_world where
  "bench_new = (pump_state_default, \<lparr>w_shared = shared_new bench_caps None, w_radio = bench_start, w_clock = 0, w_env = []\<rparr>)"

definition bench_cycle :: "bench_world \<Rightarrow> bench_world" where
  "bench_cycle pw = snd (pump_once small_estimate (\<lambda>_. False) bench_radio 1 (fst pw) (snd pw))"

definition bench_call :: "unit host_call \<Rightarrow> bench_world \<Rightarrow> bench_world" where
  "bench_call call pw = (fst pw, (snd pw)\<lparr>w_shared := host_step small_estimate (w_clock (snd pw)) call (w_shared (snd pw))\<rparr>)"

definition bench_armed :: bench_world where
  "bench_armed = bench_cycle (bench_call (CallApply 1 (ArmCwTransmit (ulit ''k'') True None)) (bench_cycle bench_new))"

definition bench_reach :: "bench_world \<Rightarrow> bool" where
  "bench_reach pw \<longleftrightarrow> bridge_reach small_estimate (\<lambda>_. False) bench_radio bench_caps bench_start (fst pw) (snd pw)"

lemma bench_cycle_alt:
  "\<exists>d. pump_once small_estimate (\<lambda>_. False) bench_radio 1 (fst pw) ((snd pw)\<lparr>w_env := w_env (snd pw)\<rparr>) =
     (d, fst (bench_cycle pw), snd (bench_cycle pw))"
  by (cases "pump_once small_estimate (\<lambda>_. False) bench_radio 1 (fst pw) (snd pw)") (simp add: bench_cycle_def)

lemma bench_reach_intros:
  "bench_reach bench_new" "bench_reach pw \<Longrightarrow> bench_reach (bench_call c pw)" "bench_reach pw \<Longrightarrow> bench_reach (bench_cycle pw)"
proof -
  show "bench_reach bench_new" by (simp add: bench_reach_def bench_new_def reach_new)
  show "bench_reach (bench_call c pw)" if "bench_reach pw"
    using reach_call [OF that [unfolded bench_reach_def] order_refl, of c] by (simp add: bench_reach_def bench_call_def)
  show "bench_reach (bench_cycle pw)" if "bench_reach pw"
    using reach_cycle [OF that [unfolded bench_reach_def]] bench_cycle_alt [of pw] unfolding bench_reach_def by blast
qed

lemma bench_armed_reach: "bench_reach bench_armed"
  unfolding bench_armed_def by (intro bench_reach_intros)

lemma bench_truthful: "truthful bench_radio bench_cw be_power be_break_in"
  by (simp add: truthful_def bench_radio_def bench_cw_def Let_def)

lemma bench_keyer: "cw bench_caps = Some small_keyer" "send_text small_keyer = Some (the (send_text small_keyer))"
  "tx_gate small_keyer = Some (the (tx_gate small_keyer))"
  by (simp_all add: bench_caps_def small_keyer_def)

lemma bench_guards:
  "guards bench_radio bench_cw (at_clamp (the (send_text small_keyer)) (the (tx_gate small_keyer)) be_power be_break_in) (\<lambda>r. \<not> be_hot r)"
  by (simp add: guards_def at_clamp_def bench_radio_def bench_cw_def small_keyer_def)

section \<open>Properties\<close>

text \<open>
  C2: The radio behind the bridge is put back. Whatever consoles request, whenever they hang up or stop
  waiting, whatever happens while an exchange is on the wire, and whichever exchanges fail: when the bridge
  does not refuse PTT from elsewhere, the radio's power and break-in are what they were when the server
  started. The radio reports the two settings truthfully and changes them only when the server sets them, so nobody
  turns a knob meanwhile; a write may fail or have no effect.
\<close>

theorem bridge_restores_radio:
  assumes "bridge_reach est lc radio capabilities r0 pump w" and "truthful radio c pwr brk"
    and "cw capabilities = Some cap" and "send_text cap = Some send" and "tx_gate cap = Some gate"
    and "\<not> cw_blocks_external_ptt (w_shared w)"
  shows "pwr (w_radio w) = pwr r0 \<and> brk (w_radio w) = brk r0"
proof -
  have "guards radio c (at_clamp send gate pwr brk) (\<lambda>_. True)" by (simp add: guards_def)
  from reach_ok [OF assms(1,2) this _ assms(3-5)] show ?thesis using ok_restored [OF _ assms(4-6)] by blast
qed

theorem bridge_restores_radio_witness:
  "\<not> cw_blocks_external_ptt (w_shared (snd (bench_cycle bench_new))) \<and> be_power (w_radio (snd (bench_cycle bench_new))) = 50"
proof -
  have n: "\<not> cw_blocks_external_ptt (w_shared (snd (bench_cycle bench_new)))" by code_simp
  have "bench_reach (bench_cycle bench_new)" by (intro bench_reach_intros)
  from bridge_restores_radio [OF this [unfolded bench_reach_def] bench_truthful bench_keyer n] n
  show ?thesis by (simp add: bench_start_def)
qed

text \<open>
  C3: The bridge never keys the transmitter above the clamp, as long as the server alone changes the radio's power
  and break-in. Any condition on the radio that nothing breaks but handing it a chunk while its power is not
  the clamp, or its break-in not the one the keyer needs, holds for ever if it holds when the server starts. Assumed of the
  radio: what it reports as its power and break-in is what they are, and no exchange changes either of them but
  the one that sets it, which may fail or have no effect. So nobody turns the power knob and no other program sets it:
  the supervisor reads the power back before the first chunk of a send only, and a change from elsewhere after
  that is not noticed.
\<close>

theorem bridge_keys_at_clamp:
  assumes "bridge_reach est lc radio capabilities r0 pump w" and "truthful radio c pwr brk"
    and "guards radio c (at_clamp send gate pwr brk) safe" and "safe r0"
    and "cw capabilities = Some cap" and "send_text cap = Some send" and "tx_gate cap = Some gate"
  shows "safe (w_radio w)"
  using reach_ok [OF assms] by (simp add: bridge_ok_def)

theorem bridge_keys_at_clamp_witness:
  "\<not> be_hot (w_radio (snd (bench_cycle (bench_call (CallApply 1 (SendCwText (ulit ''ke''))) bench_armed))))"
proof -
  have "bench_reach (bench_cycle (bench_call (CallApply 1 (SendCwText (ulit ''ke''))) bench_armed))"
    by (intro bench_reach_intros bench_armed_reach)
  from bridge_keys_at_clamp [OF this [unfolded bench_reach_def] bench_truthful bench_guards _ bench_keyer]
  show ?thesis by (simp add: bench_start_def)
qed

text \<open>
  C9: Every command is answered, once. In every state of the bridge no two queued commands set the
  same control, an answer that has been given is never replaced, and after the next cycle of the pump, whatever
  happens during it, every command that was queued has been answered, unless its console has given up.
\<close>

theorem bridge_answers_commands:
  assumes "bridge_reach est lc radio capabilities r0 pump w"
    and "pump_once est lc radio interval pump (w\<lparr>w_env := env\<rparr>) = (d, pump', w')"
  shows "distinct (filter (\<lambda>x. x \<noteq> None) (map (slot_of \<circ> fst) (sh_queue (w_shared w)))) \<and>
    (\<forall>(command, k) \<in> set (sh_queue (w_shared w)).
       chn_values (sh_replies (w_shared w)) k = None \<and>
       (chn_values (sh_replies (w_shared w')) k \<noteq> None \<or> chn_gone (sh_replies (w_shared w')) k)) \<and>
    (\<forall>k v. chn_values (sh_replies (w_shared w)) k = Some v \<longrightarrow> chn_values (sh_replies (w_shared w')) k = Some v)"
  using reach_queue [OF assms(1)] pump_once_queue [OF assms(2)] by (auto simp: queue_ok_def answered_def)

theorem bridge_answers_commands_witness:
  "let w = snd (bench_call (CallApply 1 (SetSplit True)) bench_new); w' = snd (bench_cycle (bench_call (CallApply 1 (SetSplit True)) bench_new))
   in sh_queue (w_shared w) = [(SetSplit True, 0)] \<and>
      (chn_values (sh_replies (w_shared w')) 0 \<noteq> None \<or> chn_gone (sh_replies (w_shared w')) 0)"
proof -
  let ?pw = "bench_call (CallApply 1 (SetSplit True)) bench_new"
  have q: "sh_queue (w_shared (snd ?pw)) = [(SetSplit True, 0)]"
    by (simp add: bench_call_def bench_new_def host_step_def apply_cw_def host_apply_def enqueue_command_def slot_of_def shared_new_def no_channels_def sync_channel_def)
  have r: "bench_reach ?pw" by (intro bench_reach_intros)
  obtain d where "pump_once small_estimate (\<lambda>_. False) bench_radio 1 (fst ?pw) ((snd ?pw)\<lparr>w_env := w_env (snd ?pw)\<rparr>) =
      (d, fst (bench_cycle ?pw), snd (bench_cycle ?pw))"
    using bench_cycle_alt by blast
  from bridge_answers_commands [OF r [unfolded bench_reach_def] this] q show ?thesis by (simp add: Let_def)
qed

text \<open>
  C11: A panic inside the supervisor fails closed. Once its lock is poisoned it stays poisoned, whatever consoles
  request and whatever the pump does: PTT from elsewhere is refused, the server never counts as settled, every
  request to arm, disarm or send is refused, and a cycle of the pump touches the radio only to stop the
  keyer and to apply the other commands that are queued. Nothing is keyed, and power and break-in are left as they are.
\<close>

theorem bridge_fails_closed:
  assumes "sh_poisoned (w_shared w)"
    and "\<And>command r. safe r \<Longrightarrow> safe (snd (nr_apply radio command r))"
    and "\<And>c r. nr_cw radio = Some c \<Longrightarrow> safe r \<Longrightarrow> safe (snd (ncw_stop c r))"
    and "safe (w_radio w)" and "pump_once est lc radio interval pump w = (d, pump', w')"
  shows "sh_poisoned (host_step est now call (w_shared w)) \<and> sh_poisoned (w_shared w') \<and> safe (w_radio w') \<and>
    cw_blocks_external_ptt (w_shared w) \<and> \<not> cw_settled (w_shared w) \<and>
    (\<forall>t callsign power cap. fst (apply_cw est now console (ArmCwTransmit callsign power cap) (w_shared w)) = Answered (Inl poisoned) \<and>
       fst (apply_cw est now console DisarmCw (w_shared w)) = Answered (Inl poisoned) \<and>
       fst (apply_cw est now console (SendCwText t) (w_shared w)) = Answered (Inl no_cw))"
  using assms(1) poisoned_host_step [OF assms(1)] poisoned_pump_once [OF assms(2,3,1,4,5)]
  by (simp add: cw_blocks_external_ptt_def cw_settled_def cw_query_def apply_cw_def cw_wait_def with_cw_def)

theorem bridge_fails_closed_witness:
  "sh_poisoned (w_shared (snd (bench_cycle (bench_call CallPoison bench_new)))) \<and>
   be_power (w_radio (snd (bench_cycle (bench_call CallPoison bench_new)))) = 50"
proof -
  let ?pw = "bench_call CallPoison bench_new"
  obtain d where p: "pump_once small_estimate (\<lambda>_. False) bench_radio 1 (fst ?pw) (snd ?pw) = (d, fst (bench_cycle ?pw), snd (bench_cycle ?pw))"
    using bench_cycle_alt [of ?pw] by auto
  have s: "sh_poisoned (w_shared (snd ?pw))" "be_power (w_radio (snd ?pw)) = 50"
    by (simp_all add: bench_call_def host_step_def bench_new_def bench_start_def)
  have k: "be_power (snd (nr_apply bench_radio command r)) = 50" "nr_cw bench_radio = Some c \<Longrightarrow> be_power (snd (ncw_stop c r)) = 50"
    if "be_power r = 50" for command r c
    using that by (auto simp: bench_radio_def bench_cw_def)
  from bridge_fails_closed [of "snd ?pw" "\<lambda>r. be_power r = 50" bench_radio, OF s(1) k s(2) p] show ?thesis by blast
qed

end
