(* ===== verification/Bridge_Progress.thy ===== *)
theory Bridge_Progress imports Bridge_Safety begin

text \<open>
  Progress of the bridge: behind a radio that does what it is told, giving the transmit arm back completes in one
  turn of the pump's driving loop.
\<close>

section \<open>Lemmas\<close>

text \<open>A radio that does what it is told: it is in CW and receiving, reads back what it is set to, and no exchange fails.\<close>

definition obedient :: "'r native_cw \<Rightarrow> ('r \<Rightarrow> u16) \<Rightarrow> ('r \<Rightarrow> break_in_kind) \<Rightarrow> bool" where
  "obedient c pwr brk \<longleftrightarrow>
     (\<forall>r. \<exists>r'. ncw_power_raw c r = (Inr (pwr r), r') \<and> pwr r' = pwr r \<and> brk r' = brk r) \<and>
     (\<forall>r. \<exists>r'. ncw_break_in c r = (Inr (brk r), r') \<and> pwr r' = pwr r \<and> brk r' = brk r) \<and>
     (\<forall>r p. \<exists>r'. ncw_set_power_raw c p r = (Inr (), r') \<and> pwr r' = p \<and> brk r' = brk r) \<and>
     (\<forall>r k. \<exists>r'. ncw_set_break_in c k r = (Inr (), r') \<and> pwr r' = pwr r \<and> brk r' = k) \<and>
     (\<forall>r. \<exists>w r'. ncw_status c r = (Inr \<lparr>sta_cw_mode = True, sta_transmitting = False, sta_wpm = w\<rparr>, r') \<and>
        pwr r' = pwr r \<and> brk r' = brk r)"

text \<open>Where a plan of settings leaves an obedient radio, if every verification in it agrees.\<close>

fun settles :: "step list \<Rightarrow> u16 \<Rightarrow> break_in_kind \<Rightarrow> (u16 \<times> break_in_kind) option" where
  "settles [] p k = Some (p, k)"
| "settles (SetPower x # plan) p k = settles plan x k"
| "settles (VerifyPower x # plan) p k = (if p = x then settles plan p k else None)"
| "settles (SetBreakIn x # plan) p k = settles plan p x"
| "settles (VerifyBreakIn x # plan) p k = (if k = x then settles plan p k else None)"
| "settles _ p k = None"

text \<open>Notices nobody waits for.\<close>

definition quiet :: "cw_notice list \<Rightarrow> bool" where
  "quiet ns \<longleftrightarrow> (\<forall>t r. Reply t r \<notin> set ns)"

lemma quiet_simps [simp]: "quiet []" "quiet (a @ b) \<longleftrightarrow> quiet a \<and> quiet b"
  by (auto simp: quiet_def)

lemma route_quiet: "quiet ns \<Longrightarrow> fold route_notice ns st = st"
proof (induction ns arbitrary: st)
  case (Cons x ns)
  from Cons.prems have "\<forall>t r. x \<noteq> Reply t r" by (auto simp: quiet_def)
  then have "route_notice x st = st" by (cases x; cases st) (simp_all add: route_notice_def)
  with Cons show ?case by (simp add: quiet_def)
qed simp

lemma take_notices_quiet:
  assumes "sh_cw sh = Some s" and "\<not> sh_poisoned sh" and "quiet (sup_notices s)"
  shows "take_cw_notices sh = sh\<lparr>sh_cw := Some (s\<lparr>sup_notices := []\<rparr>)\<rparr>"
  using assms by (simp add: take_cw_notices_def with_cw_def take_notices_def route_cw_notices_def route_quiet)

lemma forget_no_notices: "sup_notices s = [] \<Longrightarrow> s\<lparr>sup_notices := []\<rparr> = s"
  by (cases s) simp

text \<open>One turn of the driving loop, when nothing else happens.\<close>

lemma drive_turn:
  assumes "sh_cw (w_shared w) = Some s" and "\<not> sh_poisoned (w_shared w)" and "w_env w = []" and "nr_cw radio = Some c"
    and "next_action (w_clock w) s = (Some a, s1)" and "quiet (sup_notices s1)"
    and "cw_execute c a (w_radio w) = (out, r')" and "cw_complete est out (w_clock w) (s1\<lparr>sup_notices := []\<rparr>) = s2"
    and "sup_notices s2 = []"
  shows "drive_loop est radio (Suc n) w = drive_loop est radio n (w\<lparr>w_radio := r', w_shared := (w_shared w)\<lparr>sh_cw := Some s2\<rparr>\<rparr>)"
proof -
  have 1: "with_cw (next_action (w_clock w)) (w_shared w) = (Some (Some a), (w_shared w)\<lparr>sh_cw := Some s1\<rparr>)"
    using assms(1,2,5) by (simp add: with_cw_def)
  let ?s1 = "s1\<lparr>sup_notices := []\<rparr>"
  have 2: "take_cw_notices ((w_shared w)\<lparr>sh_cw := Some s1\<rparr>) = (w_shared w)\<lparr>sh_cw := Some ?s1\<rparr>"
    "take_cw_notices ((w_shared w)\<lparr>sh_cw := Some s2\<rparr>) = (w_shared w)\<lparr>sh_cw := Some s2\<rparr>"
    using assms(2,6,9) by (simp_all add: take_notices_quiet forget_no_notices)
  have 3: "drive_answer est radio a (w\<lparr>w_shared := (w_shared w)\<lparr>sh_cw := Some ?s1\<rparr>\<rparr>) =
      (out, w\<lparr>w_radio := r', w_shared := (w_shared w)\<lparr>sh_cw := Some ?s1\<rparr>\<rparr>)"
    using assms(3,4,7) by (simp add: drive_answer_def radio_call_def interfere_def)
  have 4: "snd (with_cw (\<lambda>sv. ((), cw_complete est out (w_clock w) sv)) ((w_shared w)\<lparr>sh_cw := Some ?s1\<rparr>)) =
      (w_shared w)\<lparr>sh_cw := Some s2\<rparr>"
    using assms(2,8) by (simp add: with_cw_def)
  show ?thesis by (simp add: 1 2 3 4 Let_def on_shared_def)
qed

text \<open>The last turn: nothing to do, and the notices are delivered.\<close>

lemma drive_end:
  assumes "sh_cw (w_shared w) = Some s" and "\<not> sh_poisoned (w_shared w)" and "next_action (w_clock w) s = (None, s1)"
  shows "drive_loop est radio (Suc n) w = w\<lparr>w_shared := take_cw_notices ((w_shared w)\<lparr>sh_cw := Some s1\<rparr>)\<rparr>"
  using assms by (simp add: with_cw_def Let_def)

text \<open>Steps that are issued at once.\<close>

definition untimed :: "cw_supervisor \<Rightarrow> bool" where
  "untimed s \<longleftrightarrow> sup_outstanding s = None \<and>
     (case sup_activity s of Arming _ _ _ _ _ \<Rightarrow> True | Restoring _ _ _ _ None \<Rightarrow> True | _ \<Rightarrow> False)"

lemma next_issue:
  assumes "untimed s" and "sup_plan s = st # rest" and "step_action st = Some a" and "st \<noteq> WaitReady"
  shows "next_action now s =
    (Some a, s\<lparr>sup_plan := rest, sup_snap := mark_issued st (sup_snap s), sup_outstanding := Some st\<rparr>)"
proof -
  have "check_timers now s = s" using assms(1) by (auto simp: check_timers_def untimed_def split: activity.splits)
  moreover have "next_loop (Suc n) now s =
      (Some a, s\<lparr>sup_plan := rest, sup_snap := mark_issued st (sup_snap s), sup_outstanding := Some st\<rparr>)" for n
    using assms(2-4) by (cases st) (simp_all add: step_action_def)
  from this [of 63] have "next_loop 64 now s =
      (Some a, s\<lparr>sup_plan := rest, sup_snap := mark_issued st (sup_snap s), sup_outstanding := Some st\<rparr>)"
    by (simp only: numeral_eq_Suc pred_numeral_simps) simp
  ultimately show ?thesis using assms(1) by (simp add: next_action_def untimed_def)
qed

text \<open>One setting or verification.\<close>

lemma complete_kept:
  assumes "sup_outstanding s = None" and "answer_kind st out = AnsKept"
  shows "cw_complete est out now ((s\<lparr>sup_plan := rest, sup_snap := snap, sup_outstanding := Some st\<rparr>)\<lparr>sup_notices := []\<rparr>) =
    s\<lparr>sup_plan := rest, sup_snap := snap, sup_notices := []\<rparr>"
proof -
  have "s\<lparr>sup_plan := rest, sup_snap := snap, sup_notices := [], sup_outstanding := None\<rparr> =
      s\<lparr>sup_plan := rest, sup_snap := snap, sup_notices := []\<rparr>"
    using assms(1) by (cases s) simp
  with assms(2) show ?thesis by (simp add: complete_answer)
qed

lemma obedient_executes:
  assumes "obedient c pwr brk" and "settles (st # rest) (pwr r) (brk r) = Some (p, k)"
  shows "\<exists>a out r'. step_action st = Some a \<and> cw_execute c a r = (out, r') \<and> answer_kind st out = AnsKept \<and>
    settles rest (pwr r') (brk r') = Some (p, k)"
proof (cases st)
  case (SetPower x)
  obtain r' where "ncw_set_power_raw c x r = (Inr (), r')" "pwr r' = x" "brk r' = brk r"
    using assms(1) unfolding obedient_def by metis
  with SetPower assms(2) show ?thesis by (simp add: step_action_def cw_execute_def outcome_of_def answer_kind_def)
next
  case (VerifyPower x)
  obtain r' where "ncw_power_raw c r = (Inr (pwr r), r')" "pwr r' = pwr r" "brk r' = brk r"
    using assms(1) unfolding obedient_def by metis
  with VerifyPower assms(2) show ?thesis
    by (simp add: step_action_def cw_execute_def outcome_of_def answer_kind_def split: if_splits)
next
  case (SetBreakIn x)
  obtain r' where "ncw_set_break_in c x r = (Inr (), r')" "pwr r' = pwr r" "brk r' = x"
    using assms(1) unfolding obedient_def by metis
  with SetBreakIn assms(2) show ?thesis by (simp add: step_action_def cw_execute_def outcome_of_def answer_kind_def)
next
  case (VerifyBreakIn x)
  obtain r' where "ncw_break_in c r = (Inr (brk r), r')" "pwr r' = pwr r" "brk r' = brk r"
    using assms(1) unfolding obedient_def by metis
  with VerifyBreakIn assms(2) show ?thesis
    by (simp add: step_action_def cw_execute_def outcome_of_def answer_kind_def split: if_splits)
qed (use assms(2) in simp_all)

lemma drive_settings:
  assumes "obedient c pwr brk" and "nr_cw radio = Some c" and "w_env w = []" and "\<not> sh_poisoned (w_shared w)"
    and "sh_cw (w_shared w) = Some s" and "quiet (sup_notices s)" and "untimed s"
    and "settles (sup_plan s) (pwr (w_radio w)) (brk (w_radio w)) = Some (p, k)"
  shows "\<exists>r snap ns. pwr r = p \<and> brk r = k \<and> quiet ns \<and>
    drive_loop est radio (length (sup_plan s) + n) w =
      drive_loop est radio n (w\<lparr>w_radio := r, w_shared := (w_shared w)\<lparr>sh_cw :=
        Some (s\<lparr>sup_plan := [], sup_snap := snap, sup_notices := ns\<rparr>)\<rparr>\<rparr>)"
  using assms(3-8)
proof (induction "sup_plan s" arbitrary: s w)
  case Nil
  then have "s\<lparr>sup_plan := [], sup_snap := sup_snap s, sup_notices := sup_notices s\<rparr> = s" by (cases s) simp
  moreover from Nil have "(w_shared w)\<lparr>sh_cw := Some s\<rparr> = w_shared w" by (cases "w_shared w") simp
  ultimately have "w = w\<lparr>w_radio := w_radio w, w_shared := (w_shared w)\<lparr>sh_cw :=
      Some (s\<lparr>sup_plan := [], sup_snap := sup_snap s, sup_notices := sup_notices s\<rparr>)\<rparr>\<rparr>"
    by simp
  moreover have "pwr (w_radio w) = p" "brk (w_radio w) = k" using Nil by (simp_all flip: Nil.hyps)
  ultimately show ?case using Nil.hyps Nil.prems(4) by (metis add_0 list.size(3))
next
  case (Cons st rest)
  let ?s = "s\<lparr>sup_plan := rest, sup_snap := mark_issued st (sup_snap s), sup_notices := []\<rparr>"
  have o: "sup_outstanding s = None" using Cons.prems(5) by (simp add: untimed_def)
  from Cons.prems(6) obtain a out r where a: "step_action st = Some a" "cw_execute c a (w_radio w) = (out, r)" "answer_kind st out = AnsKept"
    and rest: "settles rest (pwr r) (brk r) = Some (p, k)"
    using obedient_executes [OF assms(1), of st rest "w_radio w" p k] by (auto simp flip: Cons.hyps(2))
  have st: "st \<noteq> WaitReady" using Cons.prems(6) by (auto simp flip: Cons.hyps(2))
  let ?w = "w\<lparr>w_radio := r, w_shared := (w_shared w)\<lparr>sh_cw := Some ?s\<rparr>\<rparr>"
  have "drive_loop est radio (Suc (length rest + n)) w = drive_loop est radio (length rest + n) ?w"
    by (rule drive_turn [OF Cons.prems(3,2,1) assms(2) next_issue [OF Cons.prems(5) Cons.hyps(2) [symmetric] a(1) st] _ a(2)
          complete_kept [OF o a(3)]]) (simp_all add: Cons.prems(4))
  moreover have "\<exists>r' snap ns. pwr r' = p \<and> brk r' = k \<and> quiet ns \<and> drive_loop est radio (length (sup_plan ?s) + n) ?w =
      drive_loop est radio n (?w\<lparr>w_radio := r', w_shared := (w_shared ?w)\<lparr>sh_cw := Some (?s\<lparr>sup_plan := [], sup_snap := snap, sup_notices := ns\<rparr>)\<rparr>\<rparr>)"
    by (rule Cons.hyps(1)) (use Cons.prems rest in \<open>simp_all add: untimed_def\<close>)
  ultimately show ?case by (simp flip: Cons.hyps(2))
qed

text \<open>Waiting for a keyer that has finished.\<close>

definition drained :: "instant \<Rightarrow> cw_supervisor \<Rightarrow> bool" where
  "drained now s \<longleftrightarrow> (case sup_keyed_until s of None \<Rightarrow> True | Some t \<Rightarrow> t + pacing_margin (sup_config s) \<le> now)"

lemma next_after_wait:
  assumes "sup_outstanding s = None" and "sup_activity s = Restoring reason ticket attempts e None" and "drained now s"
    and "sup_plan s = WaitKeyed (pacing_margin (sup_config s)) # rest" and "settles rest p k = Some x"
  shows "next_action now s = next_action now (s\<lparr>sup_plan := rest\<rparr>)"
proof -
  let ?s = "s\<lparr>sup_plan := rest\<rparr>"
  have c: "check_timers now s = s" "check_timers now ?s = ?s" using assms(2) by (simp_all add: check_timers_def)
  have 1: "next_loop (Suc n) now s = next_loop n now ?s" for n
    using assms(3,4) by (auto simp: drained_def split: option.split)
  have 2: "next_loop (Suc n) now ?s = next_loop (Suc m) now ?s" for n m
  proof (cases rest)
    case Nil
    then show ?thesis using assms(2) by (simp add: cw_finish_def Let_def)
  next
    case (Cons st rest')
    with assms(5) show ?thesis by (cases st) simp_all
  qed
  from 1 [of 63] 2 [of 62 63] have "next_loop 64 now s = next_loop 64 now ?s"
    by (simp only: numeral_eq_Suc pred_numeral_simps) simp
  with assms(1) c show ?thesis by (simp add: next_action_def)
qed

lemma settles_restore:
  "restore_steps m snap = WaitKeyed m # tl (restore_steps m snap)" "length (tl (restore_steps m snap)) \<le> 4"
  "\<exists>x. settles (tl (restore_steps m snap)) p k = Some x"
  by (cases "snap_power snap"; cases "snap_break_in snap"; simp add: restore_steps_def)+

text \<open>A finished restoration.\<close>

lemma next_restored:
  assumes "sup_outstanding s = None" and "sup_activity s = Restoring reason (Some t) attempts e None" and "sup_plan s = []"
  shows "next_action now s = (None, s\<lparr>sup_activity := Idle, sup_snap := snapshot_default, sup_arm := None,
    sup_notices := sup_notices s @ [Restored reason, Reply t (Inr ())]\<rparr>)"
proof -
  have "check_timers now s = s" using assms(2) by (simp add: check_timers_def)
  moreover have "next_loop (Suc n) now s = (None, s\<lparr>sup_activity := Idle, sup_snap := snapshot_default, sup_arm := None,
      sup_notices := sup_notices s @ [Restored reason, Reply t (Inr ())]\<rparr>)" for n
    using assms(2,3) by (simp add: cw_finish_def cw_reply_def Let_def)
  from this [of 63] have "next_loop 64 now s = (None, s\<lparr>sup_activity := Idle, sup_snap := snapshot_default, sup_arm := None,
      sup_notices := sup_notices s @ [Restored reason, Reply t (Inr ())]\<rparr>)"
    by (simp only: numeral_eq_Suc pred_numeral_simps) simp
  ultimately show ?thesis using assms(1) by (simp add: next_action_def)
qed

text \<open>An answer for a console that waits.\<close>

lemma take_notices_reply:
  assumes "sh_cw sh = Some s" and "\<not> sh_poisoned sh" and "sup_notices s = ns @ [n, Reply t x]" and "quiet (ns @ [n])"
    and "sh_cw_waiters sh t = Some waiter" and "\<not> chn_gone (sh_cw_replies sh) (cwt_reply waiter)"
  shows "sh_cw (take_cw_notices sh) = Some (s\<lparr>sup_notices := []\<rparr>) \<and> \<not> sh_poisoned (take_cw_notices sh) \<and>
    chn_values (sh_cw_replies (take_cw_notices sh)) (cwt_reply waiter) = Some x"
proof -
  let ?sh = "sh\<lparr>sh_cw := Some (s\<lparr>sup_notices := []\<rparr>)\<rparr>"
  from assms(4) have "quiet ns" "quiet [n]" by (simp_all add: quiet_def)
  then have "fold route_notice (ns @ [n, Reply t x]) ([], ?sh) = route_notice (Reply t x) ([], ?sh)"
    using route_quiet [of "[n]" "([], ?sh)"] by (simp add: route_quiet)
  moreover have "route_notice (Reply t x) ([], ?sh) = ([], ?sh\<lparr>sh_cw_waiters := (sh_cw_waiters sh)(t := None),
      sh_cw_replies := snd (chn_send (cwt_reply waiter) x (sh_cw_replies sh))\<rparr>)"
    using assms(5,6) by (simp add: route_notice_def chn_send_def)
  ultimately have "fold route_notice (ns @ [n, Reply t x]) ([], ?sh) = ([], ?sh\<lparr>sh_cw_waiters := (sh_cw_waiters sh)(t := None),
      sh_cw_replies := snd (chn_send (cwt_reply waiter) x (sh_cw_replies sh))\<rparr>)"
    by (simp only:)
  with assms(1-3,6) show ?thesis
    by (simp del: fold_append fold_simps(2) add: take_cw_notices_def with_cw_def take_notices_def route_cw_notices_def chn_send_def)
qed

lemma restore_completes:
  assumes "obedient c pwr brk" and "nr_cw radio = Some c" and "w_env w = []" and "\<not> sh_poisoned (w_shared w)"
    and "sh_cw (w_shared w) = Some s" and "quiet (sup_notices s)" and "sup_outstanding s = None"
    and "sup_activity s = Restoring reason (Some t) attempts e None" and "drained (w_clock w) s"
    and "sup_plan s = restore_steps (pacing_margin (sup_config s)) (sup_snap s)"
    and "sh_cw_waiters (w_shared w) t = Some waiter" and "\<not> chn_gone (sh_cw_replies (w_shared w)) (cwt_reply waiter)"
  shows "cw_settled (w_shared (drive_cw est radio w)) \<and> \<not> cw_blocks_external_ptt (w_shared (drive_cw est radio w)) \<and>
    chn_values (sh_cw_replies (w_shared (drive_cw est radio w))) (cwt_reply waiter) = Some (Inr ())"
proof -
  let ?rest = "tl (restore_steps (pacing_margin (sup_config s)) (sup_snap s))"
  let ?s = "s\<lparr>sup_plan := ?rest\<rparr>"
  let ?w = "w\<lparr>w_shared := (w_shared w)\<lparr>sh_cw := Some ?s\<rparr>\<rparr>"
  have plan: "sup_plan s = WaitKeyed (pacing_margin (sup_config s)) # ?rest" using assms(10) settles_restore(1) by simp
  obtain p k where settles: "settles ?rest (pwr (w_radio w)) (brk (w_radio w)) = Some (p, k)"
    using settles_restore(3) by (metis surj_pair)
  obtain n where n: "MAX_CW_STEPS = length ?rest + Suc n"
  proof
    show "MAX_CW_STEPS = length ?rest + Suc (31 - length ?rest)"
      using settles_restore(2) [of "pacing_margin (sup_config s)" "sup_snap s"] by (simp add: MAX_CW_STEPS_def)
  qed
  have "drive_loop est radio (Suc m) w = drive_loop est radio (Suc m) ?w" for m
    using next_after_wait [OF assms(7-9) plan settles] assms(4,5) by (simp add: with_cw_def Let_def)
  then have 1: "drive_cw est radio w = drive_loop est radio (length (sup_plan ?s) + Suc n) ?w" by (simp add: drive_cw_def n)
  from drive_settings [OF assms(1,2), of ?w ?s p k est "Suc n"] assms(3-8) settles
  obtain r snap ns where "quiet ns" and 2: "drive_loop est radio (length (sup_plan ?s) + Suc n) ?w =
      drive_loop est radio (Suc n) (?w\<lparr>w_radio := r, w_shared := (w_shared ?w)\<lparr>sh_cw :=
        Some (?s\<lparr>sup_plan := [], sup_snap := snap, sup_notices := ns\<rparr>)\<rparr>\<rparr>)"
    by (auto simp: untimed_def)
  let ?f = "s\<lparr>sup_plan := [], sup_snap := snap, sup_notices := ns\<rparr>"
  let ?w2 = "w\<lparr>w_radio := r, w_shared := (w_shared w)\<lparr>sh_cw := Some ?f\<rparr>\<rparr>"
  let ?g = "?f\<lparr>sup_activity := Idle, sup_snap := snapshot_default, sup_arm := None, sup_notices := ns @ [Restored reason, Reply t (Inr ())]\<rparr>"
  have "next_action (w_clock w) ?f = (None, ?g)" using next_restored [of ?f reason t attempts e] assms(7,8) by simp
  then have "drive_loop est radio (Suc n) ?w2 = ?w2\<lparr>w_shared := take_cw_notices ((w_shared w)\<lparr>sh_cw := Some ?g\<rparr>)\<rparr>"
    using assms(4) by (simp add: with_cw_def Let_def)
  with 1 2 have 3: "w_shared (drive_cw est radio w) = take_cw_notices ((w_shared w)\<lparr>sh_cw := Some ?g\<rparr>)" by simp
  from take_notices_reply [of "(w_shared w)\<lparr>sh_cw := Some ?g\<rparr>" ?g ns "Restored reason" t "Inr ()" waiter] assms(4,11,12) \<open>quiet ns\<close>
  have "sh_cw (w_shared (drive_cw est radio w)) = Some (?g\<lparr>sup_notices := []\<rparr>) \<and> \<not> sh_poisoned (w_shared (drive_cw est radio w)) \<and>
      chn_values (sh_cw_replies (w_shared (drive_cw est radio w))) (cwt_reply waiter) = Some (Inr ())"
    unfolding 3 by (simp add: quiet_def)
  with assms(7) show ?thesis
    by (simp add: cw_settled_def cw_blocks_external_ptt_def cw_query_def is_settled_def is_live_def blocks_external_ptt_def)
qed

lemma disarm_request:
  assumes "sh_cw sh = Some s" and "\<not> sh_poisoned sh" and "sup_arm s = Some arm" and "arm_owner arm = console"
    and "sup_activity s = Idle" and "apply_cw est now console DisarmCw sh = (a, sh')"
  shows "\<exists>s' t k. a = WaitCw k False \<and> sh_cw sh' = Some s' \<and> \<not> sh_poisoned sh' \<and>
    s' = start_restore DisRequested (Some t) (snd (take_ticket s)) \<and>
    sh_cw_waiters sh' t = Some \<lparr>cwt_owner = console, cwt_is_arm = False, cwt_reply = k\<rparr> \<and>
    k = fst (sync_channel (sh_cw_replies sh)) \<and> sh_cw_replies sh' = snd (sync_channel (sh_cw_replies sh))"
  using assms by (auto simp: apply_cw_def cw_wait_def cw_disarm_def end_arm_def take_ticket_def sync_channel_def kick_pump_def)

lemma start_restore_shape:
  assumes "s' = start_restore reason (Some t) (snd (take_ticket s))" and "quiet (sup_notices s)"
  shows "sup_activity s' = Restoring reason (Some t) 0 None None" "sup_outstanding s' = sup_outstanding s" "quiet (sup_notices s')"
    "drained now s' = drained now s" "sup_plan s' = restore_steps (pacing_margin (sup_config s')) (sup_snap s')"
proof -
  show "sup_activity s' = Restoring reason (Some t) 0 None None" "sup_outstanding s' = sup_outstanding s"
    "sup_plan s' = restore_steps (pacing_margin (sup_config s')) (sup_snap s')"
    unfolding assms(1) by (simp_all add: start_restore_def plan_restore_def take_ticket_def Let_def)
  show "drained now s' = drained now s"
    unfolding assms(1) by (cases "sup_keyed_until s") (simp_all add: start_restore_def plan_restore_def take_ticket_def drained_def Let_def)
  show "quiet (sup_notices s')"
    using assms(2) unfolding assms(1)
    by (cases "sup_arm s"; cases "sup_id_owed s") (simp_all add: start_restore_def plan_restore_def take_ticket_def quiet_def Let_def)
qed

text \<open>The sample radio, armed.\<close>

definition bench_ready :: "(bench, unit, unit, unit) world \<Rightarrow> bool" where
  "bench_ready w \<longleftrightarrow> \<not> sh_poisoned (w_shared w) \<and>
     (case sh_cw (w_shared w) of
        None \<Rightarrow> False
      | Some s \<Rightarrow> (case sup_arm s of None \<Rightarrow> False | Some arm \<Rightarrow> arm_owner arm = 1) \<and>
          (case sup_activity s of Idle \<Rightarrow> True | _ \<Rightarrow> False) \<and> Option.is_none (sup_outstanding s) \<and>
          List.null (sup_notices s) \<and> Option.is_none (sup_keyed_until s)) \<and> be_power (w_radio w) = 5"

section \<open>Properties\<close>

text \<open>
  C6: A disarm completes. The console that holds the transmit arm asks for it back while nothing is being sent, no
  exchange is in flight and the last text has drained: if the radio does what it is told, its settings are
  changed by the server only, and no other call is made during the turn, one turn
  of the pump's driving loop answers the console with success, leaves nothing for the supervisor to do, lets PTT through
  again, and has put the radio's power and break-in back to what they were when the server started.
\<close>

theorem bridge_disarm_completes:
  assumes "bridge_reach est lc radio capabilities r0 pump w" and "truthful radio c pwr brk" and "obedient c pwr brk"
    and "cw capabilities = Some cap" and "send_text cap = Some send" and "tx_gate cap = Some gate"
    and "\<not> sh_poisoned (w_shared w)" and "sh_cw (w_shared w) = Some s" and "sup_arm s = Some arm" and "arm_owner arm = console"
    and "sup_activity s = Idle" and "sup_outstanding s = None" and "quiet (sup_notices s)" and "drained (w_clock w) s"
    and "apply_cw est (w_clock w) console DisarmCw (w_shared w) = (a, sh)"
    and "drive_cw est radio (w\<lparr>w_shared := sh, w_env := []\<rparr>) = w'"
  shows "wait_result a (w_shared w') = Inr () \<and> cw_settled (w_shared w') \<and> \<not> cw_blocks_external_ptt (w_shared w') \<and>
    pwr (w_radio w') = pwr r0 \<and> brk (w_radio w') = brk r0"
proof -
  let ?w = "w\<lparr>w_shared := sh, w_env := []\<rparr>"
  have g: "guards radio c (at_clamp send gate pwr brk) (\<lambda>_. True)" by (simp add: guards_def)
  from reach_ok [OF assms(1,2) g _ assms(4-6)]
  have ok: "bridge_ok est capabilities (cw_new cap cw_config_default) (cw_view pwr brk r0) (cw_view pwr brk) (\<lambda>_. True) w" by simp
  have "follows est (w_shared w) sh"
    using apply_cw_follows [of est "w_shared w" "w_clock w" console DisarmCw] assms(15) by simp
  with ok have "bridge_ok est capabilities (cw_new cap cw_config_default) (cw_view pwr brk r0) (cw_view pwr brk) (\<lambda>_. True) ?w"
    using closed_follows [of est capabilities _ _ "cw_view pwr brk" "w_shared w" "w_radio w" sh "w_radio w"] by (simp add: bridge_ok_def)
  from ok_drive [OF assms(2) g assms(5,6) this] have ok': "bridge_ok est capabilities (cw_new cap cw_config_default)
      (cw_view pwr brk r0) (cw_view pwr brk) (\<lambda>_. True) w'" by (simp add: assms(16))
  have gone: "gone_ok (w_shared w)" using ok by (simp add: bridge_ok_def bridge_closed_def)
  from disarm_request [OF assms(8,7,9-11,15)] obtain s' t k where d: "a = WaitCw k False" "sh_cw sh = Some s'" "\<not> sh_poisoned sh"
    and s': "s' = start_restore DisRequested (Some t) (snd (take_ticket s))"
    and waiter: "sh_cw_waiters sh t = Some \<lparr>cwt_owner = console, cwt_is_arm = False, cwt_reply = k\<rparr>"
    and k: "k = fst (sync_channel (sh_cw_replies (w_shared w)))" "sh_cw_replies sh = snd (sync_channel (sh_cw_replies (w_shared w)))"
    by blast
  have "\<not> chn_gone (sh_cw_replies sh) k" using gone k by (auto simp: gone_ok_def sync_channel_def)
  note shape = start_restore_shape [OF s' assms(13)]
  have "cw_settled (w_shared w') \<and> \<not> cw_blocks_external_ptt (w_shared w') \<and> chn_values (sh_cw_replies (w_shared w')) k = Some (Inr ())"
    using restore_completes [OF assms(3) truthful_view(7) [OF assms(2)], of ?w s' DisRequested t 0 None
      "\<lparr>cwt_owner = console, cwt_is_arm = False, cwt_reply = k\<rparr>" est] d(2,3) shape waiter \<open>\<not> chn_gone (sh_cw_replies sh) k\<close> assms(12,14,16)
    by simp
  with d(1) ok_restored [OF ok' assms(5,6)] show ?thesis by (simp add: wait_result_def)
qed

theorem bridge_disarm_completes_witness:
  "let w = snd bench_armed; x = apply_cw small_estimate (w_clock w) 1 DisarmCw (w_shared w);
       w' = drive_cw small_estimate bench_radio (w\<lparr>w_shared := snd x, w_env := []\<rparr>)
   in be_power (w_radio w) = 5 \<and> wait_result (fst x) (w_shared w') = Inr () \<and> be_power (w_radio w') = 50"
proof -
  let ?w = "snd bench_armed"
  have "bench_ready ?w" by code_simp
  then obtain s arm where s: "\<not> sh_poisoned (w_shared ?w)" "sh_cw (w_shared ?w) = Some s" "sup_arm s = Some arm" "arm_owner arm = 1"
    "sup_activity s = Idle" "sup_outstanding s = None" "quiet (sup_notices s)" "drained (w_clock ?w) s" and p: "be_power (w_radio ?w) = 5"
    by (auto simp: bench_ready_def drained_def Option.is_none_def List.null_iff split: option.splits activity.splits)
  have "obedient bench_cw be_power be_break_in" by (simp add: obedient_def bench_cw_def)
  from bridge_disarm_completes [OF bench_armed_reach [unfolded bench_reach_def] bench_truthful this bench_keyer s surjective_pairing refl] p
  show ?thesis unfolding Let_def by (simp add: bench_start_def)
qed

end
