(* ===== verification/Spec2Isabelle.thy ===== *)
theory Spec2Isabelle
  imports Serial_Session Completion Rfc2217 Broker_Session Bridge_Progress
begin

text \<open>
  A verification development for the radio-control workspace under \<^verbatim>\<open>src/\<close>: a stack of crates that
  parse CAT (computer-aided transceiver) commands, carry them to a radio over serial lines, TCP, UDP and
  RFC 2217, serve them to several clients through one broker, and serve a richer console protocol with
  supervised CW transmission beside it.

  \<^bold>\<open>How the program fits together.\<close> A client request arrives at a listener
  (\<^verbatim>\<open>cat-server/src/tcp.rs\<close>, \<^verbatim>\<open>udp.rs\<close>), is queued as a job on a single-threaded channel
  (\<^verbatim>\<open>local_channel.rs\<close>) and answered by the broker's worker (\<^verbatim>\<open>broker.rs\<close>), which validates it against
  the radio's command table (\<^verbatim>\<open>cat-framework/src/cat.rs\<close>) and executes it on a session
  (\<^verbatim>\<open>cat-transport-*\<close>) through the typed client (\<^verbatim>\<open>cat-client/src/client.rs\<close>). Consoles speak a framed
  protocol of their own (\<^verbatim>\<open>cat-native\<close>); their commands are checked against the radio's capabilities
  (\<^verbatim>\<open>cat-framework/src/capabilities.rs\<close>) and handed to the bridge (\<^verbatim>\<open>cat-rigctl/src/native_bridge.rs\<close>), whose pump
  drives the radio; those that key the transmitter go to the CW supervisor behind its lock
  (\<^verbatim>\<open>cat-rigctl/src/native_bridge/cw.rs\<close>).

  \<^bold>\<open>Conventions.\<close> A Rust integer is a word of its width (\<open>u8\<close>, \<open>u16\<close>, \<open>u32\<close>, \<open>u64\<close>), so arithmetic wraps as
  it does in a release build; \<^verbatim>\<open>usize\<close> and lengths are natural numbers. Bytes are \<open>u8 list\<close>; a
  \<^verbatim>\<open>String\<close> that is only compared and copied is its UTF-8 bytes, one that is taken apart by characters is
  a list of Unicode scalars (\<open>ustr\<close>). \<^verbatim>\<open>Result\<close> is a sum with the error on the left; a panic, or a call
  that never returns, is \<open>None\<close>. Traits are records of their methods, and the contract a client relies on
  is a locale that is interpreted on the implementations. Error texts are datatypes with one constructor
  per format string. Third-party code (\<^verbatim>\<open>serde_json\<close>, the operating system's sockets and serial ports) is
  a parameter.

  \<^bold>\<open>The theories.\<close>

  \<^item> \<open>Cat_Prelude\<close>, \<open>Cat_Text\<close>: words, big-endian encodings, UTF-8, and the character functions of
    \<^verbatim>\<open>str\<close> the program uses.
  \<^item> \<open>Cat_Engine\<close> (\<^verbatim>\<open>cat-framework/src/cat.rs\<close>, \<^verbatim>\<open>wire_format.rs\<close>): the command table, classification of
    a frame as query, set or action, the ASCII wire format, parameter parsing and the response builder.
    Shown: a mutating frame is declared as such, the accepted frames are exactly the declared ones, which
    error each other frame gets, and on which accepted frames reading the parameters panics.
  \<^item> \<open>Civ\<close> (\<^verbatim>\<open>cat-framework/src/civ.rs\<close>): the CI-V wire format and its BCD numbers, with round trips, and exactly
    which requests are read back as themselves. This theory shows what the serial session makes of a bus that echoes.
  \<^item> \<open>Transport_Core\<close>, \<open>Completion\<close> (\<^verbatim>\<open>cat-transport-core\<close>): the session contract (locale
    \<open>cat_session_contract\<close>), the scripted session, modem lines, the completion channel between threads as
    an interleaving step relation, and the timeout future.
  \<^item> \<open>Serial_Session\<close>, \<open>Tcp_Session\<close>, \<open>Udp_Session\<close>, \<open>Broker_Session\<close>: the sessions; a read refines an abstract
    framing function of the byte stream, an exchange returns the answer to its own request. \<open>Broker_Session\<close> also
    holds submissions among other clients' traffic: \<open>sv_event\<close> is what else happens to the server, \<open>in_order\<close> the
    sequential reference, and \<open>contended_submit\<close> the submission between them.
  \<^item> \<open>Rfc2217\<close> (\<^verbatim>\<open>cat-transport-rfc2217\<close>): the Telnet/Com-Port codec; decoding does not depend on how the
    stream is cut into reads, and inverts encoding.
  \<^item> \<open>Cat_Client\<close>, \<open>Local_Channel\<close>, \<open>Broker\<close>, \<open>Net_Server\<close>: the typed client, the channels (no lost wake-up,
    first in first out), the broker and its worker loop (every job is answered, in order), and the TCP and
    UDP listeners (a reply is the answer to the request it names).
  \<^item> \<open>Capabilities\<close> (\<^verbatim>\<open>capabilities.rs\<close>, \<^verbatim>\<open>installation.rs\<close>): what a radio can do and what is wired to it;
    \<^verbatim>\<open>CwCapability::validate\<close> is characterised exactly.
  \<^item> \<open>Native_Protocol\<close>, \<open>Native_Server\<close> (\<^verbatim>\<open>cat-native\<close>): framing and picture payloads with round trips, the
    session state machine and the validation of every command, one console connection from bytes to
    bytes.
  \<^item> \<open>Cw_Types\<close>, \<open>Cw_Supervisor\<close>, \<open>Cw_Safety\<close> (\<^verbatim>\<open>native_bridge/cw.rs\<close>): the CW supervisor. Its requests,
    polls and answers interleave freely with a radio whose writes may fail; one invariant per setting
    (locale \<open>cw_register\<close>) shows that the radio is put back and is never keyed above the clamp. The radio reports its
    power and break-in as they are, and nobody but the supervisor changes them.
  \<^item> \<open>Cw_Progress\<close>: traces of the supervisor. Nothing is keyed before the power was read back at the clamp, a poll
    never ends in a state nothing can leave, and what an abort does to the wire is stated exactly.
  \<^item> \<open>Native_Bridge\<close>, \<open>Bridge_Safety\<close>, \<open>Bridge_Progress\<close> (\<^verbatim>\<open>native_bridge.rs\<close>): the object the listener threads share and
    the whole cycle of the pump. Threads' calls happen at each of the pump's awaits (\<open>interfere\<close>) and between cycles
    (\<open>bridge_reach\<close>); what the pump does between two awaits is one step. The supervisor's safety carries over to the radio
    behind the bridge, every queued command is answered, a poisoned lock fails closed, and a disarm completes.

  This theory holds the properties that span components.

  \<^bold>\<open>Loops and bounds.\<close> Read loops recurse on what is left of the stream or the deadline, the worker on the queued
  jobs. Loops that may run for ever are partial functions with \<open>None\<close> for that, and are shown to return wherever a
  property says they do. \<open>next_loop\<close> and \<open>drive_loop\<close> carry the source's own bounds, 64 iterations and \<open>MAX_CW_STEPS\<close>
  exchanges; no other bound is chosen. Durations and the limits of \<open>cw_config\<close> are unbounded natural numbers.

  \<^bold>\<open>What the environment is assumed to do.\<close> \<open>tcp_stream\<close>: reads may be short and be interrupted, but neither reads nor writes
  fail. \<open>udp_socket\<close>: receiving does not fail and finitely many datagrams arrive before a deadline. \<open>worker_run\<close> drains the queue in one
  step, which is the whole story because a job that arrives during it is a job behind it. \<open>serve_pass\<close>: the host changes
  through this console's commands only. \<open>cuts_off\<close>: the timer ends session calls that would not return. \<open>truthful\<close>: the
  radio's power and break-in are what it says, and the server alone changes them. Each property that rests on one of these says so.

  \<^bold>\<open>Not modelled.\<close> Floating-point code: signal processing (\<^verbatim>\<open>cat-signal-*\<close>), the Morse synthesizer, decoder
  and scenario generator (\<^verbatim>\<open>cat-morse\<close>), meter fractions and the keying estimate, which is a parameter.
  Drawing: the terminal and desktop consoles (\<^verbatim>\<open>cat-ui-ratatui\<close>, \<^verbatim>\<open>cat-ui-egui\<close>) and the layout and theme
  types they share. Operating-system input and output: io_uring and Windows serial ports, sockets,
  threads, sound cards and SDR dongles. Test programs and examples.
\<close>

section \<open>Lemmas across components\<close>

lemma civ_frame_over_serial:
  assumes "END_OF_MESSAGE \<notin> {to_addr, from_addr, fst code}" and "snd code \<noteq> Some END_OF_MESSAGE" and "\<forall>b \<in> set ps. bcd_byte b"
    and "frame = ([PREAMBLE, PREAMBLE, to_addr, from_addr, fst code] @ sub_bytes (snd code) @ ps) @ [END_OF_MESSAGE]"
    and "length frame \<le> MAX_FRAME_LEN"
    and "tr_write T request (tr_drain T t) = (Inr n, t1)" and "tr_flush T t1 = (Inr (), t2)"
    and "delivers T now (now t2 + READ_TIMEOUT) t2 frame t3"
  shows "serial_execute T now civ_frame_complete request [] t = (Inr ResponseWritten, frame, t3)"
proof -
  have "END_OF_MESSAGE \<notin> set ps" using assms(3) bcd_byte_not_terminator by blast
  then have "END_OF_MESSAGE \<notin> set ([PREAMBLE, PREAMBLE, to_addr, from_addr, fst code] @ sub_bytes (snd code) @ ps)"
    using assms(1,2) by (auto simp: sub_bytes_def civ_bytes split: option.splits)
  from civ_scanner.read_loop_delivers [OF assms(8) [unfolded assms(4)] this, of "[]"] assms(5)
  have "serial_read_loop T now civ_frame_complete (now t2 + READ_TIMEOUT) [] t2 = (Inr (), frame, t3)"
    by (simp add: assms(4))
  then show ?thesis using assms(4,6,7) by (simp add: serial_execute_def disposition_of_def)
qed

section \<open>Properties across components\<close>

text \<open>
  C25: A CI-V radio on a serial line, with and without the echo of a single-wire bus. The radio and controller addresses
  differ, addresses and command avoid the terminator, the data of request and response is BCD, the frames fit the limit,
  the request is written, and the line delivers its first frame in time: the controller's own request when the bus
  echoes, the radio's response otherwise. Whatever stale input the line held, the exchange succeeds and returns exactly that
  first frame. So without echo the caller gets the radio's response, recognised as addressed to it; with echo
  it gets its own request back as the answer, the session never calling \<^verbatim>\<open>is_echo\<close>, which recognises it.
\<close>

theorem civ_over_serial:
  assumes "civ_radio f \<noteq> civ_controller f" and "END_OF_MESSAGE \<notin> {civ_radio f, civ_controller f, fst code}"
    and "snd code \<noteq> Some END_OF_MESSAGE" and "\<forall>b \<in> set qs \<union> set ps. bcd_byte b"
    and "length (civ_encode_request f code qs) \<le> MAX_FRAME_LEN" and "length (civ_encode_response f code ps) \<le> MAX_FRAME_LEN"
    and "tr_write T (civ_encode_request f code qs) (tr_drain T t) = (Inr n, t1)" and "tr_flush T t1 = (Inr (), t2)"
    and "delivers T now (now t2 + READ_TIMEOUT) t2
      (if echoes then civ_encode_request f code qs else civ_encode_response f code ps) t3"
  shows "\<exists>frame. serial_execute T now civ_frame_complete (civ_encode_request f code qs) [] t = (Inr ResponseWritten, frame, t3) \<and>
    frame = (if echoes then civ_encode_request f code qs else civ_encode_response f code ps) \<and>
    (is_for_us f frame \<longleftrightarrow> \<not> echoes) \<and> (is_echo f frame \<longleftrightarrow> echoes)"
proof -
  note sent = assms(3) _ _ _ assms(7,8)
  have "serial_execute T now civ_frame_complete (civ_encode_request f code qs) [] t =
      (Inr ResponseWritten, if echoes then civ_encode_request f code qs else civ_encode_response f code ps, t3)"
  proof (cases echoes)
    case True
    with assms show ?thesis
      by (intro civ_frame_over_serial [OF _ sent, of "civ_radio f" "civ_controller f" qs]) (auto simp: civ_encode_request_def)
  next
    case False
    with assms show ?thesis
      by (intro civ_frame_over_serial [OF _ sent, of "civ_controller f" "civ_radio f" ps]) (auto simp: civ_encode_response_def)
  qed
  then show ?thesis
    using echo_xor_answer [OF assms(1)] is_echo_request [of f code qs] is_for_us_response [of f code ps] by auto
qed

theorem civ_over_serial_witness:
  "let request = civ_encode_request civ_default (3, None) [];
       response = civ_encode_response civ_default (3, None) (encode_bcd 14074000 5)
   in serial_execute line_transport (\<lambda>_. 0) civ_frame_complete request [] (response @ [0xFE]) =
        (Inr ResponseWritten, response, [0xFE]) \<and>
      serial_execute line_transport (\<lambda>_. 0) civ_frame_complete request [] (request @ response) =
        (Inr ResponseWritten, request, response) \<and> is_echo civ_default request"
proof -
  let ?request = "civ_encode_request civ_default (3, None) []"
  let ?response = "civ_encode_response civ_default (3, None) (encode_bcd 14074000 5)"
  have d: "delivers line_transport (\<lambda>_. 0) (0 + READ_TIMEOUT) (bs @ rest) bs rest" for bs rest
    by (rule line_delivers) (simp add: READ_TIMEOUT_def)
  have s: "length ?request \<le> MAX_FRAME_LEN" "length ?response \<le> MAX_FRAME_LEN"
    by (simp_all add: civ_encode_request_def civ_encode_response_def sub_bytes_def MAX_FRAME_LEN_def)
  have w: "tr_write line_transport r (tr_drain line_transport l) = (Inr (length r), l)"
    "tr_flush line_transport l = (Inr (), l)" for r l
    by (simp_all add: line_transport_def)
  have a: "civ_radio civ_default \<noteq> civ_controller civ_default"
    "END_OF_MESSAGE \<notin> {civ_radio civ_default, civ_controller civ_default, fst (3 :: u8, None :: u8 option)}"
    "snd (3 :: u8, None :: u8 option) \<noteq> Some END_OF_MESSAGE"
    by (simp_all add: model_defs civ_bytes wire_defs)
  have b: "\<forall>b \<in> set [] \<union> set (encode_bcd 14074000 5). bcd_byte b" using encode_bcd_bytes by auto
  note exchange = civ_over_serial [OF a b s w, of "\<lambda>_. 0"]
  have "delivers line_transport (\<lambda>_. 0) (0 + READ_TIMEOUT) (?response @ [0xFE]) (if False then ?request else ?response) [0xFE]"
    using d by simp
  from exchange [OF this] have "serial_execute line_transport (\<lambda>_. 0) civ_frame_complete ?request [] (?response @ [0xFE]) =
      (Inr ResponseWritten, ?response, [0xFE])" by simp
  moreover have "delivers line_transport (\<lambda>_. 0) (0 + READ_TIMEOUT) (?request @ ?response) (if True then ?request else ?response) ?response"
    using d by simp
  from exchange [OF this] have "serial_execute line_transport (\<lambda>_. 0) civ_frame_complete ?request [] (?request @ ?response) =
      (Inr ResponseWritten, ?request, ?response) \<and> is_echo civ_default ?request" by simp
  ultimately show ?thesis by (simp only: Let_def simp_thms)
qed

text \<open>
  C1: The TCP server end to end, among other clients. A connection delivers a list of request frames, cut by the
  network in any way, to a server in any state it can reach: its queue may hold other clients' jobs, other
  clients queue requests and tasks before each of its submissions and while it waits, the worker takes jobs
  whenever it likes, and the gate of the listener may refuse any submission. The connection is answered every
  request, in order: a refused one with \<^verbatim>\<open>ERR\<close> and the reason, without reaching the queue, every other one
  with the answer it gets when all jobs of the server run one after the other on the one radio
  session in the order they were queued. If every answer fits a frame, the bytes written back are exactly one frame per
  request with those answers, the client is unregistered, and what is left of the queue takes the radio
  where that order takes it. Assumed are a stream that reports no error other than its end, a worker that is not dropped, and a timer that cuts off
  session calls that do not return.
\<close>

theorem tcp_server_end_to_end:
  assumes "tcp_stream io content budget sent_out"
    and "content s = concat (map frame_of ps)" and "list_all (\<lambda>p. length p \<le> 65536) ps"
    and "sv_reach env sv" and "cat_wire_format (br_format (sv_broker sv)) framable"
    and "cuts_off env (br_timeout (sv_broker sv))"
  shows "\<exists>br wires br'. run_all env (map job_work (queue (sv_jobs sv))) (sv_broker sv) = Some br \<and>
    in_order env turns ps br = Some (wires, br') \<and> length wires = length ps \<and>
    (list_all (\<lambda>w. length w \<le> 65536) wires \<longrightarrow>
      (\<exists>s' sv' turns'. handle_connection io io_display (contended_submit env) s (sv, turns) reg =
          Some (s', (sv', turns'), unregister (next_id reg) (snd (register reg))) \<and>
        sent_out s' = sent_out s @ concat (map frame_of wires) \<and>
        run_all env (map job_work (queue (sv_jobs sv'))) (sv_broker sv') = Some br'))"
proof -
  obtain br where br: "run_all env (map job_work (queue (sv_jobs sv))) (sv_broker sv) = Some br"
    "br_format br = br_format (sv_broker sv)" "br_timeout br = br_timeout (sv_broker sv)"
    using run_all_total [OF assms(5,6)] by blast
  with assms(5,6) obtain wires br' where a: "in_order env turns ps br = Some (wires, br')" "length wires = length ps"
    using in_order_total [of br framable env turns ps] by auto
  have "leads_to env sv br" using br(1) sv_reach_ok [OF assms(4)] sv_reach_alive [OF assms(4)] by (simp add: leads_to_def)
  from serve_all_in_order [OF this a(1), of "next_id reg"] obtain sv' turns' where
    sv': "serve_all (contended_submit env) (next_id reg) ps (sv, turns) = Some (wires, sv', turns')" "leads_to env sv' br'" by blast
  from tcp_stream.connection_loop_serves [OF assms(1-3) sv'(1), of io_display] sv'(2) br(1) a
  show ?thesis by (auto simp: handle_connection_def register_def leads_to_def Let_def)
qed

definition sample_timed_env :: "(scripted_session, transport_error) broker_env" where
  "sample_timed_env = sample_env\<lparr>env_timer := (\<lambda>_ s. Some s)\<rparr>"

lemma sample_timed_cuts_off: "cuts_off sample_timed_env d"
  by (simp add: cuts_off_def sample_timed_env_def sample_env_def)

text \<open>Another client is ahead of the first request, and the gate refuses the second.\<close>

definition sample_turns :: "turn list" where
  "sample_turns = [\<lparr>t_before = [Arrive 9 (Wire (lit ''X;;''))], t_refusal = None, t_waiting = [Take, Arrive 9 (Wire (lit ''X;;''))]\<rparr>,
     \<lparr>t_before = [], t_refusal = Some (lit ''armed''), t_waiting = []\<rparr>]"

definition sample_new_server :: "(scripted_session, nat, bytes) server" where
  "sample_new_server = build_with_timeout sample_timed_env (with_script []) sample_table (ascii_line_format id) 5000"

lemma sample_refused:
  "br_table br = sample_table \<Longrightarrow> br_format br = ascii_line_format id \<Longrightarrow>
   run_work sample_timed_env (Wire (lit ''X;;'')) br = Some (lit ''ERR malformed request: unknown command: X;'', br)"
proof -
  assume b: "br_table br = sample_table" "br_format br = ascii_line_format id"
  have "dispatch sample_timed_env (lit ''X;;'') br = Some (Inl (Malformed (UnknownCommand (lit ''X;''))), br)"
    by (simp add: dispatch_def b sample_eval)
  then show ?thesis by (simp add: run_work_def outcome_to_wire_def) (simp add: lit_def)
qed

lemma sample_in_order:
  "in_order sample_timed_env sample_turns [lit ''X;;'', lit ''FA;''] (sv_broker sample_new_server) =
     Some ([lit ''ERR malformed request: unknown command: X;'', lit ''ERR armed''], sv_broker sample_new_server)"
proof -
  have "br_table (sv_broker sample_new_server) = sample_table" "br_format (sv_broker sample_new_server) = ascii_line_format id"
    by (simp_all add: sample_new_server_def build_with_timeout_def broker_with_format_and_timeout_def)
  then show ?thesis by (simp add: sample_turns_def arrivals_def sample_refused) (simp add: lit_def)
qed

theorem tcp_server_end_to_end_witness:
  "\<exists>s' b'. handle_connection chunk_io (\<lambda>_. []) (contended_submit sample_timed_env)
      ([Chunk (frame_of (lit ''X;;'')), Chunk (frame_of (lit ''FA;''))], []) (sample_new_server, sample_turns) registry_new =
        Some (s', b', unregister 0 (snd (register registry_new))) \<and>
    snd s' = frame_of (lit ''ERR malformed request: unknown command: X;'') @ frame_of (lit ''ERR armed'')"
proof -
  have len: "length (lit ''X;;'') \<le> 65536" "length (lit ''FA;'') \<le> 65536" "length (lit ''ERR armed'') \<le> 65536"
    "length (lit ''ERR malformed request: unknown command: X;'') \<le> 65536"
    by (simp_all add: lit_def)
  have id: "next_id registry_new = 0" by (simp add: registry_new_def)
  have sv: "sv_reach sample_timed_env sample_new_server" unfolding sample_new_server_def by (rule sv_build)
  have new: "br_format (sv_broker sample_new_server) = ascii_line_format id" "queue (sv_jobs sample_new_server) = []"
    by (simp_all add: sample_new_server_def build_with_timeout_def broker_with_format_and_timeout_def channel_def)
  from tcp_server_end_to_end [OF chunked.tcp_stream_axioms, where ps = "[lit ''X;;'', lit ''FA;'']" and sv = sample_new_server
      and env = sample_timed_env and framable = ascii_framable and turns = sample_turns
      and s = "([Chunk (frame_of (lit ''X;;'')), Chunk (frame_of (lit ''FA;''))], [])" and io_display = "\<lambda>_. []" and reg = registry_new]
    len sv ascii.cat_wire_format_axioms sample_timed_cuts_off sample_in_order
  show ?thesis by (auto simp: id new)
qed

end
